(* ===== verification/Prelude.thy ===== *)
theory Prelude
  imports Main "HOL-Library.Word"
begin

text \<open>
  Shared notions of the development: the ways a C++ operation can fail to
  deliver a value, the result type built on them with its sequencing
  operator, C memory (buffers, strings, copies), and the facts about them
  the component theories share.
\<close>

section \<open>Results\<close>

text \<open>
  Every operation of the program that can run into undefined behaviour or
  throw returns a \<open>result\<close>.  The first four errors are undefined behaviour
  (a null pointer is dereferenced, memory outside an object is touched, an
  integer is divided by zero, a double outside the target range is cast to
  an integer); the next three are uncaught standard exceptions, which end
  the process; \<open>TooLarge\<close> marks containers of 2 to the 32 or more elements,
  on which the 32-bit loop counters of the code wrap, and \<open>Unmodelled\<close> the few
  situations named where they arise: on both the model says nothing.
  \<open>Blocked\<close> is no failure: the call still waits for the other end of a
  connection.
\<close>

datatype cpp_error =
    NullDeref
  | OutOfBounds
  | DivByZero
  | BadCast
  | OutOfRange
  | InvalidArgument
  | LengthError
  | TooLarge
  | Unmodelled
  | Blocked

type_synonym 'a result = "cpp_error + 'a"

definition bindr :: "'a result \<Rightarrow> ('a \<Rightarrow> 'b result) \<Rightarrow> 'b result" where
  "bindr m f = (case m of Inl e \<Rightarrow> Inl e | Inr x \<Rightarrow> f x)"

named_theorems result_simps \<open>computing with results\<close>
named_theorems buffer_simps \<open>C strings and copies between buffers\<close>

lemma bindr_Inr [simp, result_simps]: "bindr (Inr x) f = f x"
  by (simp add: bindr_def)

lemma bindr_Inl [simp, result_simps]: "bindr (Inl e) f = Inl e"
  by (simp add: bindr_def)

lemma bindr_eq_Inr_iff [result_simps]:
  "bindr m f = Inr y \<longleftrightarrow> (\<exists>x. m = Inr x \<and> f x = Inr y)"
  by (cases m) auto

lemma bindr_eq_Inl_iff:
  "bindr m f = Inl e \<longleftrightarrow> m = Inl e \<or> (\<exists>x. m = Inr x \<and> f x = Inl e)"
  by (cases m) auto

lemma bindr_InrE:
  assumes "bindr m f = Inr y"
  obtains x where "m = Inr x" and "f x = Inr y"
  using assms by (auto simp: bindr_eq_Inr_iff)

lemma bindr_assoc: "bindr (bindr m f) g = bindr m (\<lambda>x. bindr (f x) g)"
  by (cases m) auto

lemma bindr_cong [fundef_cong]:
  "m = m' \<Longrightarrow> (\<And>x. m' = Inr x \<Longrightarrow> f x = f' x) \<Longrightarrow> bindr m f = bindr m' f'"
  by (cases m') auto

text \<open>A loop over a list whose body may fail.\<close>

fun foldr_result :: "('a \<Rightarrow> 's \<Rightarrow> 's result) \<Rightarrow> 'a list \<Rightarrow> 's \<Rightarrow> 's result" where
  "foldr_result f [] s = Inr s"
| "foldr_result f (x # xs) s = bindr (f x s) (foldr_result f xs)"

lemma foldr_result_append:
  "foldr_result f (xs @ ys) s = bindr (foldr_result f xs s) (foldr_result f ys)"
proof (induction xs arbitrary: s)
  case (Cons x xs)
  then show ?case by (cases "f x s") simp_all
qed simp

text \<open>A property of the state every step of a loop keeps is kept by the loop.\<close>

lemma foldr_result_invariant:
  assumes "\<And>x s s'. x \<in> set xs \<Longrightarrow> P s \<Longrightarrow> f x s = Inr s' \<Longrightarrow> P s'"
  shows "P s \<Longrightarrow> foldr_result f xs s = Inr s' \<Longrightarrow> P s'"
  using assms
proof (induction xs arbitrary: s)
  case Nil
  then show ?case by simp
next
  case (Cons x xs)
  from Cons.prems(2) obtain t where t: "f x s = Inr t" "foldr_result f xs t = Inr s'"
    by (auto elim: bindr_InrE)
  have "P t" using Cons.prems(1,3) t(1) by (meson list.set_intros(1))
  then show ?case using Cons.IH [OF _ t(2)] Cons.prems(3) by (meson list.set_intros(2))
qed

section \<open>C memory\<close>

text \<open>
  A buffer is the list of its elements; what an allocation leaves
  uninitialised is a parameter of the operation that allocates it.  A
  \<open>const char *\<close> argument is a \<^typ>\<open>string\<close> without the terminating
  NUL; in memory it is followed by \<open>NUL\<close>.
\<close>

definition NUL :: char where
  "NUL = CHR 0x00"

definition memcpy :: "'a list \<Rightarrow> 'a list \<Rightarrow> 'a list result" where
  "memcpy dst src =
     (if length src \<le> length dst then Inr (src @ drop (length src) dst) else Inl OutOfBounds)"

definition read_mem :: "'a list \<Rightarrow> nat \<Rightarrow> 'a list result" where
  "read_mem src n = (if n \<le> length src then Inr (take n src) else Inl OutOfBounds)"

fun cstr :: "char list \<Rightarrow> string result" where
  "cstr [] = Inl OutOfBounds"
| "cstr (c # b) = (if c = NUL then Inr [] else bindr (cstr b) (\<lambda>s. Inr (c # s)))"

fun strnlen :: "char list \<Rightarrow> nat \<Rightarrow> nat result" where
  "strnlen b 0 = Inr 0"
| "strnlen [] (Suc n) = Inl OutOfBounds"
| "strnlen (c # b) (Suc n) =
     (if c = NUL then Inr 0 else bindr (strnlen b n) (\<lambda>k. Inr (Suc k)))"

text \<open>\<open>!strcmp(b, s)\<close> for a block of memory \<open>b\<close> and a C string \<open>s\<close>.\<close>

fun strcmp_eq :: "char list \<Rightarrow> string \<Rightarrow> bool result" where
  "strcmp_eq [] s = Inl OutOfBounds"
| "strcmp_eq (c # b) [] = Inr (c = NUL)"
| "strcmp_eq (c # b) (d # s) = (if c = d then strcmp_eq b s else Inr False)"

text \<open>\<open>!strncmp(b, s, n)\<close> for a block \<open>b\<close> and a literal \<open>s\<close> of \<open>n\<close> characters.\<close>

fun strncmp_mem :: "char list \<Rightarrow> string \<Rightarrow> bool result" where
  "strncmp_mem b [] = Inr True"
| "strncmp_mem [] (d # s) = Inl OutOfBounds"
| "strncmp_mem (c # b) (d # s) = (if c = d then strncmp_mem b s else Inr False)"

text \<open>\<open>!strncmp(a, b, n)\<close> for two C strings.\<close>

definition strncmp_eq :: "string \<Rightarrow> string \<Rightarrow> nat \<Rightarrow> bool" where
  "strncmp_eq a b n \<longleftrightarrow> take n a = take n b"

lemma length_memcpy: "memcpy dst src = Inr b \<Longrightarrow> length b = length dst"
  by (auto simp: memcpy_def split: if_splits)

lemma memcpy_Inr [buffer_simps]:
  "length src \<le> length dst \<Longrightarrow> memcpy dst src = Inr (src @ drop (length src) dst)"
  by (simp add: memcpy_def)

lemma cstr_append [buffer_simps]: "NUL \<notin> set s \<Longrightarrow> cstr (s @ NUL # r) = Inr s"
  by (induction s) auto

lemma cstr_no_NUL: "NUL \<notin> set b \<Longrightarrow> cstr b = Inl OutOfBounds"
  by (induction b) auto

lemma cstr_InrD: "cstr b = Inr s \<Longrightarrow> NUL \<notin> set s \<and> (\<exists>r. b = s @ NUL # r)"
  by (induction b arbitrary: s) (auto simp: bindr_eq_Inr_iff split: if_splits)

lemma strnlen_string [buffer_simps]:
  "NUL \<notin> set s \<Longrightarrow> length s < n \<Longrightarrow> strnlen (s @ NUL # r) n = Inr (length s)"
  by (induction s n rule: strnlen.induct) auto

lemma strnlen_prefix [buffer_simps]:
  "NUL \<notin> set s \<Longrightarrow> n \<le> length s \<Longrightarrow> strnlen (s @ r) n = Inr n"
  by (induction s n rule: strnlen.induct) auto

lemma strcmp_eq_string [buffer_simps]:
  "NUL \<notin> set a \<Longrightarrow> NUL \<notin> set s \<Longrightarrow> strcmp_eq (a @ NUL # r) s = Inr (a = s)"
proof (induction a arbitrary: s)
  case Nil
  then show ?case by (cases s) auto
next
  case (Cons c a)
  then show ?case by (cases s) auto
qed

text \<open>A block without a terminator: equal only up to its last, foreign byte.\<close>

lemma strcmp_eq_unterminated:
  "j \<noteq> NUL \<Longrightarrow> strcmp_eq (a @ [j]) a = Inr False"
  by (induction a) auto

lemma strncmp_eq_prefix: "strncmp_eq (p @ s) p (length p)"
  by (simp add: strncmp_eq_def)

section \<open>Errno values\<close>

definition ENOENT :: int where
  "ENOENT = 2"

definition EINTR :: int where
  "EINTR = 4"

definition EAGAIN :: int where
  "EAGAIN = 11"

section \<open>Bytes and samples\<close>

text \<open>
  Sample memory is a list of bytes.  A 16-bit sample occupies two bytes,
  the low one first (the emulator's hosts are little endian).
\<close>

type_synonym byte = "8 word"
type_synonym u16 = "16 word"

definition enc16 :: "u16 \<Rightarrow> byte list" where
  "enc16 w = [ucast w, ucast (drop_bit 8 w)]"

definition dec16 :: "byte \<Rightarrow> byte \<Rightarrow> u16" where
  "dec16 lo hi = or (ucast lo) (push_bit 8 (ucast hi))"

definition encode16 :: "u16 list \<Rightarrow> byte list" where
  "encode16 ws = concat (map enc16 ws)"

text \<open>The first \<open>n\<close> 16-bit samples of a block of bytes.\<close>

fun decode16 :: "nat \<Rightarrow> byte list \<Rightarrow> u16 list result" where
  "decode16 0 b = Inr []"
| "decode16 (Suc n) (lo # hi # b) = bindr (decode16 n b) (\<lambda>ws. Inr (dec16 lo hi # ws))"
| "decode16 (Suc n) _ = Inl OutOfBounds"

lemma dec16_enc16: "dec16 (ucast w) (ucast (drop_bit 8 w)) = (w :: u16)"
  by (rule bit_word_eqI) (auto simp: dec16_def bit_simps)

lemma enc16_dec16: "enc16 (dec16 lo hi) = [lo, hi]"
proof -
  have "(ucast (dec16 lo hi) :: byte) = lo"
    by (rule bit_word_eqI) (auto simp: dec16_def bit_simps)
  moreover have hi: "\<not> bit lo (8 + n)" for n
    using bit_imp_le_length [of lo "8 + n"] by auto
  moreover have "(ucast (drop_bit 8 (dec16 lo hi)) :: byte) = hi"
    by (rule bit_word_eqI) (auto simp: dec16_def bit_simps hi)
  ultimately show ?thesis by (simp add: enc16_def)
qed

lemma length_encode16 [simp]: "length (encode16 ws) = 2 * length ws"
  by (induction ws) (auto simp: encode16_def enc16_def)

lemma decode16_encode16 [buffer_simps]:
  "decode16 (length ws) (encode16 ws @ r) = Inr ws"
  by (induction ws) (auto simp: encode16_def enc16_def dec16_enc16)

lemma decode16_total:
  "2 * n \<le> length b \<Longrightarrow> \<exists>ws. decode16 n b = Inr ws \<and> length ws = n \<and> encode16 ws = take (2 * n) b"
proof (induction n b rule: decode16.induct)
  case (1 b)
  then show ?case by (simp add: encode16_def)
next
  case (2 n lo hi b)
  then obtain ws where "decode16 n b = Inr ws" "length ws = n" "encode16 ws = take (2 * n) b"
    by auto
  then show ?case by (auto simp: encode16_def enc16_dec16)
qed auto

lemma decode16_InrD: "decode16 n b = Inr ws \<Longrightarrow> 2 * n \<le> length b \<and> length ws = n"
  by (induction n b arbitrary: ws rule: decode16.induct) (auto simp: bindr_eq_Inr_iff)

section \<open>Reading a buffer around\<close>

text \<open>\<open>n\<close> elements of \<open>xs\<close> from index \<open>i\<close> on, starting over at the end.\<close>

definition cyc :: "'a list \<Rightarrow> nat \<Rightarrow> nat \<Rightarrow> 'a list" where
  "cyc xs i n = map (\<lambda>k. xs ! ((i + k) mod length xs)) [0..<n]"

lemma length_cyc [simp]: "length (cyc xs i n) = n"
  by (simp add: cyc_def)

lemma cyc_nth: "k < n \<Longrightarrow> cyc xs i n ! k = xs ! ((i + k) mod length xs)"
  by (simp add: cyc_def)

lemma cyc_append: "cyc xs i (m + n) = cyc xs i m @ cyc xs (i + m) n"
  by (rule nth_equalityI) (auto simp: cyc_nth nth_append)

lemma cyc_mod: "cyc xs (i mod length xs) n = cyc xs i n"
  by (rule nth_equalityI) (simp_all add: cyc_nth mod_add_left_eq)

lemma cyc_chunk: "i + n \<le> length xs \<Longrightarrow> cyc xs i n = take n (drop i xs)"
  by (rule nth_equalityI) (auto simp: cyc_nth)

lemma cyc_all: "cyc xs 0 (length xs) = xs"
  using cyc_chunk [of 0 "length xs" xs] by simp

lemma cyc_replicate: "0 < m \<Longrightarrow> cyc (replicate m x) i n = replicate n x"
  by (rule nth_equalityI) (simp_all add: cyc_nth)

end
