(* ===== verification/IEEE_Double.thy ===== *)
theory IEEE_Double
  imports Complex_Main Prelude
begin

text \<open>
  The C++ type \<open>double\<close>: IEEE-754 binary64 with round to nearest, ties to
  even, as on every platform the emulator builds for.  A finite non-zero
  value is the rational number it stands for; the sign of zero is kept,
  since a division by it decides the sign of an infinity.  The operations
  compute exactly and round once.  The last part gives the casts to integer
  types, undefined outside the target's range, and the exactness lemmas the
  device theories need.
\<close>

section \<open>Values and rounding\<close>

datatype double = NaN | Inf bool | Zero bool | Fin rat

definition pow2 :: "int \<Rightarrow> rat" where
  "pow2 e = (if 0 \<le> e then 2 ^ nat e else 1 / 2 ^ nat (- e))"

text \<open>The exponent of the binary digit that leads a positive number.\<close>

fun ilog2 :: "int \<Rightarrow> int" where
  "ilog2 n = (if n < 2 then 0 else 1 + ilog2 (n div 2))"

declare ilog2.simps [simp del]

definition lead_exp :: "rat \<Rightarrow> int" where
  "lead_exp x =
     (if 1 \<le> x then ilog2 \<lfloor>x\<rfloor> else - (ilog2 (\<lceil>1 / x\<rceil> - 1) + 1))"

text \<open>The exponent of the last digit kept: 53 digits, never below the subnormals.\<close>

definition ulp_exp :: "rat \<Rightarrow> int" where
  "ulp_exp x = max (-1074) (lead_exp x - 52)"

definition round_even :: "rat \<Rightarrow> int" where
  "round_even x =
     (let f = \<lfloor>x\<rfloor>; r = x - of_int f in
      if r < 1 / 2 \<or> (r = 1 / 2 \<and> even f) then f else f + 1)"

definition fl :: "rat \<Rightarrow> double" where
  "fl x =
     (if x = 0 then Zero False
      else let u = pow2 (ulp_exp \<bar>x\<bar>); m = of_int (round_even (\<bar>x\<bar> / u)) * u in
        if m = 0 then Zero (x < 0)
        else if 1024 \<le> lead_exp m then Inf (x < 0)
        else Fin (if x < 0 then - m else m))"

definition of_int_d :: "int \<Rightarrow> double" where
  "of_int_d i = fl (of_int i)"

section \<open>Arithmetic\<close>

fun sign_d :: "double \<Rightarrow> bool" where
  "sign_d NaN = False"
| "sign_d (Inf s) = s"
| "sign_d (Zero s) = s"
| "sign_d (Fin r) = (r < 0)"

fun neg_d :: "double \<Rightarrow> double" where
  "neg_d NaN = NaN"
| "neg_d (Inf s) = Inf (\<not> s)"
| "neg_d (Zero s) = Zero (\<not> s)"
| "neg_d (Fin r) = Fin (- r)"

fun add_d :: "double \<Rightarrow> double \<Rightarrow> double" where
  "add_d NaN y = NaN"
| "add_d x NaN = NaN"
| "add_d (Inf s) (Inf t) = (if s = t then Inf s else NaN)"
| "add_d (Inf s) y = Inf s"
| "add_d x (Inf t) = Inf t"
| "add_d (Zero s) (Zero t) = Zero (s \<and> t)"
| "add_d (Zero s) y = y"
| "add_d x (Zero t) = x"
| "add_d (Fin r) (Fin q) = fl (r + q)"

definition sub_d :: "double \<Rightarrow> double \<Rightarrow> double" where
  "sub_d x y = add_d x (neg_d y)"

fun mul_d :: "double \<Rightarrow> double \<Rightarrow> double" where
  "mul_d NaN y = NaN"
| "mul_d x NaN = NaN"
| "mul_d (Inf s) (Zero t) = NaN"
| "mul_d (Zero s) (Inf t) = NaN"
| "mul_d (Inf s) y = Inf (s \<noteq> sign_d y)"
| "mul_d x (Inf t) = Inf (sign_d x \<noteq> t)"
| "mul_d (Zero s) y = Zero (s \<noteq> sign_d y)"
| "mul_d x (Zero t) = Zero (sign_d x \<noteq> t)"
| "mul_d (Fin r) (Fin q) = fl (r * q)"

fun div_d :: "double \<Rightarrow> double \<Rightarrow> double" where
  "div_d NaN y = NaN"
| "div_d x NaN = NaN"
| "div_d (Inf s) (Inf t) = NaN"
| "div_d (Inf s) y = Inf (s \<noteq> sign_d y)"
| "div_d x (Inf t) = Zero (sign_d x \<noteq> t)"
| "div_d (Zero s) (Zero t) = NaN"
| "div_d (Zero s) y = Zero (s \<noteq> sign_d y)"
| "div_d x (Zero t) = Inf (sign_d x \<noteq> t)"
| "div_d (Fin r) (Fin q) = fl (r / q)"

section \<open>Casts\<close>

definition trunc_rat :: "rat \<Rightarrow> int" where
  "trunc_rat r = (if r < 0 then \<lceil>r\<rceil> else \<lfloor>r\<rfloor>)"

definition cast_int :: "int \<Rightarrow> int \<Rightarrow> double \<Rightarrow> int result" where
  "cast_int lo hi x =
     (case x of
        NaN \<Rightarrow> Inl BadCast
      | Inf s \<Rightarrow> Inl BadCast
      | Zero s \<Rightarrow> Inr 0
      | Fin r \<Rightarrow> (let t = trunc_rat r in if lo \<le> t \<and> t \<le> hi then Inr t else Inl BadCast))"

definition cast_i16 :: "double \<Rightarrow> int result" where
  "cast_i16 = cast_int (- (2 ^ 15)) (2 ^ 15 - 1)"

definition cast_i32 :: "double \<Rightarrow> int result" where
  "cast_i32 = cast_int (- (2 ^ 31)) (2 ^ 31 - 1)"

definition cast_u32 :: "double \<Rightarrow> nat result" where
  "cast_u32 x = bindr (cast_int 0 (2 ^ 32 - 1) x) (\<lambda>i. Inr (nat i))"

lemma cast_int_range: "cast_int lo hi x = Inr i \<Longrightarrow> x \<noteq> Zero s \<Longrightarrow> lo \<le> 0 \<Longrightarrow> 0 \<le> hi \<Longrightarrow> lo \<le> i \<and> i \<le> hi"
  by (auto simp: cast_int_def Let_def split: double.splits if_splits)

lemma cast_u32_numeral:
  "(numeral k :: int) \<le> 2 ^ 32 - 1 \<Longrightarrow> cast_u32 (Fin (numeral k)) = Inr (numeral k)"
  "cast_u32 (Fin 1) = Inr 1"
  by (simp_all add: cast_u32_def cast_int_def trunc_rat_def)

lemma cast_u32_bound: "cast_u32 x = Inr n \<Longrightarrow> n < 2 ^ 32"
  by (auto simp: cast_u32_def cast_int_def Let_def bindr_eq_Inr_iff split: double.splits if_splits)

lemma cast_i16_bound: "cast_i16 x = Inr i \<Longrightarrow> - (2 ^ 15) \<le> i \<and> i < 2 ^ 15"
  by (auto simp: cast_i16_def cast_int_def Let_def split: double.splits if_splits)

section \<open>Exactness\<close>

lemma pow2_pos [simp]: "0 < pow2 e"
  by (simp add: pow2_def)

lemma pow2_add: "pow2 (a + b) = pow2 a * pow2 b"
proof -
  have *: "pow2 e = 2 powi e" for e
    by (simp add: pow2_def power_int_def field_simps)
  show ?thesis by (simp add: * power_int_add)
qed

lemma pow2_nat: "0 \<le> e \<Longrightarrow> pow2 e = of_int (2 ^ nat e)"
  by (simp add: pow2_def)

lemma pow2_mono: "a \<le> b \<Longrightarrow> pow2 a \<le> pow2 b"
proof -
  assume "a \<le> b"
  then have "pow2 b = pow2 a * 2 ^ nat (b - a)"
    using pow2_add [of a "b - a"] by (simp add: pow2_def)
  then show ?thesis by simp
qed

lemma pow2_less_imp: "pow2 a < pow2 b \<Longrightarrow> a < b"
  using pow2_mono by (meson leD leI)

lemma ilog2_nonneg: "0 \<le> ilog2 n"
  by (induction n rule: ilog2.induct) (simp add: ilog2.simps)

lemma ilog2_bounds: "1 \<le> n \<Longrightarrow> 2 ^ nat (ilog2 n) \<le> n \<and> n < 2 * 2 ^ nat (ilog2 n)"
proof (induction n rule: ilog2.induct)
  case (1 n)
  show ?case
  proof (cases "n < 2")
    case True
    with 1 show ?thesis by (simp add: ilog2.simps)
  next
    case False
    have "nat (1 + ilog2 (n div 2)) = Suc (nat (ilog2 (n div 2)))"
      using ilog2_nonneg [of "n div 2"] by simp
    moreover define q where "q = (2 :: int) ^ nat (ilog2 (n div 2))"
    moreover have "q \<le> n div 2 \<and> n div 2 < 2 * q"
      unfolding q_def by (rule 1) (use False in auto)
    ultimately show ?thesis using False by (simp add: ilog2.simps [of n]) arith
  qed
qed

lemma lead_exp_lower:
  assumes "0 < x"
  shows "pow2 (lead_exp x) \<le> x"
proof (cases "1 \<le> x")
  case True
  have "2 ^ nat (ilog2 \<lfloor>x\<rfloor>) \<le> \<lfloor>x\<rfloor>" using True by (intro conjunct1 [OF ilog2_bounds]) simp
  then have "2 ^ nat (ilog2 \<lfloor>x\<rfloor>) \<le> x" by (simp add: le_floor_iff)
  then show ?thesis using True ilog2_nonneg by (simp add: lead_exp_def pow2_def)
next
  case False
  define m where "m = \<lceil>1 / x\<rceil> - 1"
  have "1 < 1 / x" using False assms by simp
  then have "1 \<le> m" unfolding m_def by linarith
  then have "m + 1 \<le> 2 * 2 ^ nat (ilog2 m)" using ilog2_bounds [of m] by simp
  then have "1 / x \<le> 2 * 2 ^ nat (ilog2 m)" by (simp add: m_def ceiling_le_iff)
  then have "1 / (2 * 2 ^ nat (ilog2 m)) \<le> x" using assms by (simp add: field_simps)
  then show ?thesis using False ilog2_nonneg [of m]
    by (simp add: lead_exp_def pow2_def m_def [symmetric] nat_add_distrib)
qed

lemma lead_exp_upper:
  assumes "0 < x"
  shows "x < pow2 (lead_exp x + 1)"
proof (cases "1 \<le> x")
  case True
  have "\<lfloor>x\<rfloor> < 2 * 2 ^ nat (ilog2 \<lfloor>x\<rfloor>)" using True by (intro conjunct2 [OF ilog2_bounds]) simp
  then have "x < of_int (2 * 2 ^ nat (ilog2 \<lfloor>x\<rfloor>))" by (simp only: floor_less_iff)
  then show ?thesis using True ilog2_nonneg [of "\<lfloor>x\<rfloor>"] by (simp add: lead_exp_def pow2_def nat_add_distrib)
next
  case False
  define m where "m = \<lceil>1 / x\<rceil> - 1"
  have "1 < 1 / x" using False assms by simp
  then have "1 \<le> m" "of_int m < 1 / x" unfolding m_def by linarith+
  then have "2 ^ nat (ilog2 m) \<le> m" using ilog2_bounds [of m] by simp
  then have "(2 :: rat) ^ nat (ilog2 m) \<le> of_int m" by (metis of_int_le_iff of_int_numeral of_int_power)
  then have "2 ^ nat (ilog2 m) < 1 / x" using \<open>of_int m < 1 / x\<close> by (rule le_less_trans)
  then have "x < 1 / 2 ^ nat (ilog2 m)" using assms by (simp add: field_simps)
  then show ?thesis using False ilog2_nonneg [of m]
    by (cases "ilog2 m = 0") (simp_all add: lead_exp_def pow2_def m_def [symmetric])
qed

lemma lead_exp_eq:
  assumes "pow2 e \<le> x" "x < pow2 (e + 1)"
  shows "lead_exp x = e"
proof -
  have "0 < x" using pow2_pos [of e] assms(1) by linarith
  then have "pow2 (lead_exp x) < pow2 (e + 1)" "pow2 e < pow2 (lead_exp x + 1)"
    using lead_exp_lower [of x] lead_exp_upper [of x] assms by (blast intro: le_less_trans)+
  then have "lead_exp x < e + 1" "e < lead_exp x + 1" by (blast intro: pow2_less_imp)+
  then show ?thesis by simp
qed

lemma round_even_of_int [simp]: "round_even (of_int k) = k"
  by (simp add: round_even_def)

lemma round_even_eq: "\<bar>of_int k - x\<bar> < 1 / 2 \<Longrightarrow> round_even x = k"
proof -
  assume a: "\<bar>of_int k - x\<bar> < 1 / 2"
  then have b: "of_int k - 1 / 2 < x" "x < of_int k + 1 / 2" by (auto simp: abs_if split: if_splits)
  show ?thesis
  proof (cases "of_int k \<le> x")
    case True
    then have "\<lfloor>x\<rfloor> = k" using b by (simp add: floor_eq_iff)
    then show ?thesis using b by (simp add: round_even_def)
  next
    case False
    then have "\<lfloor>x\<rfloor> = k - 1" using b by (simp add: floor_eq_iff)
    then show ?thesis using b by (simp add: round_even_def)
  qed
qed

text \<open>A value is recognised by its mantissa and exponent, without computing either.\<close>

lemma fl_value:
  assumes "pow2 e \<le> \<bar>x\<bar>" "\<bar>x\<bar> < pow2 (e + 1)" "-1022 \<le> e" "e \<le> 1022"
    and "\<bar>of_int k * pow2 (e - 52) - \<bar>x\<bar>\<bar> < pow2 (e - 52) / 2" "y = (if x < 0 then - 1 else 1) * of_int k * pow2 (e - 52)"
  shows "fl x = Fin y"
proof -
  let ?u = "pow2 (e - 52)"
  have pos: "0 < \<bar>x\<bar>" using pow2_pos [of e] assms(1) by linarith
  have le: "lead_exp \<bar>x\<bar> = e" by (rule lead_exp_eq [OF assms(1,2)])
  then have u: "ulp_exp \<bar>x\<bar> = e - 52" using assms(3) by (simp add: ulp_exp_def)
  have up: "0 < ?u" "?u \<noteq> 0" using pow2_pos [of "e - 52"] by (simp, metis less_irrefl)
  have eu: "?u \<le> pow2 e" "?u \<le> pow2 (e + 1)" by (simp_all add: pow2_mono)
  have "of_int k - \<bar>x\<bar> / ?u = (of_int k * ?u - \<bar>x\<bar>) / ?u"
    using up by (simp add: diff_divide_distrib)
  then have "\<bar>of_int k - \<bar>x\<bar> / ?u\<bar> = \<bar>of_int k * ?u - \<bar>x\<bar>\<bar> / ?u"
    using abs_of_pos [OF up(1)] by (simp add: abs_divide)
  also have "\<dots> < 1 / 2" using assms(5) up(2) by (simp add: divide_less_eq)
  finally have r: "round_even (\<bar>x\<bar> / ?u) = k" by (rule round_even_eq)
  define m where "m = of_int k * ?u"
  have "\<bar>m - \<bar>x\<bar>\<bar> < ?u / 2" using assms(5) by (simp add: m_def)
  then have mb: "\<bar>x\<bar> - ?u / 2 < m" "m < \<bar>x\<bar> + ?u / 2" by (auto simp: abs_if split: if_splits)
  have "0 < m" using mb(1) assms(1) eu(1) up(1) by linarith
  have "pow2 (e + 2) = 2 * pow2 (e + 1)" using pow2_add [of 1 "e + 1"] by (simp add: pow2_def [of 1] add.commute)
  then have "m < pow2 (e + 2)" using mb(2) assms(2) eu(2) up(1) by linarith
  then have "lead_exp m < e + 2" using lead_exp_lower [OF \<open>0 < m\<close>] by (intro pow2_less_imp) simp
  then have "lead_exp m < 1024" using assms(4) by simp
  moreover have "fl x = (if x = 0 then Zero False else if m = 0 then Zero (x < 0)
      else if 1024 \<le> lead_exp m then Inf (x < 0) else Fin (if x < 0 then - m else m))"
    by (simp only: fl_def Let_def u r m_def)
  moreover have "y = (if x < 0 then - m else m)" using assms(6) by (simp add: m_def)
  moreover have "x \<noteq> 0" using pos by simp
  ultimately show ?thesis using \<open>0 < m\<close> by simp
qed

text \<open>A number of at most 53 binary digits in the exponent range is not rounded.\<close>

lemma fl_exact:
  assumes x: "\<bar>x\<bar> = of_int k * pow2 j" and k: "0 < k" "k < 2 ^ 53" and j: "-1074 \<le> j" "j \<le> 971"
  shows "fl x = Fin x"
proof -
  have pos: "0 < \<bar>x\<bar>" using k x by simp
  have bound: "\<bar>x\<bar> < pow2 (53 + j)"
  proof -
    have "(of_int k :: rat) < of_int (2 ^ 53)" using k(2) of_int_less_iff by blast
    then have "of_int k * pow2 j < pow2 53 * pow2 j"
      by (intro mult_strict_right_mono) (simp_all add: pow2_nat)
    then show ?thesis by (simp only: x pow2_add)
  qed
  have "pow2 (lead_exp \<bar>x\<bar>) < pow2 (53 + j)"
    using lead_exp_lower [OF pos] bound by (rule le_less_trans)
  then have "lead_exp \<bar>x\<bar> < 53 + j" by (rule pow2_less_imp)
  then have u: "ulp_exp \<bar>x\<bar> \<le> j" using j by (simp add: ulp_exp_def)
  define u where "u = pow2 (ulp_exp \<bar>x\<bar>)"
  have "pow2 j = u * pow2 (j - ulp_exp \<bar>x\<bar>)" using pow2_add [of "ulp_exp \<bar>x\<bar>" "j - ulp_exp \<bar>x\<bar>"] by (simp add: u_def)
  then have "\<bar>x\<bar> = of_int (k * 2 ^ nat (j - ulp_exp \<bar>x\<bar>)) * u"
    using u by (simp add: x pow2_nat ac_simps)
  moreover have "u \<noteq> 0" using pow2_pos [of "ulp_exp \<bar>x\<bar>"] by (simp add: u_def del: pow2_pos)
  ultimately have "\<bar>x\<bar> / u = of_int (k * 2 ^ nat (j - ulp_exp \<bar>x\<bar>))"
    by (metis nonzero_mult_div_cancel_right)
  then have "of_int (round_even (\<bar>x\<bar> / u)) * u = \<bar>x\<bar>"
    by (simp only: round_even_of_int) (metis pow2_pos u_def nonzero_eq_divide_eq less_irrefl)
  moreover have "lead_exp \<bar>x\<bar> < 1024" using \<open>lead_exp \<bar>x\<bar> < 53 + j\<close> j by simp
  ultimately show ?thesis using pos
    by (auto simp: fl_def Let_def u_def [symmetric])
qed

lemma fl_int:
  assumes "i \<noteq> 0" "\<bar>i\<bar> < 2 ^ 53"
  shows "fl (of_int i) = Fin (of_int i)"
  by (rule fl_exact [of _ "\<bar>i\<bar>" 0]) (use assms in \<open>auto simp: pow2_def\<close>)

lemma fl_numeral: "(numeral k :: int) < 2 ^ 53 \<Longrightarrow> fl (numeral k) = Fin (numeral k)" "fl 1 = Fin 1"
  using fl_int [of "numeral k"] fl_int [of 1] by simp_all

lemma fl_zero [simp]: "fl 0 = Zero False"
  by (simp add: fl_def)

text \<open>Rounding never gives a NaN, so neither does reading a number.\<close>

lemma fl_not_NaN [simp]: "fl x \<noteq> NaN"
  by (auto simp: fl_def Let_def)

end
