(* ===== verification/Resample.thy ===== *)
theory Resample
  imports IEEE_Double
begin

text \<open>
  The four resampling templates of utils/utility.hpp, at the types the
  devices use them: \<open>double\<close> for the analog converters and \<open>uint16_t\<close> for
  the logic analyser.  All four append to \<open>dest\<close>; with a ratio below 2 they
  assign the source to it.  The vector indices of the digital decimation are
  checked by the code (\<open>at\<close>), the iterators of the analog one are not.
\<close>

section \<open>Container limits\<close>

text \<open>\<open>std::vector::reserve\<close> throws above the number of elements that fit in
  \<open>PTRDIFF_MAX\<close> bytes; sizes are computed in \<open>size_t\<close>, which wraps.\<close>

type_synonym size_t = "64 word"

definition max_elems :: "nat \<Rightarrow> nat" where
  "max_elems elem_size = (2 ^ 63 - 1) div elem_size"

definition reserve_check :: "nat \<Rightarrow> size_t \<Rightarrow> unit result" where
  "reserve_check elem_size n = (if max_elems elem_size < unat n then Inl LengthError else Inr ())"

lemma unat64: "n < 2 ^ 64 \<Longrightarrow> unat (of_nat n :: size_t) = n"
  by (simp add: unat_of_nat take_bit_nat_eq_self)

section \<open>Analog samples\<close>

definition window_mean :: "nat \<Rightarrow> double list \<Rightarrow> double" where
  "window_mean ratio xs = div_d (foldl add_d (Zero False) xs) (of_int_d (int ratio))"

function decimate_windows :: "nat \<Rightarrow> double list \<Rightarrow> double list result" where
  "decimate_windows ratio src =
     (if src = [] then Inr []
      else if length src < ratio \<or> ratio = 0 then Inl OutOfBounds
      else bindr (decimate_windows ratio (drop ratio src))
             (\<lambda>ys. Inr (window_mean ratio (take ratio src) # ys)))"
  by pat_completeness auto
termination
  by (relation "measure (\<lambda>(r, xs). length xs)") auto

declare decimate_windows.simps [simp del]

definition analogical_decimation :: "double list \<Rightarrow> double list \<Rightarrow> nat \<Rightarrow> double list result" where
  "analogical_decimation src dest ratio =
     (if ratio < 2 then Inr src
      else bindr (decimate_windows ratio src) (\<lambda>ys. Inr (dest @ ys)))"

text \<open>The values pushed after a source sample: each is the last one plus the step.\<close>

fun ramp :: "nat \<Rightarrow> double \<Rightarrow> double \<Rightarrow> double list" where
  "ramp 0 x step = []"
| "ramp (Suc j) x step = add_d x step # ramp j (add_d x step) step"

fun interpolate_from :: "nat \<Rightarrow> double list \<Rightarrow> double list" where
  "interpolate_from ratio [] = []"
| "interpolate_from ratio [x] = [x]"
| "interpolate_from ratio (x # y # zs) =
     x # ramp ratio x (div_d (sub_d y x) (of_int_d (int ratio))) @ interpolate_from ratio (y # zs)"

definition analogical_interpolation :: "double list \<Rightarrow> double list \<Rightarrow> nat \<Rightarrow> double list result" where
  "analogical_interpolation src dest ratio =
     (if ratio < 2 then Inr src
      else
        let n = (of_nat (length src) :: size_t);
            destSize = (n - 1) * of_nat ratio + n
        in bindr (reserve_check 8 destSize)
             (\<lambda>_. if 2 ^ 32 \<le> length src then Inl TooLarge
                  else Inr (dest @ interpolate_from ratio src)))"

section \<open>Digital samples\<close>

definition getBit :: "u16 \<Rightarrow> nat \<Rightarrow> bool" where
  "getBit number index = (and (drop_bit index number) 1 \<noteq> 0)"

definition setBit :: "u16 \<Rightarrow> nat \<Rightarrow> u16" where
  "setBit number index = or number (push_bit index 1)"

definition bits_sum :: "u16 list \<Rightarrow> nat \<Rightarrow> nat" where
  "bits_sum xs k = sum_list (map (\<lambda>x. if getBit x k then 1 else 0) xs)"

definition vote :: "nat \<Rightarrow> u16 list \<Rightarrow> u16" where
  "vote ratio xs =
     foldl (\<lambda>sample k. if drop_bit 1 ratio \<le> bits_sum xs k then setBit sample k else sample) 0 [0..<16]"

function vote_windows :: "nat \<Rightarrow> u16 list \<Rightarrow> u16 list result" where
  "vote_windows ratio src =
     (if src = [] then Inr []
      else if length src < ratio \<or> ratio = 0 then Inl OutOfRange
      else bindr (vote_windows ratio (drop ratio src))
             (\<lambda>ys. Inr (vote ratio (take ratio src) # ys)))"
  by pat_completeness auto
termination
  by (relation "measure (\<lambda>(r, xs). length xs)") auto

declare vote_windows.simps [simp del]

definition digital_decimation :: "u16 list \<Rightarrow> u16 list \<Rightarrow> nat \<Rightarrow> u16 list result" where
  "digital_decimation src dest ratio =
     (if ratio < 2 then Inr src
      else if 2 ^ 32 \<le> length src + ratio then Inl TooLarge
      else bindr (vote_windows ratio src) (\<lambda>ys. Inr (dest @ ys)))"

definition digital_interpolation :: "u16 list \<Rightarrow> u16 list \<Rightarrow> nat \<Rightarrow> u16 list result" where
  "digital_interpolation src dest ratio =
     (if ratio < 2 then Inr src
      else bindr (reserve_check 2 (of_nat (length src) * of_nat ratio))
             (\<lambda>_. Inr (dest @ concat (map (replicate ratio) src))))"

section \<open>Windows\<close>

text \<open>
  Both decimations walk the source in windows of \<open>ratio\<close> samples and reduce
  each to one.  The interface is the loop's equation; what a walk returns,
  and when it runs off the source, is proved once for it.
\<close>

locale window_walk =
  fixes walk :: "nat \<Rightarrow> 'a list \<Rightarrow> 'b list result"
    and reduce :: "nat \<Rightarrow> 'a list \<Rightarrow> 'b"
    and overrun :: cpp_error
  assumes walk_eq: "walk r src =
     (if src = [] then Inr []
      else if length src < r \<or> r = 0 then Inl overrun
      else bindr (walk r (drop r src)) (\<lambda>ys. Inr (reduce r (take r src) # ys)))"
begin

lemma walk_append:
  "length w = r \<Longrightarrow> r \<noteq> 0 \<Longrightarrow> walk r (w @ xs) = bindr (walk r xs) (\<lambda>ys. Inr (reduce r w # ys))"
  by (subst walk_eq) auto

lemma walk_tiles:
  "r \<noteq> 0 \<Longrightarrow> \<forall>w \<in> set ws. length w = r \<Longrightarrow> walk r (concat ws) = Inr (map (reduce r) ws)"
proof (induction ws)
  case Nil
  then show ?case by (simp add: walk_eq)
next
  case (Cons w ws)
  then show ?case by (simp add: walk_append)
qed

lemma walk_replicate: "0 < r \<Longrightarrow> walk r (replicate (r * n) x) = Inr (replicate n (reduce r (replicate r x)))"
proof (induction n)
  case 0
  then show ?case by (simp add: walk_eq)
next
  case (Suc n)
  then show ?case by (simp add: replicate_add walk_append)
qed

text \<open>The walk returns exactly when the windows tile the source, with one value each.\<close>

lemma walk_length:
  "0 < r \<Longrightarrow> (if r dvd length xs then \<exists>ys. walk r xs = Inr ys \<and> length ys = length xs div r
     else walk r xs = Inl overrun)"
proof (induction xs rule: length_induct)
  case (1 xs)
  show ?case
  proof (cases "xs = [] \<or> length xs < r")
    case True
    then show ?thesis using 1(2) by (auto simp: walk_eq [of r xs] dest: dvd_imp_le)
  next
    case False
    then have "r dvd length xs \<longleftrightarrow> r dvd (length xs - r)" and "length xs div r = Suc ((length xs - r) div r)"
      using 1(2) by (simp_all add: dvd_minus_self le_div_geq)
    moreover have "length (drop r xs) < length xs" using False 1(2) by simp
    note 1(1) [rule_format, OF this 1(2)]
    ultimately show ?thesis using False 1(2)
      by (cases "r dvd length xs") (auto simp: walk_eq [of r xs])
  qed
qed

text \<open>Value \<open>i\<close> of the result is the reduction of window \<open>i\<close>.\<close>

lemma walk_nth:
  "0 < r \<Longrightarrow> walk r xs = Inr ys \<Longrightarrow> i < length ys \<Longrightarrow> ys ! i = reduce r (take r (drop (i * r) xs))"
proof (induction xs arbitrary: ys i rule: length_induct)
  case (1 xs)
  have "xs \<noteq> []" "\<not> length xs < r" using 1(2-4) by (auto simp: walk_eq [of r xs] split: if_splits)
  then obtain zs where zs: "walk r (drop r xs) = Inr zs" "ys = reduce r (take r xs) # zs"
    using 1(2,3) by (auto simp: walk_eq [of r xs] bindr_eq_Inr_iff)
  show ?case
  proof (cases i)
    case 0
    then show ?thesis by (simp add: zs(2))
  next
    case (Suc j)
    have "length (drop r xs) < length xs" using \<open>xs \<noteq> []\<close> 1(2) by simp
    moreover have "j < length zs" using 1(4) zs(2) Suc by simp
    ultimately have "zs ! j = reduce r (take r (drop (j * r) (drop r xs)))"
      using 1(1) [rule_format, OF _ 1(2) zs(1)] by simp
    then show ?thesis by (simp add: zs(2) Suc add.commute)
  qed
qed

end

interpretation analog: window_walk decimate_windows window_mean OutOfBounds
  by unfold_locales (rule decimate_windows.simps)

interpretation digital: window_walk vote_windows vote OutOfRange
  by unfold_locales (rule vote_windows.simps)

section \<open>Analog facts\<close>

lemma foldl_add_const:
  assumes "c \<noteq> 0" "\<bar>c\<bar> * int (Suc k) < 2 ^ 53"
  shows "foldl add_d (Zero False) (replicate (Suc k) (Fin (of_int c))) = Fin (of_int (c * int (Suc k)))"
  using assms(2)
proof (induction k)
  case 0
  then show ?case by simp
next
  case (Suc k)
  have le: "\<bar>c\<bar> * int (Suc k) \<le> \<bar>c\<bar> * int (Suc (Suc k))" by (intro mult_left_mono) auto
  have "foldl add_d (Zero False) (replicate (Suc (Suc k)) (Fin (of_int c)))
      = add_d (foldl add_d (Zero False) (replicate (Suc k) (Fin (of_int c)))) (Fin (of_int c))"
    by (simp only: replicate_Suc [of "Suc k"] replicate_append_same [symmetric] foldl_append) simp
  also have "\<dots> = fl (of_int (c * int (Suc (Suc k))))"
    using Suc le by (simp add: algebra_simps)
  also have "\<dots> = Fin (of_int (c * int (Suc (Suc k))))"
    using assms(1) Suc.prems by (intro fl_int) (auto simp: abs_mult)
  finally show ?case .
qed

lemma window_mean_const:
  assumes "c \<noteq> 0" "\<bar>c\<bar> * int r < 2 ^ 53" "0 < r"
  shows "window_mean r (replicate r (Fin (of_int c))) = Fin (of_int c)"
proof -
  have b: "int r < 2 ^ 53" "\<bar>c\<bar> < 2 ^ 53"
  proof -
    have "1 * int r \<le> \<bar>c\<bar> * int r" using assms(1) by (intro mult_right_mono) auto
    then show "int r < 2 ^ 53" using assms(2) by simp
    have "\<bar>c\<bar> * 1 \<le> \<bar>c\<bar> * int r" using assms(3) by (intro mult_left_mono) auto
    then show "\<bar>c\<bar> < 2 ^ 53" using assms(2) by simp
  qed
  obtain k where r: "r = Suc k" using assms(3) by (cases r) auto
  have "window_mean r (replicate r (Fin (of_int c))) = div_d (Fin (of_int (c * int r))) (Fin (of_int (int r)))"
    using assms b(1) foldl_add_const [of c k] fl_int [of "int r"]
    by (simp add: window_mean_def of_int_d_def r del: replicate.simps)
  also have "\<dots> = fl (of_int c)" using assms(3) by simp
  also have "\<dots> = Fin (of_int c)" using assms(1) b(2) by (rule fl_int)
  finally show ?thesis .
qed

lemma length_ramp [simp]: "length (ramp r x v) = r"
  by (induction r arbitrary: x) auto

lemma length_interpolate_from:
  "src \<noteq> [] \<Longrightarrow> length (interpolate_from r src) = (length src - 1) * (r + 1) + 1"
  by (induction r src rule: interpolate_from.induct) (auto simp: algebra_simps)

lemma interpolate_from_nth:
  "i < length src \<Longrightarrow> interpolate_from r src ! (i * (r + 1)) = src ! i"
proof (induction r src arbitrary: i rule: interpolate_from.induct)
  case (3 r x y zs)
  show ?case
  proof (cases i)
    case (Suc j)
    then have "i * (r + 1) = Suc (r + j * (r + 1))" by simp
    then show ?thesis using 3 Suc by (simp add: nth_append del: mult_Suc)
  qed simp
qed auto

section \<open>Digital facts\<close>

lemma getBit_bit: "getBit w k = bit w k"
  by (simp add: getBit_def and_one_eq bit_iff_odd_drop_bit odd_iff_mod_2_eq_one)

lemma bit_setBit: "k < 16 \<Longrightarrow> bit (setBit w k) j \<longleftrightarrow> bit w j \<or> j = k"
  by (auto simp: setBit_def bit_simps)

lemma bit_vote_loop:
  "\<forall>k \<in> set ks. k < 16 \<Longrightarrow>
     bit (foldl (\<lambda>s k. if P k then setBit s k else s) s ks) j \<longleftrightarrow> bit s j \<or> (j \<in> set ks \<and> P j)"
  by (induction ks arbitrary: s) (auto simp: bit_setBit)

lemma bit_vote: "bit (vote r xs) k \<longleftrightarrow> k < 16 \<and> r div 2 \<le> bits_sum xs k"
  by (auto simp: vote_def bit_vote_loop drop_bit_eq_div)

lemma bits_sum_replicate: "bits_sum (replicate n x) k = (if bit x k then n else 0)"
  by (induction n) (auto simp: bits_sum_def getBit_bit)

lemma vote_replicate: "2 \<le> r \<Longrightarrow> vote r (replicate r x) = x"
  by (rule bit_word_eqI) (auto simp: bit_vote bits_sum_replicate)

lemma vote_walk_interpolated:
  "2 \<le> r \<Longrightarrow> vote_windows r (concat (map (replicate r) xs)) = Inr xs"
  using digital.walk_tiles [of r "map (replicate r) xs"] by (simp add: vote_replicate o_def)

text \<open>Within a segment each value is the one before it plus the segment's step.\<close>

lemma ramp_nth:
  "j < r \<Longrightarrow> (x # ramp r x v) ! Suc j = add_d ((x # ramp r x v) ! j) v"
proof (induction r arbitrary: x j)
  case (Suc r)
  then show ?case by (cases j) auto
qed simp

lemma interpolate_from_step:
  "Suc i < length src \<Longrightarrow> j < r \<Longrightarrow>
     interpolate_from r src ! (i * (r + 1) + Suc j) =
       add_d (interpolate_from r src ! (i * (r + 1) + j))
         (div_d (sub_d (src ! Suc i) (src ! i)) (of_int_d (int r)))"
proof (induction r src arbitrary: i rule: interpolate_from.induct)
  case (3 r x y zs)
  let ?v = "div_d (sub_d y x) (of_int_d (int r))"
  show ?case
  proof (cases i)
    case 0
    have nth: "interpolate_from r (x # y # zs) ! k = (x # ramp r x ?v) ! k" if "k < Suc r" for k
      using that nth_append [of "x # ramp r x ?v" "interpolate_from r (y # zs)" k] by simp
    have "Suc j < Suc r" "j < Suc r" using 3 by auto
    then show ?thesis using ramp_nth [of j r x ?v] 3 0 nth by (simp del: ramp.simps interpolate_from.simps nth_Cons_Suc)
  next
    case (Suc m)
    have shift: "interpolate_from r (x # y # zs) ! (i * (r + 1) + k) = interpolate_from r (y # zs) ! (m * (r + 1) + k)" for k
      using Suc nth_append_length_plus [of "x # ramp r x ?v" "interpolate_from r (y # zs)" "m * (r + 1) + k"]
      by (simp add: algebra_simps)
    show ?thesis using 3 Suc unfolding shift by simp
  qed
qed auto

section \<open>Properties of the four templates\<close>

text \<open>
  C30: Analog decimation by a ratio of at least 2 delivers a value exactly when
  the ratio divides the number of samples: then one value per window, the
  mean of that window as the code accumulates it.  In every other case the
  accumulation reads past the end of the source vector.
\<close>

theorem analogical_decimation_windows:
  assumes "2 \<le> ratio"
  shows "if ratio dvd length src
    then \<exists>ys. analogical_decimation src dest ratio = Inr (dest @ ys) \<and> length ys = length src div ratio \<and>
      (\<forall>i < length src div ratio. ys ! i = window_mean ratio (take ratio (drop (i * ratio) src)))
    else analogical_decimation src dest ratio = Inl OutOfBounds"
proof (cases "ratio dvd length src")
  case True
  then obtain ys where ys: "decimate_windows ratio src = Inr ys" "length ys = length src div ratio"
    using assms analog.walk_length [of ratio src] by auto
  then have "\<forall>i < length src div ratio. ys ! i = window_mean ratio (take ratio (drop (i * ratio) src))"
    using assms analog.walk_nth [OF _ ys(1)] by simp
  then show ?thesis using True assms ys by (auto simp: analogical_decimation_def)
next
  case False
  then show ?thesis using assms analog.walk_length [of ratio src] by (simp add: analogical_decimation_def)
qed

theorem analogical_decimation_windows_witness:
  "\<exists>ys. analogical_decimation (replicate 6 (Fin 2)) [] 3 = Inr ([] @ ys) \<and> length ys = 2 \<and>
     (\<forall>i < 2. ys ! i = window_mean 3 (take 3 (drop (i * 3) (replicate 6 (Fin 2)))))"
  using analogical_decimation_windows [of 3 "replicate 6 (Fin 2)" "[]"] by (simp del: replicate.simps)

text \<open>
  C31: Analog interpolation of a non-empty source by a ratio of at least 2 keeps
  every source sample, \<open>ratio + 1\<close> places apart, and between two of them each
  value is its predecessor plus one \<open>ratio\<close>-th of their difference; the
  result has the length the code reserves.
\<close>

theorem analogical_interpolation_positions:
  assumes "2 \<le> ratio" "src \<noteq> []" "length src < 2 ^ 32" "ratio < 2 ^ 27"
  shows "\<exists>ys. analogical_interpolation src dest ratio = Inr (dest @ ys) \<and>
    length ys = (length src - 1) * ratio + length src \<and>
    (\<forall>i < length src. ys ! (i * (ratio + 1)) = src ! i) \<and>
    (\<forall>i j. Suc i < length src \<and> j < ratio \<longrightarrow>
       ys ! (i * (ratio + 1) + Suc j) =
         add_d (ys ! (i * (ratio + 1) + j)) (div_d (sub_d (src ! Suc i) (src ! i)) (of_int_d (int ratio))))"
proof -
  let ?n = "length src"
  have n: "0 < ?n" using assms(2) by simp
  obtain m where m: "?n = Suc m" using n by (cases ?n) auto
  have "(of_nat ?n - 1 :: size_t) = of_nat (?n - 1)" unfolding m by simp
  then have sz: "(of_nat ?n - 1) * of_nat ratio + (of_nat ?n :: size_t) = of_nat ((?n - 1) * ratio + ?n)" by simp
  have "(?n - 1) * ratio \<le> 2 ^ 32 * 2 ^ 27" using assms(3,4) by (intro mult_mono) auto
  then have small: "(?n - 1) * ratio + ?n < max_elems 8" using assms(3) by (simp add: max_elems_def)
  have "unat (of_nat ((?n - 1) * ratio + ?n) :: size_t) = (?n - 1) * ratio + ?n"
    using small by (intro unat64) (simp add: max_elems_def)
  then have res: "reserve_check 8 (of_nat ((?n - 1) * ratio + ?n)) = Inr ()"
    using small unfolding reserve_check_def by simp
  have "analogical_interpolation src dest ratio = Inr (dest @ interpolate_from ratio src)"
    using assms(1,3) unfolding analogical_interpolation_def Let_def sz res by simp
  moreover have "length (interpolate_from ratio src) = (?n - 1) * ratio + ?n"
    using length_interpolate_from [OF assms(2)] n by (cases ?n) simp_all
  ultimately show ?thesis
    using interpolate_from_nth [of _ src ratio] interpolate_from_step [of _ src _ ratio] by blast
qed

theorem analogical_interpolation_positions_witness:
  "\<exists>ys. analogical_interpolation [Fin 1, Fin 3] [] 2 = Inr ([] @ ys) \<and> length ys = 4 \<and>
     (\<forall>i < 2. ys ! (i * 3) = [Fin 1, Fin 3] ! i)"
proof -
  have "2 \<le> (2 :: nat) \<and> [Fin 1, Fin 3] \<noteq> [] \<and> length [Fin 1, Fin 3] < 2 ^ 32 \<and> (2 :: nat) < 2 ^ 27" by simp
  then show ?thesis
    using analogical_interpolation_positions [of 2 "[Fin 1, Fin 3]" "[]"]
    by (auto simp: numeral_2_eq_2 numeral_3_eq_3)
qed

text \<open>
  An empty source cannot be interpolated: the destination size is computed
  as \<open>(0 - 1) * ratio\<close> in \<open>size_t\<close>, which wraps, and \<open>reserve\<close> throws.
\<close>

theorem analogical_interpolation_empty:
  assumes "2 \<le> ratio" "ratio < 2 ^ 32"
  shows "analogical_interpolation [] dest ratio = Inl LengthError"
proof -
  have "unat (of_nat ratio :: size_t) = ratio" using assms(2) by (intro unat64) simp
  then have "unat (- of_nat ratio :: size_t) = 2 ^ 64 - ratio"
    using unat_sub_if' [of "0 :: size_t" "of_nat ratio"] assms(1) by simp
  then have "max_elems 8 < unat (- of_nat ratio :: size_t)" using assms(2) by (simp add: max_elems_def)
  then show ?thesis using assms(1) by (simp add: analogical_interpolation_def reserve_check_def)
qed

theorem analogical_interpolation_empty_witness:
  "analogical_interpolation [] [] 10 = Inl LengthError"
  by (rule analogical_interpolation_empty) simp_all

text \<open>
  C32: Digital decimation by a ratio of at least 2 delivers a value exactly when
  the ratio divides the number of samples; bit \<open>k\<close> of the result is set
  when at least half of the window (rounded down) has it set.  In every other
  case the checked access of the last window throws.
\<close>

theorem digital_decimation_vote:
  assumes "2 \<le> ratio" "length src + ratio < 2 ^ 32"
  shows "if ratio dvd length src
    then \<exists>ys. digital_decimation src dest ratio = Inr (dest @ ys) \<and> length ys = length src div ratio \<and>
      (\<forall>i < length src div ratio. \<forall>k. bit (ys ! i) k \<longleftrightarrow>
         k < 16 \<and> ratio div 2 \<le> bits_sum (take ratio (drop (i * ratio) src)) k)
    else digital_decimation src dest ratio = Inl OutOfRange"
proof (cases "ratio dvd length src")
  case True
  then obtain ys where ys: "vote_windows ratio src = Inr ys" "length ys = length src div ratio"
    using assms digital.walk_length [of ratio src] by auto
  then have "\<forall>i < length src div ratio. ys ! i = vote ratio (take ratio (drop (i * ratio) src))"
    using assms digital.walk_nth [OF _ ys(1)] by simp
  then show ?thesis using True assms ys by (auto simp: digital_decimation_def bit_vote)
next
  case False
  then show ?thesis using assms digital.walk_length [of ratio src] by (simp add: digital_decimation_def)
qed

theorem digital_decimation_vote_witness:
  "digital_decimation [1, 2, 3] [] 2 = Inl OutOfRange"
  using digital_decimation_vote [of 2 "[1, 2, 3]" "[]"] by simp

text \<open>
  C9: What the pattern generator interpolates the logic analyser decimates back:
  with the same ratio the two digital templates are inverse to each other.
\<close>

theorem digital_round_trip:
  assumes "length src * ratio + ratio < 2 ^ 32"
  shows "bindr (digital_interpolation src [] ratio) (\<lambda>ys. digital_decimation ys [] ratio) = Inr src"
proof (cases "ratio < 2")
  case False
  have "unat (of_nat (length src) * of_nat ratio :: size_t) = length src * ratio"
  proof -
    have "unat (of_nat (length src * ratio) :: size_t) = length src * ratio"
      using assms by (intro unat64) simp
    then show ?thesis by simp
  qed
  then have "reserve_check 2 (of_nat (length src) * of_nat ratio) = Inr ()"
    using assms by (simp add: reserve_check_def max_elems_def)
  moreover have "length (concat (map (replicate ratio) src)) = length src * ratio"
    by (induction src) auto
  ultimately show ?thesis using False assms vote_walk_interpolated [of ratio src]
    by (simp add: digital_interpolation_def digital_decimation_def del: length_concat)
qed (simp add: digital_interpolation_def digital_decimation_def)

theorem digital_round_trip_witness:
  "bindr (digital_interpolation [5, 65535] [] 10) (\<lambda>ys. digital_decimation ys [] 10) = Inr [5, 65535]"
  by (rule digital_round_trip) simp

text \<open>
  A constant signal of whole volts survives analog decimation exactly, as
  long as the sum of a window fits into the 53-bit mantissa.
\<close>

theorem analogical_decimation_constant:
  assumes "2 \<le> ratio" "c \<noteq> 0" "\<bar>c\<bar> * int ratio < 2 ^ 53"
  shows "analogical_decimation (replicate (ratio * n) (Fin (of_int c))) dest ratio =
    Inr (dest @ replicate n (Fin (of_int c)))"
  using assms window_mean_const [of c ratio] analog.walk_replicate [of ratio n "Fin (of_int c)"]
  by (simp add: analogical_decimation_def)

theorem analogical_decimation_constant_witness:
  "analogical_decimation (replicate (100 * 3) (Fin (of_int (- 5)))) [] 100 = Inr ([] @ replicate 3 (Fin (of_int (- 5))))"
  by (rule analogical_decimation_constant) simp_all

end
