(* ===== verification/Xml_Utils.thy ===== *)
theory Xml_Utils
  imports Prelude
begin

text \<open>
  utils/xml_utils.cpp: searching the context description and producing the
  text sent to clients.  The tree is the part of libxml2's node structure
  the code reads directly: the name, the property list and the children of a
  node (a text or comment node has no properties), and the content of a
  property's first child, which is absent when the property has none.  A
  node pointer is the path of child indices from the root element.  The
  libxml2 functions the code calls are the fields of a \<open>libxml\<close> record, a
  parameter of the operations that call them.
\<close>

section \<open>The document\<close>

datatype xattr = XAttr (aname: string) (acontent: "string option")

datatype xnode = XNode (nname: string) (nattrs: "xattr list") (nchildren: "xnode list")

text \<open>The root element and the nodes that follow it at top level.\<close>

record xdoc =
  doc_root :: "xnode option"
  doc_next :: "xnode list"

datatype iio_attr_type = IIO_ATTR_TYPE_DEVICE | IIO_ATTR_TYPE_DEBUG | IIO_ATTR_TYPE_BUFFER

record libxml =
  xmlGetProp :: "xnode \<Rightarrow> string \<Rightarrow> string option"
  xmlSetProp :: "xnode \<Rightarrow> string \<Rightarrow> string \<Rightarrow> xnode"
  xmlRemoveProp :: "xnode \<Rightarrow> nat \<Rightarrow> xnode"
  xmlDocDumpMemory :: "xdoc option \<Rightarrow> string option"
  xmlReadMemory :: "string option \<Rightarrow> xdoc option"
  xmlReadFile :: "string option \<Rightarrow> xdoc option"

section \<open>Searching\<close>

text \<open>Does a property called \<open>attr_name\<close> have the content \<open>attr_value\<close>?\<close>

fun attr_matches :: "xattr list \<Rightarrow> string \<Rightarrow> string \<Rightarrow> bool result" where
  "attr_matches [] attr_name attr_value = Inr False"
| "attr_matches (a # as) attr_name attr_value =
     (if aname a = attr_name then
        (case acontent a of
           None \<Rightarrow> Inl NullDeref
         | Some v \<Rightarrow> if v = attr_value then Inr True else attr_matches as attr_name attr_value)
      else attr_matches as attr_name attr_value)"

fun getNode_in :: "xnode list \<Rightarrow> string \<Rightarrow> string \<Rightarrow> string \<Rightarrow> nat option result" where
  "getNode_in [] node_name attr_name attr_value = Inr None"
| "getNode_in (n # ns) node_name attr_name attr_value =
     (let rest = bindr (getNode_in ns node_name attr_name attr_value) (\<lambda>r. Inr (map_option Suc r)) in
      if nname n = node_name then
        bindr (attr_matches (nattrs n) attr_name attr_value) (\<lambda>m. if m then Inr (Some 0) else rest)
      else rest)"

definition getNode :: "xnode \<Rightarrow> string \<Rightarrow> string \<Rightarrow> string \<Rightarrow> nat option result" where
  "getNode root node_name attr_name attr_value = getNode_in (nchildren root) node_name attr_name attr_value"

fun getNode_named_in :: "xnode list \<Rightarrow> string \<Rightarrow> nat option" where
  "getNode_named_in [] node_name = None"
| "getNode_named_in (n # ns) node_name =
     (if nname n = node_name then Some 0 else map_option Suc (getNode_named_in ns node_name))"

definition getNode_named :: "xnode \<Rightarrow> string \<Rightarrow> nat option" where
  "getNode_named root node_name = getNode_named_in (nchildren root) node_name"

text \<open>Is there a property called \<open>attr_name\<close> with another content?\<close>

fun attr_differs :: "xattr list \<Rightarrow> string \<Rightarrow> string \<Rightarrow> bool result" where
  "attr_differs [] attr_name attr_value = Inr False"
| "attr_differs (a # as) attr_name attr_value =
     (if aname a = attr_name then
        (case acontent a of
           None \<Rightarrow> Inl NullDeref
         | Some v \<Rightarrow> if v \<noteq> attr_value then Inr True else attr_differs as attr_name attr_value)
      else attr_differs as attr_name attr_value)"

fun attrs_differ :: "xattr list \<Rightarrow> (string \<times> string) list \<Rightarrow> bool result" where
  "attrs_differ as [] = Inr False"
| "attrs_differ as (nv # nvs) =
     bindr (attr_differs as (fst nv) (snd nv)) (\<lambda>d. if d then Inr True else attrs_differ as nvs)"

text \<open>
  On a mismatch the code moves to the next sibling and jumps back past the
  loop's test, so the last child is followed by a null node.
\<close>

fun getNodeNAttrs_in :: "xnode list \<Rightarrow> string \<Rightarrow> (string \<times> string) list \<Rightarrow> nat option result" where
  "getNodeNAttrs_in [] node_name attrs = Inr None"
| "getNodeNAttrs_in (n # ns) node_name attrs =
     (let rest = bindr (getNodeNAttrs_in ns node_name attrs) (\<lambda>r. Inr (map_option Suc r)) in
      if nname n = node_name then
        bindr (attrs_differ (nattrs n) attrs)
          (\<lambda>d. if \<not> d then Inr (Some 0) else if ns = [] then Inl NullDeref else rest)
      else rest)"

definition getNodeNAttrs :: "xnode \<Rightarrow> string \<Rightarrow> (string \<times> string) list \<Rightarrow> nat option result" where
  "getNodeNAttrs root node_name attrs = getNodeNAttrs_in (nchildren root) node_name attrs"

definition xmlDocGetRootElement :: "xdoc option \<Rightarrow> xnode option" where
  "xmlDocGetRootElement doc = (case doc of None \<Rightarrow> None | Some d \<Rightarrow> doc_root d)"

fun attr_element :: "iio_attr_type \<Rightarrow> string" where
  "attr_element IIO_ATTR_TYPE_DEVICE = ''attribute''"
| "attr_element IIO_ATTR_TYPE_DEBUG = ''debug-attribute''"
| "attr_element IIO_ATTR_TYPE_BUFFER = ''buffer-attribute''"

type_synonym node_ptr = "nat list"

definition getDeviceAttr ::
  "xdoc option \<Rightarrow> string \<Rightarrow> iio_attr_type \<Rightarrow> string \<Rightarrow> node_ptr option result" where
  "getDeviceAttr doc dev type attr =
     (case xmlDocGetRootElement doc of
        None \<Rightarrow> Inr None
      | Some root \<Rightarrow>
          bindr (getNode root ''device'' ''id'' dev) (\<lambda>d.
            case d of
              None \<Rightarrow> Inr None
            | Some i \<Rightarrow>
                bindr (getNode (nchildren root ! i) (attr_element type) ''name'' attr)
                  (\<lambda>a. Inr (map_option (\<lambda>j. [i, j]) a))))"

definition getChannelAttr ::
  "xdoc option \<Rightarrow> string \<Rightarrow> string \<Rightarrow> string \<Rightarrow> bool \<Rightarrow> node_ptr option result" where
  "getChannelAttr doc chn dev attr ch_out =
     (case xmlDocGetRootElement doc of
        None \<Rightarrow> Inr None
      | Some root \<Rightarrow>
          bindr (getNode root ''device'' ''id'' dev) (\<lambda>d.
            case d of
              None \<Rightarrow> Inr None
            | Some i \<Rightarrow>
                bindr (getNodeNAttrs (nchildren root ! i) ''channel''
                         [(''id'', chn), (''type'', if ch_out then ''output'' else ''input'')]) (\<lambda>c.
                  case c of
                    None \<Rightarrow> Inr None
                  | Some k \<Rightarrow>
                      bindr (getNode (nchildren (nchildren root ! i) ! k) ''attribute'' ''name'' attr)
                        (\<lambda>a. Inr (map_option (\<lambda>j. [i, k, j]) a)))))"

section \<open>Following and updating a node pointer\<close>

fun node_at :: "node_ptr \<Rightarrow> xnode \<Rightarrow> xnode" where
  "node_at [] n = n"
| "node_at (i # p) n = node_at p (nchildren n ! i)"

fun update_at :: "node_ptr \<Rightarrow> (xnode \<Rightarrow> xnode) \<Rightarrow> xnode \<Rightarrow> xnode" where
  "update_at [] f n = f n"
| "update_at (i # p) f (XNode nm as cs) = XNode nm as (cs[i := update_at p f (cs ! i)])"

fun valid_ptr :: "node_ptr \<Rightarrow> xnode \<Rightarrow> bool" where
  "valid_ptr [] n = True"
| "valid_ptr (i # p) n = (i < length (nchildren n) \<and> valid_ptr p (nchildren n ! i))"

definition doc_node :: "xdoc option \<Rightarrow> node_ptr \<Rightarrow> xnode" where
  "doc_node doc p = node_at p (the (xmlDocGetRootElement doc))"

definition doc_update :: "xdoc option \<Rightarrow> node_ptr \<Rightarrow> (xnode \<Rightarrow> xnode) \<Rightarrow> xdoc option" where
  "doc_update doc p f = map_option (\<lambda>d. d\<lparr>doc_root := map_option (update_at p f) (doc_root d)\<rparr>) doc"

section \<open>The text for clients\<close>

definition value_index :: "xattr list \<Rightarrow> nat option" where
  "value_index as =
     (let i = length (takeWhile (\<lambda>a. aname a \<noteq> ''value'') as) in if i < length as then Some i else None)"

text \<open>A node with the siblings after it: children first, then the siblings, then the node.\<close>

fun removeValueAttribute :: "libxml \<Rightarrow> xnode list \<Rightarrow> xnode list" where
  "removeValueAttribute L [] = []"
| "removeValueAttribute L (XNode nm as cs # ns) =
     (let n = XNode nm as (removeValueAttribute L cs); ns' = removeValueAttribute L ns in
      if nm \<noteq> ''context-attribute'' then
        (case value_index as of None \<Rightarrow> n | Some i \<Rightarrow> xmlRemoveProp L n i) # ns'
      else n # ns')"

text \<open>\<open>std::unique\<close> with the predicate "both are spaces".\<close>

fun squeeze :: "string \<Rightarrow> string" where
  "squeeze [] = []"
| "squeeze [c] = [c]"
| "squeeze (c # d # s) =
     (if c = d \<and> c = CHR '' '' then squeeze (c # s) else c # squeeze (d # s))"

definition compress_xml :: "string \<Rightarrow> string" where
  "compress_xml s = squeeze (filter (\<lambda>c. c \<noteq> CHR 0x0A) s)"

definition strip_values :: "libxml \<Rightarrow> xdoc option \<Rightarrow> xdoc option" where
  "strip_values L doc =
     map_option (\<lambda>d. case doc_root d of
         None \<Rightarrow> d
       | Some r \<Rightarrow>
           (case removeValueAttribute L (r # doc_next d) of
              [] \<Rightarrow> d
            | r' # ns' \<Rightarrow> d\<lparr>doc_root := Some r', doc_next := ns'\<rparr>)) doc"

text \<open>The result and the buffer it points \<open>*buf\<close> to, when it does.\<close>

definition getXml :: "libxml \<Rightarrow> xdoc option \<Rightarrow> int \<times> char list option" where
  "getXml L doc =
     (if doc = None then (- ENOENT, None)
      else
        let xml = xmlDocDumpMemory L doc;
            tmpDoc = strip_values L (xmlReadMemory L xml)
        in case xmlDocDumpMemory L tmpDoc of
             None \<Rightarrow> (- ENOENT, None)
           | Some x \<Rightarrow>
               let str = compress_xml x in (int (length str), Some (str @ [NUL])))"

section \<open>Facts about the search\<close>

lemma attr_matches_other:
  "filter (\<lambda>a. aname a = k) as = filter (\<lambda>a. aname a = k) bs \<Longrightarrow> attr_matches as k v = attr_matches bs k v"
proof -
  have "attr_matches as k v = attr_matches (filter (\<lambda>a. aname a = k) as) k v" for as
    by (induction as) (auto split: option.splits)
  then show "filter (\<lambda>a. aname a = k) as = filter (\<lambda>a. aname a = k) bs \<Longrightarrow> ?thesis"
    by metis
qed

lemma attr_differs_other:
  "filter (\<lambda>a. aname a = k) as = filter (\<lambda>a. aname a = k) bs \<Longrightarrow> attr_differs as k v = attr_differs bs k v"
proof -
  have "attr_differs as k v = attr_differs (filter (\<lambda>a. aname a = k) as) k v" for as
    by (induction as) (auto split: option.splits)
  then show "filter (\<lambda>a. aname a = k) as = filter (\<lambda>a. aname a = k) bs \<Longrightarrow> ?thesis"
    by metis
qed

lemma getNode_in_Some:
  "getNode_in ns nm k v = Inr (Some i) \<Longrightarrow>
     i < length ns \<and> nname (ns ! i) = nm \<and> attr_matches (nattrs (ns ! i)) k v = Inr True"
  by (induction ns arbitrary: i) (auto simp: Let_def bindr_eq_Inr_iff split: if_splits)

lemma getNode_Some:
  "getNode r nm k v = Inr (Some i) \<Longrightarrow>
     i < length (nchildren r) \<and> nname (nchildren r ! i) = nm \<and> attr_matches (nattrs (nchildren r ! i)) k v = Inr True"
  by (auto simp: getNode_def dest: getNode_in_Some)

lemma getNodeNAttrs_in_Some:
  "getNodeNAttrs_in ns nm kvs = Inr (Some i) \<Longrightarrow>
     i < length ns \<and> nname (ns ! i) = nm \<and> attrs_differ (nattrs (ns ! i)) kvs = Inr False"
  by (induction ns arbitrary: i) (auto simp: Let_def bindr_eq_Inr_iff split: if_splits)

text \<open>Replacing a child by one that looks the same does not change a search.\<close>

definition same_search :: "string list \<Rightarrow> xnode \<Rightarrow> xnode \<Rightarrow> bool" where
  "same_search ks n m \<longleftrightarrow> nname n = nname m \<and>
     (\<forall>k \<in> set ks. filter (\<lambda>a. aname a = k) (nattrs n) = filter (\<lambda>a. aname a = k) (nattrs m))"

lemma getNode_in_update:
  "same_search [k] (ns ! i) m \<Longrightarrow> getNode_in (ns[i := m]) nm k v = getNode_in ns nm k v"
proof (induction ns arbitrary: i)
  case (Cons n ns)
  show ?case
  proof (cases i)
    case 0
    then show ?thesis using Cons.prems attr_matches_other [of k "nattrs m" "nattrs n" v]
      by (simp add: same_search_def Let_def)
  next
    case (Suc j)
    then show ?thesis using Cons by simp
  qed
qed simp

lemma attrs_differ_cong:
  "\<forall>k \<in> fst ` set kvs. filter (\<lambda>a. aname a = k) as = filter (\<lambda>a. aname a = k) bs \<Longrightarrow>
     attrs_differ as kvs = attrs_differ bs kvs"
  by (induction kvs) (simp_all add: attr_differs_other [of _ as bs] cong: if_cong)

lemma getNodeNAttrs_in_update:
  "same_search (map fst kvs) (ns ! i) m \<Longrightarrow>
     getNodeNAttrs_in (ns[i := m]) nm kvs = getNodeNAttrs_in ns nm kvs"
proof (induction ns arbitrary: i)
  case (Cons n ns)
  show ?case
  proof (cases i)
    case 0
    then show ?thesis using Cons.prems attrs_differ_cong [of kvs "nattrs m" "nattrs n"]
      by (simp add: same_search_def Let_def)
  next
    case (Suc j)
    then show ?thesis using Cons by (simp add: Let_def)
  qed
qed simp

section \<open>Facts about the text\<close>

lemma squeeze_Cons: "squeeze (c # s) \<noteq> [] \<and> hd (squeeze (c # s)) = c"
  by (induction "c # s" arbitrary: c s rule: squeeze.induct) auto

lemma set_squeeze: "set (squeeze s) = set s"
  by (induction s rule: squeeze.induct) auto

text \<open>No two spaces stand next to each other.\<close>

definition no_double_space :: "string \<Rightarrow> bool" where
  "no_double_space s \<longleftrightarrow> (\<forall>i. Suc i < length s \<longrightarrow> \<not> (s ! i = CHR '' '' \<and> s ! Suc i = CHR '' ''))"

lemma no_double_space_Cons:
  "s \<noteq> [] \<Longrightarrow> no_double_space (c # s) \<longleftrightarrow> \<not> (c = CHR '' '' \<and> hd s = CHR '' '') \<and> no_double_space s"
  by (auto simp: no_double_space_def nth_Cons hd_conv_nth split: nat.splits)

lemma no_double_space_squeeze: "no_double_space (squeeze s)"
proof (induction s rule: squeeze.induct)
  case (3 c d s)
  then show ?case using squeeze_Cons [of d s] by (auto simp: no_double_space_Cons)
qed (auto simp: no_double_space_def)

lemma squeeze_id: "no_double_space s \<Longrightarrow> squeeze s = s"
  by (induction s rule: squeeze.induct) (auto simp: no_double_space_Cons)

lemma value_index_Some:
  "value_index as = Some i \<Longrightarrow> i < length as \<and> aname (as ! i) = ''value'' \<and> (\<forall>j < i. aname (as ! j) \<noteq> ''value'')"
proof -
  let ?P = "\<lambda>a. aname a \<noteq> ''value''"
  assume "value_index as = Some i"
  then have i: "i = length (takeWhile ?P as)" "i < length as"
    by (auto simp: value_index_def Let_def split: if_splits)
  have "?P (as ! j)" if "j < i" for j
    using that i(1) nth_mem [of j "takeWhile ?P as"] takeWhile_nth [of j ?P as]
      set_takeWhileD [of "as ! j" ?P as] by simp
  then show ?thesis using i nth_length_takeWhile [of ?P as] by simp
qed

lemma value_index_None: "value_index as = None \<longleftrightarrow> ''value'' \<notin> aname ` set as"
proof -
  have "length (takeWhile (\<lambda>a. aname a \<noteq> ''value'') as) < length as \<longleftrightarrow> (\<exists>a \<in> set as. aname a = ''value'')"
    by (induction as) auto
  then show ?thesis by (force simp: value_index_def Let_def)
qed

section \<open>Properties of the search\<close>

text \<open>Every property of the children searched has a content.\<close>

definition has_contents :: "xnode list \<Rightarrow> bool" where
  "has_contents ns \<longleftrightarrow> (\<forall>n \<in> set ns. \<forall>a \<in> set (nattrs n). acontent a \<noteq> None)"

definition node_matches :: "string \<Rightarrow> string \<Rightarrow> string \<Rightarrow> xnode \<Rightarrow> bool" where
  "node_matches nm k v n \<longleftrightarrow> nname n = nm \<and> XAttr k (Some v) \<in> set (nattrs n)"

definition channel_matches :: "string \<Rightarrow> (string \<times> string) list \<Rightarrow> xnode \<Rightarrow> bool" where
  "channel_matches nm kvs n \<longleftrightarrow> nname n = nm \<and>
     (\<forall>(k, v) \<in> set kvs. \<forall>a \<in> set (nattrs n). aname a = k \<longrightarrow> acontent a = Some v)"

definition first_index :: "('a \<Rightarrow> bool) \<Rightarrow> 'a list \<Rightarrow> nat option" where
  "first_index P xs = (let i = length (takeWhile (\<lambda>x. \<not> P x) xs) in if i < length xs then Some i else None)"

lemma first_index_simps [simp]:
  "first_index P [] = None"
  "first_index P (x # xs) = (if P x then Some 0 else map_option Suc (first_index P xs))"
  by (auto simp: first_index_def Let_def)

lemma attr_matches_contents:
  "\<forall>a \<in> set as. acontent a \<noteq> None \<Longrightarrow> attr_matches as k v = Inr (XAttr k (Some v) \<in> set as)"
proof (induction as)
  case (Cons a as)
  then show ?case by (cases a) (auto split: option.splits)
qed simp

lemma attr_differs_contents:
  "\<forall>a \<in> set as. acontent a \<noteq> None \<Longrightarrow>
     attr_differs as k v = Inr (\<exists>a \<in> set as. aname a = k \<and> acontent a \<noteq> Some v)"
  by (induction as) (auto split: option.splits)

lemma attrs_differ_contents:
  "\<forall>a \<in> set as. acontent a \<noteq> None \<Longrightarrow>
     attrs_differ as kvs = Inr (\<exists>kv \<in> set kvs. \<exists>a \<in> set as. aname a = fst kv \<and> acontent a \<noteq> Some (snd kv))"
  by (induction kvs) (auto simp add: attr_differs_contents simp del: not_None_eq)

lemma getNode_in_first:
  "has_contents ns \<Longrightarrow> getNode_in ns nm k v = Inr (first_index (node_matches nm k v) ns)"
  by (induction ns) (auto simp: has_contents_def node_matches_def attr_matches_contents Let_def)

lemma attrs_differ_channel:
  assumes "\<forall>a \<in> set (nattrs n). acontent a \<noteq> None" "nname n = nm"
  shows "attrs_differ (nattrs n) kvs = Inr (\<not> channel_matches nm kvs n)"
  using assms by (simp add: attrs_differ_contents channel_matches_def split_beta)

lemma getNodeNAttrs_in_first:
  "has_contents ns \<Longrightarrow> getNodeNAttrs_in ns nm kvs =
     (case first_index (channel_matches nm kvs) ns of
        Some i \<Rightarrow> Inr (Some i)
      | None \<Rightarrow> if ns \<noteq> [] \<and> nname (last ns) = nm then Inl NullDeref else Inr None)"
proof (induction ns)
  case (Cons n ns)
  show ?case
  proof (cases "nname n = nm")
    case True
    have "attrs_differ (nattrs n) kvs = Inr (\<not> channel_matches nm kvs n)"
      using Cons.prems True by (intro attrs_differ_channel) (auto simp: has_contents_def)
    then show ?thesis using Cons True
      by (cases "ns = []") (auto simp: has_contents_def Let_def split: option.splits)
  next
    case False
    then have "\<not> channel_matches nm kvs n" by (simp add: channel_matches_def)
    then show ?thesis using Cons False
      by (cases "ns = []") (auto simp: has_contents_def Let_def split: option.splits)
  qed
qed simp

text \<open>
  The search for a device or an attribute returns the first child of that
  name that carries the wanted property value, and null when there is none.
\<close>

theorem getNode_first:
  assumes "has_contents (nchildren root)"
  shows "getNode root nm k v = Inr (first_index (node_matches nm k v) (nchildren root))"
  using assms by (simp add: getNode_def getNode_in_first)

theorem getNode_first_witness:
  "getNode (XNode ''context'' [] [XNode ''text'' [] [], XNode ''device'' [XAttr ''id'' (Some ''a'')] [],
     XNode ''device'' [XAttr ''id'' (Some ''b'')] []]) ''device'' ''id'' ''b'' = Inr (Some 2)"
  using getNode_first [of "XNode ''context'' [] [XNode ''text'' [] [],
      XNode ''device'' [XAttr ''id'' (Some ''a'')] [], XNode ''device'' [XAttr ''id'' (Some ''b'')] []]"
    "''device''" "''id''" "''b''"]
  by (simp add: has_contents_def node_matches_def)

text \<open>
  The search for a channel returns the first child of that name none of
  whose properties contradicts the wanted ones.  When no child fits, the
  outcome depends on the last child: if it has the searched name the jump on
  its mismatch goes past the end-of-list test and a null node is
  dereferenced, otherwise the search ends with null.
\<close>

theorem getNodeNAttrs_first:
  assumes "has_contents (nchildren root)"
  shows "getNodeNAttrs root nm kvs =
    (case first_index (channel_matches nm kvs) (nchildren root) of
       Some i \<Rightarrow> Inr (Some i)
     | None \<Rightarrow> if nchildren root \<noteq> [] \<and> nname (last (nchildren root)) = nm then Inl NullDeref else Inr None)"
  using assms by (simp add: getNodeNAttrs_def getNodeNAttrs_in_first)

theorem getNodeNAttrs_first_witness:
  "getNodeNAttrs (XNode ''device'' [] [XNode ''channel'' [XAttr ''id'' (Some ''voltage0'')] []])
     ''channel'' [(''id'', ''voltage1'')] = Inl NullDeref"
  using getNodeNAttrs_first [of "XNode ''device'' [] [XNode ''channel'' [XAttr ''id'' (Some ''voltage0'')] []]"
    "''channel''" "[(''id'', ''voltage1'')]"]
  by (simp add: has_contents_def channel_matches_def)

section \<open>Properties of the text\<close>

text \<open>The reference for the removal of the values: node by node, the first property called \<open>value\<close>.\<close>

fun without_value :: "xattr list \<Rightarrow> xattr list" where
  "without_value [] = []"
| "without_value (a # as) = (if aname a = ''value'' then as else a # without_value as)"

fun stripped :: "xnode \<Rightarrow> xnode" where
  "stripped (XNode nm as cs) =
     XNode nm (if nm = ''context-attribute'' then as else without_value as) (map stripped cs)"

definition removeprop_ok :: "libxml \<Rightarrow> bool" where
  "removeprop_ok L \<longleftrightarrow>
     (\<forall>n i. i < length (nattrs n) \<longrightarrow>
        xmlRemoveProp L n i = XNode (nname n) (take i (nattrs n) @ drop (Suc i) (nattrs n)) (nchildren n))"

lemma without_value_index:
  "without_value as = (case value_index as of None \<Rightarrow> as | Some i \<Rightarrow> take i as @ drop (Suc i) as)"
  by (induction as) (auto simp: value_index_def Let_def)

lemma removeValueAttribute_stripped:
  assumes "removeprop_ok L"
  shows "removeValueAttribute L ns = map stripped ns"
  using assms
proof (induction L ns rule: removeValueAttribute.induct)
  case (2 L nm as cs ns)
  show ?case
  proof (cases "value_index as")
    case None
    then show ?thesis using 2 by (simp add: without_value_index Let_def)
  next
    case (Some i)
    then have "xmlRemoveProp L (XNode nm as (map stripped cs)) i
        = XNode nm (take i as @ drop (Suc i) as) (map stripped cs)"
      using 2(3) [unfolded removeprop_ok_def, rule_format, of i "XNode nm as (map stripped cs)"]
        value_index_Some [OF Some] by simp
    then show ?thesis using 2 Some by (simp add: without_value_index Let_def)
  qed
qed simp

text \<open>A node and everything below it.\<close>

fun subnodes :: "xnode \<Rightarrow> xnode list" where
  "subnodes (XNode nm as cs) = XNode nm as cs # concat (map subnodes cs)"

text \<open>As XML demands, no node has two properties of the same name.\<close>

definition distinct_attrs :: "xnode \<Rightarrow> bool" where
  "distinct_attrs n \<longleftrightarrow> (\<forall>m \<in> set (subnodes n). distinct (map aname (nattrs m)))"

lemma without_value_distinct:
  "distinct (map aname as) \<Longrightarrow> ''value'' \<notin> aname ` set (without_value as)"
proof (induction as)
  case (Cons a as)
  then show ?case by (cases "aname a = ''value''") auto
qed simp

lemma stripped_subnodes:
  "distinct_attrs n \<Longrightarrow> \<forall>m \<in> set (subnodes (stripped n)).
     nname m = ''context-attribute'' \<or> ''value'' \<notin> aname ` set (nattrs m)"
proof (induction n)
  case (XNode nm as cs)
  have "distinct_attrs c" if "c \<in> set cs" for c
    using XNode.prems that by (auto simp: distinct_attrs_def)
  moreover have "distinct (map aname as)" using XNode.prems by (simp add: distinct_attrs_def)
  then have "''value'' \<notin> aname ` set (without_value as)" by (rule without_value_distinct)
  ultimately show ?case using XNode.IH by auto
qed

lemma compress_xml_no_newline: "CHR 0x0A \<notin> set (compress_xml s)"
  by (simp add: compress_xml_def set_squeeze)

lemma no_double_space_compress: "no_double_space (compress_xml s)"
  by (simp add: compress_xml_def no_double_space_squeeze)

lemma filter_squeeze: "\<not> P CHR '' '' \<Longrightarrow> filter P (squeeze s) = filter P s"
  by (induction s rule: squeeze.induct) auto

text \<open>
  C33: The recursive removal, which walks children and siblings, treats every
  node alone: all of them except context attributes lose their first
  \<open>value\<close> property.  In a document without duplicate property names no
  other value is left anywhere below the nodes.
\<close>

theorem removeValueAttribute_everywhere:
  assumes "removeprop_ok L" "\<forall>n \<in> set ns. distinct_attrs n"
  shows "removeValueAttribute L ns = map stripped ns \<and>
    (\<forall>n \<in> set (removeValueAttribute L ns). \<forall>m \<in> set (subnodes n).
      nname m = ''context-attribute'' \<or> ''value'' \<notin> aname ` set (nattrs m))"
  using assms stripped_subnodes by (auto simp: removeValueAttribute_stripped)

text \<open>
  The text for clients has no line break and no two adjacent spaces; what
  else was in it is kept in order, and compressing it again changes nothing.
\<close>

theorem compress_xml_text:
  "CHR 0x0A \<notin> set (compress_xml s) \<and> no_double_space (compress_xml s) \<and>
   filter (\<lambda>c. c \<noteq> CHR '' '' \<and> c \<noteq> CHR 0x0A) (compress_xml s) =
     filter (\<lambda>c. c \<noteq> CHR '' '' \<and> c \<noteq> CHR 0x0A) s \<and>
   compress_xml (compress_xml s) = compress_xml s"
proof -
  have "filter (\<lambda>c. c \<noteq> CHR 0x0A) (compress_xml s) = compress_xml s"
    using compress_xml_no_newline [of s] by (auto simp: filter_id_conv)
  then have "compress_xml (compress_xml s) = squeeze (compress_xml s)"
    by (simp add: compress_xml_def)
  then have "compress_xml (compress_xml s) = compress_xml s"
    using squeeze_id [OF no_double_space_compress] by simp
  moreover have "filter (\<lambda>c. c \<noteq> CHR '' '' \<and> c \<noteq> CHR 0x0A) (compress_xml s) =
     filter (\<lambda>c. c \<noteq> CHR '' '' \<and> c \<noteq> CHR 0x0A) s"
    by (simp add: compress_xml_def filter_squeeze)
      (rule filter_cong; auto)
  ultimately show ?thesis using compress_xml_no_newline no_double_space_compress by simp
qed

text \<open>
  The description handed to clients is the parsed copy of the document
  with its values stripped, printed and compressed; the reported size is the
  length of that text, which the buffer holds with a terminating NUL.
\<close>

theorem getXml_stripped:
  assumes "removeprop_ok L" "xmlReadMemory L (xmlDocDumpMemory L (Some d)) = Some t" "doc_root t = Some r"
    and "xmlDocDumpMemory L (Some \<lparr>doc_root = Some (stripped r), doc_next = map stripped (doc_next t)\<rparr>) = Some x"
  shows "getXml L (Some d) = (int (length (compress_xml x)), Some (compress_xml x @ [NUL]))"
proof -
  have "strip_values L (Some t) = Some \<lparr>doc_root = Some (stripped r), doc_next = map stripped (doc_next t)\<rparr>"
    using assms(1,3) by (simp add: strip_values_def removeValueAttribute_stripped)
  then show ?thesis using assms(2,4) by (simp add: getXml_def Let_def)
qed

text \<open>A printer of element names and properties, to instantiate the library with.\<close>

fun print_node :: "xnode \<Rightarrow> string" where
  "print_node (XNode nm as cs) =
     ''<'' @ nm @ concat (map (\<lambda>a. '' '' @ aname a @ ''='' @ (case acontent a of None \<Rightarrow> [] | Some v \<Rightarrow> v)) as) @
     ''  >'' @ concat (map print_node cs) @ ''</>'' @ [CHR 0x0A]"

definition libxml_printing :: "xdoc \<Rightarrow> libxml" where
  "libxml_printing d =
     \<lparr>xmlGetProp = (\<lambda>n k. Option.bind (find (\<lambda>x. aname x = k) (nattrs n)) acontent),
      xmlSetProp = (\<lambda>n k v. n),
      xmlRemoveProp = (\<lambda>n i. XNode (nname n) (take i (nattrs n) @ drop (Suc i) (nattrs n)) (nchildren n)),
      xmlDocDumpMemory = (\<lambda>doc. Option.bind doc (\<lambda>x. map_option print_node (doc_root x))),
      xmlReadMemory = (\<lambda>s. Some d), xmlReadFile = (\<lambda>s. Some d)\<rparr>"

definition sample_doc :: xdoc where
  "sample_doc = \<lparr>doc_root = Some (XNode ''context'' []
       [XNode ''context-attribute'' [XAttr ''value'' (Some ''7'')] [],
        XNode ''attribute'' [XAttr ''name'' (Some ''raw''), XAttr ''value'' (Some ''1'')] []]), doc_next = []\<rparr>"

lemma libxml_printing_ok: "removeprop_ok (libxml_printing d)"
  by (simp add: removeprop_ok_def libxml_printing_def)

theorem removeValueAttribute_everywhere_witness:
  "removeValueAttribute (libxml_printing sample_doc) [XNode ''attribute'' [XAttr ''value'' (Some ''1'')] []]
     = [XNode ''attribute'' [] []]"
  using removeValueAttribute_everywhere [OF libxml_printing_ok,
    of "[XNode ''attribute'' [XAttr ''value'' (Some ''1'')] []]" sample_doc]
  by (simp add: distinct_attrs_def)

theorem getXml_stripped_witness:
  "getXml (libxml_printing sample_doc) (Some sample_doc) =
    (int (length ''<context ><context-attribute value=7 ></><attribute name=raw ></></>''),
     Some (''<context ><context-attribute value=7 ></><attribute name=raw ></></>'' @ [NUL]))"
proof -
  define x where "x = print_node (stripped (the (doc_root sample_doc)))"
  have "compress_xml x = ''<context ><context-attribute value=7 ></><attribute name=raw ></></>''"
    unfolding x_def by code_simp
  then show ?thesis
    using getXml_stripped [OF libxml_printing_ok, of sample_doc sample_doc sample_doc "the (doc_root sample_doc)" x]
    by (simp add: libxml_printing_def sample_doc_def x_def)
qed

end
