(* ===== verification/Attr_Ops.thy ===== *)
theory Attr_Ops
  imports Xml_Utils
begin

text \<open>
  utils/attr_ops_xml.cpp: reading and writing the \<open>value\<close> property of an
  attribute node.  A read copies the value into the caller's buffer; a write
  stores the C string found in the caller's buffer.  The results follow the
  code's \<open>ssize_t\<close> returns; the buffer or the document is returned updated.
\<close>

section \<open>Operations\<close>

text \<open>The copy at the end of the three read functions.\<close>

definition copy_value :: "string option \<Rightarrow> char list \<Rightarrow> nat \<Rightarrow> (char list \<times> int) result" where
  "copy_value value buf len =
     (case value of
        None \<Rightarrow> Inl NullDeref
      | Some v \<Rightarrow>
          bindr (strnlen (v @ [NUL]) len) (\<lambda>k.
          bindr (read_mem (v @ [NUL]) (k + 1)) (\<lambda>src.
          bindr (memcpy buf src) (\<lambda>buf'.
          bindr (strnlen buf' len) (\<lambda>m. Inr (buf', int m + 1))))))"

definition read_device_attr ::
  "libxml \<Rightarrow> xdoc option \<Rightarrow> string \<Rightarrow> string \<Rightarrow> char list \<Rightarrow> nat \<Rightarrow> iio_attr_type \<Rightarrow>
     (char list \<times> int) result" where
  "read_device_attr L doc device_id attr buf len type =
     (if doc = None then Inr (buf, - ENOENT)
      else bindr (getDeviceAttr doc device_id type attr) (\<lambda>node_attr.
        case node_attr of
          None \<Rightarrow> Inr (buf, - ENOENT)
        | Some p \<Rightarrow> copy_value (xmlGetProp L (doc_node doc p) ''value'') buf len))"

definition write_dev_attr ::
  "libxml \<Rightarrow> xdoc option \<Rightarrow> string \<Rightarrow> string \<Rightarrow> char list \<Rightarrow> nat \<Rightarrow> iio_attr_type \<Rightarrow>
     (xdoc option \<times> int) result" where
  "write_dev_attr L doc device_id attr buf len type =
     (if doc = None then Inr (doc, - ENOENT)
      else bindr (getDeviceAttr doc device_id type attr) (\<lambda>node_attr.
        case node_attr of
          None \<Rightarrow> Inr (doc, - ENOENT)
        | Some p \<Rightarrow>
            bindr (cstr buf) (\<lambda>v.
            bindr (strnlen buf len) (\<lambda>m.
              Inr (doc_update doc p (\<lambda>n. xmlSetProp L n ''value'' v), int m + 1)))))"

definition read_channel_attr ::
  "libxml \<Rightarrow> xdoc option \<Rightarrow> string \<Rightarrow> string \<Rightarrow> bool \<Rightarrow> string \<Rightarrow> char list \<Rightarrow> nat \<Rightarrow>
     (char list \<times> int) result" where
  "read_channel_attr L doc device_id channel ch_out attr buf len =
     (if doc = None then Inr (buf, - ENOENT)
      else bindr (getChannelAttr doc channel device_id attr ch_out) (\<lambda>node_attr.
        case node_attr of
          None \<Rightarrow> Inr (buf, - ENOENT)
        | Some p \<Rightarrow> copy_value (xmlGetProp L (doc_node doc p) ''value'') buf len))"

definition write_channel_attr ::
  "libxml \<Rightarrow> xdoc option \<Rightarrow> string \<Rightarrow> string \<Rightarrow> bool \<Rightarrow> string \<Rightarrow> char list \<Rightarrow> nat \<Rightarrow>
     (xdoc option \<times> int) result" where
  "write_channel_attr L doc device_id channel ch_out attr buf len =
     (if doc = None then Inr (doc, - ENOENT)
      else bindr (getChannelAttr doc channel device_id attr ch_out) (\<lambda>node_attr.
        case node_attr of
          None \<Rightarrow> Inr (doc, - ENOENT)
        | Some p \<Rightarrow>
            bindr (cstr buf) (\<lambda>v.
            bindr (strnlen buf len) (\<lambda>m.
              Inr (doc_update doc p (\<lambda>n. xmlSetProp L n ''value'' v), int m + 1)))))"

text \<open>
  Without a test of the node found: a null root is dereferenced by the
  search, and for a missing attribute \<open>xmlGetProp\<close> returns null.
\<close>

definition read_context_attr ::
  "libxml \<Rightarrow> xdoc option \<Rightarrow> string \<Rightarrow> char list \<Rightarrow> nat \<Rightarrow> (char list \<times> int) result" where
  "read_context_attr L doc attr buf len =
     (if doc = None then Inr (buf, - ENOENT)
      else case xmlDocGetRootElement doc of
        None \<Rightarrow> Inl NullDeref
      | Some root \<Rightarrow>
          bindr (getNode root ''context-attribute'' ''name'' attr) (\<lambda>node_attr.
            copy_value
              (case node_attr of
                 None \<Rightarrow> None
               | Some i \<Rightarrow> xmlGetProp L (nchildren root ! i) ''value'') buf len))"

section \<open>The libxml2 functions used here\<close>

text \<open>
  Documented behaviour: a property with a plain text value is read as that
  text; setting a property makes it read as the new text and leaves the
  name, the children and the other properties of the node alone.  Removing a
  property deletes it from the list (\<open>removeprop_ok\<close>).
\<close>

definition getprop_ok :: "libxml \<Rightarrow> bool" where
  "getprop_ok L \<longleftrightarrow>
     (\<forall>n a v. find (\<lambda>x. aname x = a) (nattrs n) = Some (XAttr a (Some v)) \<longrightarrow> xmlGetProp L n a = Some v)"

definition setprop_ok :: "libxml \<Rightarrow> bool" where
  "setprop_ok L \<longleftrightarrow>
     (\<forall>n a v. xmlGetProp L (xmlSetProp L n a v) a = Some v \<and>
        nname (xmlSetProp L n a v) = nname n \<and> nchildren (xmlSetProp L n a v) = nchildren n \<and>
        filter (\<lambda>x. aname x \<noteq> a) (nattrs (xmlSetProp L n a v)) = filter (\<lambda>x. aname x \<noteq> a) (nattrs n))"

text \<open>An instance with these properties: association lists.\<close>

fun assoc_set :: "xattr list \<Rightarrow> string \<Rightarrow> string \<Rightarrow> xattr list" where
  "assoc_set [] k v = [XAttr k (Some v)]"
| "assoc_set (a # as) k v = (if aname a = k then XAttr k (Some v) # as else a # assoc_set as k v)"

definition libxml_lists :: "(xdoc option \<Rightarrow> string option) \<Rightarrow> (string option \<Rightarrow> xdoc option) \<Rightarrow> libxml" where
  "libxml_lists dump parse =
     \<lparr>xmlGetProp = (\<lambda>n k. Option.bind (find (\<lambda>x. aname x = k) (nattrs n)) acontent),
      xmlSetProp = (\<lambda>n k v. XNode (nname n) (assoc_set (nattrs n) k v) (nchildren n)),
      xmlRemoveProp = (\<lambda>n i. XNode (nname n) (take i (nattrs n) @ drop (Suc i) (nattrs n)) (nchildren n)),
      xmlDocDumpMemory = dump, xmlReadMemory = parse, xmlReadFile = parse\<rparr>"

lemma assoc_set_find: "find (\<lambda>x. aname x = k) (assoc_set as k v) = Some (XAttr k (Some v))"
  by (induction as) auto

lemma assoc_set_filter: "filter (\<lambda>x. aname x \<noteq> k) (assoc_set as k v) = filter (\<lambda>x. aname x \<noteq> k) as"
  by (induction as) auto

lemma libxml_lists_ok:
  "getprop_ok (libxml_lists d p)" "setprop_ok (libxml_lists d p)" "removeprop_ok (libxml_lists d p)"
  by (auto simp: getprop_ok_def setprop_ok_def removeprop_ok_def libxml_lists_def
      assoc_set_find assoc_set_filter)

definition lib_lists :: libxml where
  "lib_lists = libxml_lists (\<lambda>d. None) (\<lambda>s. None)"

lemma lib_lists_ok: "getprop_ok lib_lists" "setprop_ok lib_lists" "removeprop_ok lib_lists"
  by (simp_all add: lib_lists_def libxml_lists_ok)

section \<open>Copying values\<close>

lemma copy_value_fits:
  assumes "NUL \<notin> set v" "length v < len" "len \<le> length buf"
  shows "copy_value (Some v) buf len = Inr (v @ NUL # drop (Suc (length v)) buf, int (length v) + 1)"
  using assms by (simp add: copy_value_def strnlen_string read_mem_def memcpy_def)

lemma copy_value_overflow:
  assumes "NUL \<notin> set v" "len \<le> length v" "length buf \<le> len"
  shows "copy_value (Some v) buf len = Inl OutOfBounds"
  using assms by (auto simp: copy_value_def strnlen_prefix read_mem_def memcpy_def min_def)

text \<open>With room for one byte more, the copy is cut after \<open>len + 1\<close> characters and not terminated.\<close>

lemma copy_value_cut:
  assumes "NUL \<notin> set v" "len \<le> length v" "len < length buf"
  shows "copy_value (Some v) buf len = Inr (take (Suc len) (v @ [NUL]) @ drop (Suc len) buf, int len + 1)"
proof -
  define src where "src = take (Suc len) (v @ [NUL])"
  have len: "length src = Suc len" using assms(2) by (simp add: src_def del: take_append)
  have src: "src = take len v @ take 1 (drop len (v @ [NUL]))"
    using take_add [of len 1 "v @ [NUL]"] assms(2) by (simp add: src_def)
  have "NUL \<notin> set (take len v)" using assms(1) in_set_takeD by metis
  then have "strnlen (src @ drop (Suc len) buf) len = Inr len"
    using strnlen_prefix [of "take len v" len] assms(2) unfolding src by simp
  moreover have "strnlen (v @ [NUL]) len = Inr len" using assms by (simp add: strnlen_prefix)
  moreover have "read_mem (v @ [NUL]) (len + 1) = Inr src" using assms(2) by (simp add: read_mem_def src_def del: take_append)
  moreover have "memcpy buf src = Inr (src @ drop (Suc len) buf)" using len assms(3) by (simp add: memcpy_def)
  ultimately have "copy_value (Some v) buf len = Inr (src @ drop (Suc len) buf, int len + 1)"
    by (simp only: copy_value_def option.case bindr_Inr)
  then show ?thesis by (simp only: src_def)
qed

lemma copy_value_length: "copy_value v buf len = Inr (b, n) \<Longrightarrow> length b = length buf"
  by (auto simp: copy_value_def bindr_eq_Inr_iff dest: length_memcpy split: option.splits)

section \<open>Writes do not disturb the search\<close>

text \<open>\<open>m'\<close> is \<open>m\<close>, possibly with a value property below it (or its own) replaced.\<close>

definition touched :: "libxml \<Rightarrow> xnode \<Rightarrow> xnode \<Rightarrow> bool" where
  "touched L m m' \<longleftrightarrow> m' = m \<or> (\<exists>q v. m' = update_at q (\<lambda>n. xmlSetProp L n ''value'' v) m)"

lemma filter_single:
  assumes "filter (\<lambda>x. aname x \<noteq> a) as = filter (\<lambda>x. aname x \<noteq> a) bs" "k \<noteq> a"
  shows "filter (\<lambda>x. aname x = k) as = filter (\<lambda>x. aname x = k) bs"
proof -
  have "filter (\<lambda>x. aname x = k) as = filter (\<lambda>x. aname x = k) (filter (\<lambda>x. aname x \<noteq> a) as)" for as
    using assms(2) by (induction as) auto
  then show ?thesis using assms(1) by metis
qed

lemma touched_search:
  assumes "setprop_ok L" "touched L m m'" "''value'' \<notin> set ks"
  shows "same_search ks m m'"
proof -
  have "same_search ks m (update_at q (\<lambda>n. xmlSetProp L n ''value'' v) m)" for q v
  proof (cases q)
    case Nil
    then show ?thesis using assms(1,3)
      by (auto simp: same_search_def setprop_ok_def intro!: filter_single [of "''value''"])
  next
    case (Cons i p)
    then show ?thesis by (cases m) (simp add: same_search_def)
  qed
  then show ?thesis using assms(2) by (auto simp: touched_def same_search_def)
qed

lemma touched_children:
  assumes "setprop_ok L" "touched L m m'"
  shows "length (nchildren m') = length (nchildren m)"
    and "touched L (nchildren m ! i) (nchildren m' ! i)"
proof -
  have *: "length (nchildren (update_at q (\<lambda>n. xmlSetProp L n ''value'' v) m)) = length (nchildren m) \<and>
    touched L (nchildren m ! i) (nchildren (update_at q (\<lambda>n. xmlSetProp L n ''value'' v) m) ! i)" for q v
  proof (cases q)
    case Nil
    then show ?thesis using assms(1) by (auto simp: touched_def setprop_ok_def)
  next
    case (Cons j p)
    then show ?thesis
      by (cases m; cases "i = j"; cases "j < length (nchildren m)")
        (auto simp: touched_def list_update_beyond nth_list_update)
  qed
  then show "length (nchildren m') = length (nchildren m)"
    and "touched L (nchildren m ! i) (nchildren m' ! i)"
    using assms(2) by (auto simp: touched_def)
qed

text \<open>A list of nodes each touched is searched like the original list.\<close>

lemma touched_getNode_in:
  assumes "setprop_ok L" "k \<noteq> ''value''" "list_all2 (touched L) ns ns'"
  shows "getNode_in ns' nm k v = getNode_in ns nm k v"
  using assms(3)
proof (induction ns ns' rule: list_all2_induct)
  case (Cons n ns n' ns')
  have "same_search [k] n n'" using touched_search [OF assms(1) Cons(1)] assms(2) by simp
  then show ?case using Cons attr_matches_other [of k "nattrs n'" "nattrs n" v]
    by (simp add: same_search_def Let_def)
qed simp

lemma touched_getNodeNAttrs_in:
  assumes "setprop_ok L" "''value'' \<notin> set (map fst kvs)" "list_all2 (touched L) ns ns'"
  shows "getNodeNAttrs_in ns' nm kvs = getNodeNAttrs_in ns nm kvs"
  using assms(3)
proof (induction ns ns' rule: list_all2_induct)
  case (Cons n ns n' ns')
  have "same_search (map fst kvs) n n'" by (rule touched_search [OF assms(1) Cons(1) assms(2)])
  then show ?case using Cons attrs_differ_cong [of kvs "nattrs n'" "nattrs n"]
    by (auto simp: same_search_def Let_def)
qed simp

lemma touched_list:
  "setprop_ok L \<Longrightarrow> touched L m m' \<Longrightarrow> list_all2 (touched L) (nchildren m) (nchildren m')"
  by (simp add: list_all2_conv_all_nth touched_children)

lemma touched_getNode:
  "setprop_ok L \<Longrightarrow> touched L m m' \<Longrightarrow> k \<noteq> ''value'' \<Longrightarrow> getNode m' nm k v = getNode m nm k v"
  unfolding getNode_def by (intro touched_getNode_in touched_list)

lemma touched_getNodeNAttrs:
  "setprop_ok L \<Longrightarrow> touched L m m' \<Longrightarrow> ''value'' \<notin> set (map fst kvs) \<Longrightarrow>
     getNodeNAttrs m' nm kvs = getNodeNAttrs m nm kvs"
  unfolding getNodeNAttrs_def by (intro touched_getNodeNAttrs_in touched_list)

lemma touched_root:
  assumes "xmlDocGetRootElement doc = Some r"
  obtains r' where "xmlDocGetRootElement (doc_update doc p (\<lambda>n. xmlSetProp L n ''value'' v)) = Some r'"
    and "touched L r r'" and "r' = update_at p (\<lambda>n. xmlSetProp L n ''value'' v) r"
  using assms
  by (auto simp: xmlDocGetRootElement_def doc_update_def touched_def split: option.splits)

lemma doc_update_root_None:
  "xmlDocGetRootElement doc = None \<Longrightarrow> xmlDocGetRootElement (doc_update doc p f) = None"
  by (auto simp: xmlDocGetRootElement_def doc_update_def split: option.splits)

text \<open>A value written anywhere leaves every attribute where it was.\<close>

lemma getDeviceAttr_update:
  assumes "setprop_ok L"
  shows "getDeviceAttr (doc_update doc p (\<lambda>n. xmlSetProp L n ''value'' v)) dev type attr
    = getDeviceAttr doc dev type attr"
proof (cases "xmlDocGetRootElement doc")
  case None
  then show ?thesis by (simp add: getDeviceAttr_def doc_update_root_None)
next
  case (Some r)
  obtain r' where r': "xmlDocGetRootElement (doc_update doc p (\<lambda>n. xmlSetProp L n ''value'' v)) = Some r'"
    and t: "touched L r r'" using touched_root [OF Some] by metis
  show ?thesis unfolding getDeviceAttr_def r' Some
    by (simp add: touched_getNode [OF assms t] touched_getNode [OF assms touched_children(2) [OF assms t]])
qed

lemma getChannelAttr_update:
  assumes "setprop_ok L"
  shows "getChannelAttr (doc_update doc p (\<lambda>n. xmlSetProp L n ''value'' v)) chn dev attr ch_out
    = getChannelAttr doc chn dev attr ch_out"
proof (cases "xmlDocGetRootElement doc")
  case None
  then show ?thesis by (simp add: getChannelAttr_def doc_update_root_None)
next
  case (Some r)
  obtain r' where r': "xmlDocGetRootElement (doc_update doc p (\<lambda>n. xmlSetProp L n ''value'' v)) = Some r'"
    and t: "touched L r r'" using touched_root [OF Some] by metis
  note t2 = touched_children(2) [OF assms t]
  note t3 = touched_children(2) [OF assms t2]
  show ?thesis unfolding getChannelAttr_def r' Some
    by (simp add: touched_getNode [OF assms t] touched_getNodeNAttrs [OF assms t2] touched_getNode [OF assms t3])
qed

section \<open>Pointers\<close>

lemma getDeviceAttr_valid:
  assumes "getDeviceAttr doc dev type attr = Inr (Some p)"
  obtains r where "xmlDocGetRootElement doc = Some r" "valid_ptr p r" "length p = 2"
proof -
  obtain r i j where "xmlDocGetRootElement doc = Some r"
    and d: "getNode r ''device'' ''id'' dev = Inr (Some i)"
    and a: "getNode (nchildren r ! i) (attr_element type) ''name'' attr = Inr (Some j)"
    and "p = [i, j]"
    using assms unfolding getDeviceAttr_def by (force simp: bindr_eq_Inr_iff split: option.splits)
  then show ?thesis using that getNode_Some [OF d] getNode_Some [OF a] by simp
qed

lemma getChannelAttr_parts:
  assumes "getChannelAttr doc chn dev attr ch_out = Inr (Some p)"
  obtains r i k j where "xmlDocGetRootElement doc = Some r" "getNode r ''device'' ''id'' dev = Inr (Some i)"
    "getNodeNAttrs (nchildren r ! i) ''channel'' [(''id'', chn), (''type'', if ch_out then ''output'' else ''input'')] = Inr (Some k)"
    "getNode (nchildren (nchildren r ! i) ! k) ''attribute'' ''name'' attr = Inr (Some j)" "p = [i, k, j]"
proof -
  let ?kvs = "[(''id'', chn), (''type'', if ch_out then ''output'' else ''input'')]"
  obtain r where r: "xmlDocGetRootElement doc = Some r"
    using assms unfolding getChannelAttr_def by (cases "xmlDocGetRootElement doc") simp_all
  obtain d where d: "getNode r ''device'' ''id'' dev = Inr d"
    using assms unfolding getChannelAttr_def r by (cases "getNode r ''device'' ''id'' dev") simp_all
  obtain i where i: "d = Some i" using assms d unfolding getChannelAttr_def r by (cases d) simp_all
  obtain c where c: "getNodeNAttrs (nchildren r ! i) ''channel'' ?kvs = Inr c"
    using assms d unfolding getChannelAttr_def r i
    by (cases "getNodeNAttrs (nchildren r ! i) ''channel'' ?kvs") simp_all
  obtain k where k: "c = Some k"
    using assms c d unfolding getChannelAttr_def r i by (cases c) simp_all
  obtain j where "getNode (nchildren (nchildren r ! i) ! k) ''attribute'' ''name'' attr = Inr (Some j)" "p = [i, k, j]"
    using assms c d unfolding getChannelAttr_def r i k by (auto simp: bindr_eq_Inr_iff)
  then show ?thesis using that [OF r] d c i k by blast
qed

lemma getChannelAttr_valid:
  assumes "getChannelAttr doc chn dev attr ch_out = Inr (Some p)"
  obtains r where "xmlDocGetRootElement doc = Some r" "valid_ptr p r" "length p = 3"
  using assms
proof (rule getChannelAttr_parts)
  fix r i k j
  assume r: "xmlDocGetRootElement doc = Some r" and d: "getNode r ''device'' ''id'' dev = Inr (Some i)"
    and c: "getNodeNAttrs (nchildren r ! i) ''channel'' [(''id'', chn), (''type'', if ch_out then ''output'' else ''input'')] = Inr (Some k)"
    and j: "getNode (nchildren (nchildren r ! i) ! k) ''attribute'' ''name'' attr = Inr (Some j)" and p: "p = [i, k, j]"
  show thesis
    using that [OF r] getNode_Some [OF d] getNode_Some [OF j] getNodeNAttrs_in_Some [OF c [unfolded getNodeNAttrs_def]] p
    by simp
qed

lemma node_at_update: "valid_ptr p n \<Longrightarrow> node_at p (update_at p f n) = f (node_at p n)"
proof (induction p arbitrary: n)
  case (Cons i p)
  then show ?case by (cases n) auto
qed simp

text \<open>An update changes only the node addressed, those above and those below it.\<close>

lemma node_at_update_apart:
  "take (length q) p \<noteq> take (length p) q \<Longrightarrow> node_at q (update_at p f n) = node_at q n"
proof (induction p arbitrary: q n)
  case (Cons i p)
  then obtain j q' where q: "q = j # q'" by (cases q) auto
  show ?case
  proof (cases "i = j")
    case True
    then show ?thesis using Cons q by (cases n; cases "j < length (nchildren n)") (auto simp: list_update_beyond)
  next
    case False
    then show ?thesis using q by (cases n) simp
  qed
qed simp

lemma doc_update_root:
  "xmlDocGetRootElement doc = Some r \<Longrightarrow> xmlDocGetRootElement (doc_update doc p f) = Some (update_at p f r)"
  by (cases doc) (simp_all add: xmlDocGetRootElement_def doc_update_def)

lemma doc_node_update:
  "xmlDocGetRootElement doc = Some r \<Longrightarrow> valid_ptr p r \<Longrightarrow>
     doc_node (doc_update doc p f) p = f (doc_node doc p)"
  by (simp add: doc_node_def doc_update_root node_at_update)

lemma doc_node_update_apart:
  assumes "take (length q) p \<noteq> take (length p) q"
  shows "doc_node (doc_update doc p f) q = doc_node doc q"
proof (cases "xmlDocGetRootElement doc")
  case None
  then show ?thesis using doc_update_root_None [OF None, of p f] by (simp add: doc_node_def)
next
  case (Some r)
  then show ?thesis using assms by (simp add: doc_node_def doc_update_root node_at_update_apart)
qed

lemma doc_update_not_None: "doc \<noteq> None \<Longrightarrow> doc_update doc p f \<noteq> None"
  by (simp add: doc_update_def)

section \<open>Reading back what was written\<close>

lemma getDeviceAttr_doc: "getDeviceAttr doc dev type attr = Inr (Some p) \<Longrightarrow> doc \<noteq> None"
  by (cases doc) (simp_all add: getDeviceAttr_def xmlDocGetRootElement_def)

lemma getChannelAttr_doc: "getChannelAttr doc chn dev attr ch_out = Inr (Some p) \<Longrightarrow> doc \<noteq> None"
  by (cases doc) (simp_all add: getChannelAttr_def xmlDocGetRootElement_def)

lemma read_device_attr_found:
  assumes "getDeviceAttr doc dev type attr = Inr (Some p)"
  shows "read_device_attr L doc dev attr buf len type = copy_value (xmlGetProp L (doc_node doc p) ''value'') buf len"
proof -
  obtain d where "doc = Some d" using getDeviceAttr_doc [OF assms] by blast
  then show ?thesis using assms by (simp add: read_device_attr_def)
qed

lemma read_channel_attr_found:
  assumes "getChannelAttr doc chn dev attr ch_out = Inr (Some p)"
  shows "read_channel_attr L doc dev chn ch_out attr buf len = copy_value (xmlGetProp L (doc_node doc p) ''value'') buf len"
proof -
  obtain d where "doc = Some d" using getChannelAttr_doc [OF assms] by blast
  then show ?thesis using assms by (simp add: read_channel_attr_def)
qed

abbreviation set_value :: "libxml \<Rightarrow> xdoc option \<Rightarrow> node_ptr \<Rightarrow> string \<Rightarrow> xdoc option" where
  "set_value L doc p v \<equiv> doc_update doc p (\<lambda>n. xmlSetProp L n ''value'' v)"

lemma write_dev_attr_found:
  assumes "getDeviceAttr doc dev type attr = Inr (Some p)" "NUL \<notin> set v" "length v < len"
  shows "write_dev_attr L doc dev attr (v @ NUL # r) len type = Inr (set_value L doc p v, int (length v) + 1)"
proof -
  obtain d where "doc = Some d" using getDeviceAttr_doc [OF assms(1)] by blast
  then show ?thesis using assms by (simp add: write_dev_attr_def cstr_append strnlen_string)
qed

lemma write_channel_attr_found:
  assumes "getChannelAttr doc chn dev attr ch_out = Inr (Some p)" "NUL \<notin> set v" "length v < len"
  shows "write_channel_attr L doc dev chn ch_out attr (v @ NUL # r) len
    = Inr (set_value L doc p v, int (length v) + 1)"
proof -
  obtain d where "doc = Some d" using getChannelAttr_doc [OF assms(1)] by blast
  then show ?thesis using assms by (simp add: write_channel_attr_def cstr_append strnlen_string)
qed

lemma set_value_written:
  "setprop_ok L \<Longrightarrow> xmlDocGetRootElement doc = Some r \<Longrightarrow> valid_ptr p r \<Longrightarrow>
     xmlGetProp L (doc_node (set_value L doc p v) p) ''value'' = Some v"
  by (simp add: doc_node_update setprop_ok_def)

text \<open>Where the attributes are, by the names of the elements on the way.\<close>

lemma device_attr_place:
  assumes "getDeviceAttr doc dev type attr = Inr (Some p)"
  obtains r i j where "xmlDocGetRootElement doc = Some r" "p = [i, j]" "nname (nchildren r ! i) = ''device''"
    "nname (nchildren (nchildren r ! i) ! j) = attr_element type"
proof -
  obtain r i j where r: "xmlDocGetRootElement doc = Some r" "getNode r ''device'' ''id'' dev = Inr (Some i)"
    "getNode (nchildren r ! i) (attr_element type) ''name'' attr = Inr (Some j)" "p = [i, j]"
    using assms by (force simp: getDeviceAttr_def bindr_eq_Inr_iff split: option.splits)
  then show ?thesis using that getNode_Some [OF r(2)] getNode_Some [OF r(3)] by simp
qed

lemma channel_attr_place:
  assumes "getChannelAttr doc chn dev attr out = Inr (Some p)"
  obtains r i k j where "xmlDocGetRootElement doc = Some r" "p = [i, k, j]" "nname (nchildren r ! i) = ''device''"
    "nname (nchildren (nchildren r ! i) ! k) = ''channel''"
  using assms
proof (rule getChannelAttr_parts)
  fix r i k j
  assume r: "xmlDocGetRootElement doc = Some r" "getNode r ''device'' ''id'' dev = Inr (Some i)"
    and c: "getNodeNAttrs (nchildren r ! i) ''channel'' [(''id'', chn), (''type'', if out then ''output'' else ''input'')] = Inr (Some k)"
    and p: "p = [i, k, j]"
  show thesis using that r(1) p getNode_Some [OF r(2)] getNodeNAttrs_in_Some [OF c [unfolded getNodeNAttrs_def]] by simp
qed

lemma attr_element_no_channel: "attr_element t \<noteq> ''channel''"
  by (cases t) simp_all

lemma device_channel_apart:
  assumes "getDeviceAttr doc dev type attr = Inr (Some p)" "getChannelAttr doc chn dev' attr' out = Inr (Some q)"
  shows "take (length q) p \<noteq> take (length p) q"
proof -
  obtain r i j where p: "xmlDocGetRootElement doc = Some r" "p = [i, j]"
    "nname (nchildren (nchildren r ! i) ! j) = attr_element type"
    by (rule device_attr_place [OF assms(1)])
  obtain r' i' k' j' where q: "xmlDocGetRootElement doc = Some r'" "q = [i', k', j']"
    "nname (nchildren (nchildren r' ! i') ! k') = ''channel''"
    by (rule channel_attr_place [OF assms(2)])
  have "i = i' \<Longrightarrow> j \<noteq> k'" using p q attr_element_no_channel [of type] by auto
  then show ?thesis using p(2) q(2) by auto
qed

text \<open>A write leaves alone every attribute whose node is apart from the one written.\<close>

lemma read_device_frame:
  assumes "setprop_ok L" "doc \<noteq> None"
    and "\<And>q. getDeviceAttr doc dev type attr = Inr (Some q) \<Longrightarrow> take (length q) p \<noteq> take (length p) q"
  shows "read_device_attr L (set_value L doc p v) dev attr b n type = read_device_attr L doc dev attr b n type"
  using assms(2,3) getDeviceAttr_update [OF assms(1), of doc p v dev type attr]
  by (cases "getDeviceAttr doc dev type attr")
    (auto simp: read_device_attr_def doc_update_not_None doc_node_update_apart split: option.split)

lemma read_channel_frame:
  assumes "setprop_ok L" "doc \<noteq> None"
    and "\<And>q. getChannelAttr doc chn dev attr out = Inr (Some q) \<Longrightarrow> take (length q) p \<noteq> take (length p) q"
  shows "read_channel_attr L (set_value L doc p v) dev chn out attr b n = read_channel_attr L doc dev chn out attr b n"
  using assms(2,3) getChannelAttr_update [OF assms(1), of doc p v chn dev attr out]
  by (cases "getChannelAttr doc chn dev attr out")
    (auto simp: read_channel_attr_def doc_update_not_None doc_node_update_apart split: option.split)

lemma read_context_frame:
  assumes "setprop_ok L" "xmlDocGetRootElement doc = Some r" "nname (nchildren r ! hd p) \<noteq> ''context-attribute''" "p \<noteq> []"
  shows "read_context_attr L (set_value L doc p v) attr b n = read_context_attr L doc attr b n"
proof -
  have "doc \<noteq> None" using assms(2) by (cases doc) (simp_all add: xmlDocGetRootElement_def)
  obtain r' where r': "xmlDocGetRootElement (set_value L doc p v) = Some r'" "touched L r r'"
    "r' = update_at p (\<lambda>n. xmlSetProp L n ''value'' v) r"
    by (rule touched_root [OF assms(2)])
  have g: "getNode r' ''context-attribute'' ''name'' attr = getNode r ''context-attribute'' ''name'' attr"
    using touched_getNode [OF assms(1) r'(2)] by simp
  have "nchildren r' ! i = nchildren r ! i" if "getNode r ''context-attribute'' ''name'' attr = Inr (Some i)" for i
  proof -
    have "nname (nchildren r ! i) = ''context-attribute''" using getNode_Some [OF that] by simp
    then have "i \<noteq> hd p" using assms(3) by auto
    then show ?thesis using assms(4) r'(3) by (cases p; cases r) simp_all
  qed
  then show ?thesis using g r'(1) assms(2) \<open>doc \<noteq> None\<close>
    by (cases "getNode r ''context-attribute'' ''name'' attr")
      (auto simp: read_context_attr_def doc_update_not_None split: option.split)
qed

text \<open>
  What a value written at \<open>p\<close> leaves as it was: every node but that one and
  those above and below it, and what is read from the other attributes of
  devices, of channels and of the context.
\<close>

definition others_kept :: "libxml \<Rightarrow> node_ptr \<Rightarrow> xdoc option \<Rightarrow> xdoc option \<Rightarrow> bool" where
  "others_kept L p doc doc' \<longleftrightarrow>
     (\<forall>q. take (length q) p \<noteq> take (length p) q \<longrightarrow> doc_node doc' q = doc_node doc q) \<and>
     (\<forall>dev type attr b n. getDeviceAttr doc dev type attr \<noteq> Inr (Some p) \<longrightarrow>
        read_device_attr L doc' dev attr b n type = read_device_attr L doc dev attr b n type) \<and>
     (\<forall>dev chn out attr b n. getChannelAttr doc chn dev attr out \<noteq> Inr (Some p) \<longrightarrow>
        read_channel_attr L doc' dev chn out attr b n = read_channel_attr L doc dev chn out attr b n) \<and>
     (\<forall>attr b n. read_context_attr L doc' attr b n = read_context_attr L doc attr b n)"

lemma device_write_others:
  assumes "setprop_ok L" "getDeviceAttr doc dev type attr = Inr (Some p)"
  shows "others_kept L p doc (set_value L doc p v)"
  unfolding others_kept_def
proof (intro conjI allI impI)
  note d = getDeviceAttr_doc [OF assms(2)]
  obtain r i j where p: "xmlDocGetRootElement doc = Some r" "p = [i, j]" "nname (nchildren r ! i) = ''device''"
    by (rule device_attr_place [OF assms(2)])
  fix dev' type' attr' chn' out' b n
  show "read_context_attr L (set_value L doc p v) attr' b n = read_context_attr L doc attr' b n"
    by (rule read_context_frame [OF assms(1) p(1)]) (simp_all add: p(2,3))
  show "read_channel_attr L (set_value L doc p v) dev' chn' out' attr' b n = read_channel_attr L doc dev' chn' out' attr' b n"
    by (rule read_channel_frame [OF assms(1) d]) (rule device_channel_apart [OF assms(2)])
  assume o: "getDeviceAttr doc dev' type' attr' \<noteq> Inr (Some p)"
  show "read_device_attr L (set_value L doc p v) dev' attr' b n type' = read_device_attr L doc dev' attr' b n type'"
  proof (rule read_device_frame [OF assms(1) d])
    fix q assume q: "getDeviceAttr doc dev' type' attr' = Inr (Some q)"
    then obtain i' j' where "q = [i', j']" by (rule device_attr_place)
    then show "take (length q) p \<noteq> take (length p) q" using q o p(2) by auto
  qed
qed (rule doc_node_update_apart)

lemma channel_write_others:
  assumes "setprop_ok L" "getChannelAttr doc chn dev attr out = Inr (Some p)"
  shows "others_kept L p doc (set_value L doc p v)"
  unfolding others_kept_def
proof (intro conjI allI impI)
  note d = getChannelAttr_doc [OF assms(2)]
  obtain r i k j where p: "xmlDocGetRootElement doc = Some r" "p = [i, k, j]" "nname (nchildren r ! i) = ''device''"
    by (rule channel_attr_place [OF assms(2)])
  fix dev' type' attr' chn' out' b n
  show "read_context_attr L (set_value L doc p v) attr' b n = read_context_attr L doc attr' b n"
    by (rule read_context_frame [OF assms(1) p(1)]) (simp_all add: p(2,3))
  show "read_device_attr L (set_value L doc p v) dev' attr' b n type' = read_device_attr L doc dev' attr' b n type'"
    by (rule read_device_frame [OF assms(1) d]) (drule device_channel_apart [OF _ assms(2)], auto)
  assume o: "getChannelAttr doc chn' dev' attr' out' \<noteq> Inr (Some p)"
  show "read_channel_attr L (set_value L doc p v) dev' chn' out' attr' b n = read_channel_attr L doc dev' chn' out' attr' b n"
  proof (rule read_channel_frame [OF assms(1) d])
    fix q assume q: "getChannelAttr doc chn' dev' attr' out' = Inr (Some q)"
    then obtain i' k' j' where "q = [i', k', j']" by (rule channel_attr_place)
    then show "take (length q) p \<noteq> take (length p) q" using q o p(2) by auto
  qed
qed (rule doc_node_update_apart)

section \<open>Properties\<close>

text \<open>A context with one device that has two attributes and a channel with one.\<close>

definition small_doc :: "xdoc option" where
  "small_doc = Some \<lparr>doc_root = Some (XNode ''context'' []
     [XNode ''device'' [XAttr ''id'' (Some ''iio:device0'')]
       [XNode ''channel'' [XAttr ''id'' (Some ''voltage0''), XAttr ''type'' (Some ''output'')]
          [XNode ''attribute'' [XAttr ''name'' (Some ''raw''), XAttr ''value'' (Some ''12'')] []],
        XNode ''attribute'' [XAttr ''name'' (Some ''rate''), XAttr ''value'' (Some ''750000'')] [],
        XNode ''attribute'' [XAttr ''name'' (Some ''mode''), XAttr ''value'' (Some ''on'')] []]]), doc_next = []\<rparr>"

text \<open>
  C37: Reading an attribute of a device delivers the value, its terminator and
  the length with it when the value is shorter than \<open>len\<close>.  Of a longer value
  it copies \<open>len + 1\<close> characters, one more than the caller gave room for, and
  returns \<open>len + 1\<close>: into a buffer of exactly \<open>len\<close> bytes the copy is out of
  bounds, in a longer one it overwrites the byte behind.
\<close>

theorem read_device_attr_value:
  assumes "getDeviceAttr doc dev type attr = Inr (Some p)"
    and "xmlGetProp L (doc_node doc p) ''value'' = Some v" "NUL \<notin> set v" "len \<le> length buf"
  shows "read_device_attr L doc dev attr buf len type =
    (if length v < len then Inr (v @ NUL # drop (Suc (length v)) buf, int (length v) + 1)
     else if len < length buf then Inr (take (Suc len) (v @ [NUL]) @ drop (Suc len) buf, int len + 1)
     else Inl OutOfBounds)"
  using assms copy_value_fits [of v len buf] copy_value_overflow [of v len buf] copy_value_cut [of v len buf]
  by (cases "length v < len"; cases "len < length buf") (simp_all add: read_device_attr_found)

theorem read_device_attr_value_witness:
  "read_device_attr lib_lists small_doc ''iio:device0'' ''rate'' (replicate 8 CHR ''x'') 8 IIO_ATTR_TYPE_DEVICE
     = Inr (''750000'' @ NUL # ''x'', 7) \<and>
   read_device_attr lib_lists small_doc ''iio:device0'' ''rate'' (replicate 8 CHR ''x'') 3 IIO_ATTR_TYPE_DEVICE
     = Inr (''7500xxxx'', 4) \<and>
   read_device_attr lib_lists small_doc ''iio:device0'' ''rate'' (replicate 6 CHR ''x'') 6 IIO_ATTR_TYPE_DEVICE
     = Inl OutOfBounds"
proof -
  have f: "getDeviceAttr small_doc ''iio:device0'' IIO_ATTR_TYPE_DEVICE ''rate'' = Inr (Some [0, 1])"
    by code_simp
  have v: "xmlGetProp lib_lists (doc_node small_doc [0, 1]) ''value'' = Some ''750000''"
    by (simp add: lib_lists_def libxml_lists_def small_doc_def doc_node_def xmlDocGetRootElement_def)
  show ?thesis
    using read_device_attr_value [OF f v, of 8 "replicate 8 CHR ''x''"]
      read_device_attr_value [OF f v, of 3 "replicate 8 CHR ''x''"]
      read_device_attr_value [OF f v, of 6 "replicate 6 CHR ''x''"]
    by (simp add: NUL_def eval_nat_numeral)
qed

text \<open>
  C16: An attribute written to a device is read back as written, and nothing
  else changes: no node of the document but the attribute's, with those it
  is below, and none of the other attributes of devices, of channels and of
  the context.
\<close>

theorem device_attr_round_trip:
  assumes "setprop_ok L" "getDeviceAttr doc dev type attr = Inr (Some p)"
    and "NUL \<notin> set v" "length v < wlen" "length v < len" "len \<le> length buf"
  shows "\<exists>doc'. write_dev_attr L doc dev attr (v @ NUL # r) wlen type = Inr (doc', int (length v) + 1) \<and>
    read_device_attr L doc' dev attr buf len type = Inr (v @ NUL # drop (Suc (length v)) buf, int (length v) + 1) \<and>
    (\<forall>q. take (length q) p \<noteq> take (length p) q \<longrightarrow> doc_node doc' q = doc_node doc q) \<and>
    (\<forall>dev' type' attr' b n. getDeviceAttr doc dev' type' attr' \<noteq> Inr (Some p) \<longrightarrow>
       read_device_attr L doc' dev' attr' b n type' = read_device_attr L doc dev' attr' b n type') \<and>
    (\<forall>dev' chn' out' attr' b n. read_channel_attr L doc' dev' chn' out' attr' b n = read_channel_attr L doc dev' chn' out' attr' b n) \<and>
    (\<forall>attr' b n. read_context_attr L doc' attr' b n = read_context_attr L doc attr' b n)"
proof -
  have w: "write_dev_attr L doc dev attr (v @ NUL # r) wlen type = Inr (set_value L doc p v, int (length v) + 1)"
    using assms by (intro write_dev_attr_found)
  obtain q where q: "xmlDocGetRootElement doc = Some q" "valid_ptr p q" by (rule getDeviceAttr_valid [OF assms(2)])
  have rd: "read_device_attr L (set_value L doc p v) dev attr buf len type
      = Inr (v @ NUL # drop (Suc (length v)) buf, int (length v) + 1)"
    using assms getDeviceAttr_update [OF assms(1), of doc p v dev type attr] set_value_written [OF assms(1) q]
    by (simp add: read_device_attr_found copy_value_fits)
  have "getChannelAttr doc chn' dev' attr' out' \<noteq> Inr (Some p)" for chn' dev' attr' out'
    using device_channel_apart [OF assms(2)] by fastforce
  then show ?thesis using w rd device_write_others [OF assms(1,2), of v] unfolding others_kept_def
    by (intro exI [of _ "set_value L doc p v"] conjI) simp_all
qed

theorem device_attr_round_trip_witness:
  "\<exists>doc'. write_dev_attr lib_lists small_doc ''iio:device0'' ''rate'' (''75'' @ NUL # []) 3 IIO_ATTR_TYPE_DEVICE
       = Inr (doc', 3) \<and>
     read_device_attr lib_lists doc' ''iio:device0'' ''rate'' (replicate 8 NUL) 8 IIO_ATTR_TYPE_DEVICE
       = Inr (''75'' @ NUL # replicate 5 NUL, 3) \<and>
     read_device_attr lib_lists doc' ''iio:device0'' ''mode'' (replicate 8 NUL) 8 IIO_ATTR_TYPE_DEVICE
       = read_device_attr lib_lists small_doc ''iio:device0'' ''mode'' (replicate 8 NUL) 8 IIO_ATTR_TYPE_DEVICE"
proof -
  have f: "getDeviceAttr small_doc ''iio:device0'' IIO_ATTR_TYPE_DEVICE ''rate'' = Inr (Some [0, 1])"
    "getDeviceAttr small_doc ''iio:device0'' IIO_ATTR_TYPE_DEVICE ''mode'' = Inr (Some [0, 2])"
    by code_simp+
  have ne: "Inr (Some [0, 2]) \<noteq> (Inr (Some [0, 1]) :: nat list option result)" by simp
  obtain doc' where w: "write_dev_attr lib_lists small_doc ''iio:device0'' ''rate'' (''75'' @ NUL # []) 3
        IIO_ATTR_TYPE_DEVICE = Inr (doc', int (length ''75'') + 1)"
    and rd: "read_device_attr lib_lists doc' ''iio:device0'' ''rate'' (replicate 8 NUL) 8 IIO_ATTR_TYPE_DEVICE
        = Inr (''75'' @ NUL # drop (Suc (length ''75'')) (replicate 8 NUL), int (length ''75'') + 1)"
    and o: "\<forall>dev' type' attr' b n. getDeviceAttr small_doc dev' type' attr' \<noteq> Inr (Some [0, 1]) \<longrightarrow>
       read_device_attr lib_lists doc' dev' attr' b n type' = read_device_attr lib_lists small_doc dev' attr' b n type'"
    using device_attr_round_trip [OF lib_lists_ok(2) f(1), of "''75''" 3 8 "replicate 8 NUL" "[]"]
    by (auto simp: NUL_def)
  show ?thesis using w rd o [rule_format, of "''iio:device0''" IIO_ATTR_TYPE_DEVICE "''mode''"] f(2) ne
    by (intro exI [of _ doc'] conjI) (simp_all del: replicate.simps)
qed

text \<open>C17: The same for the attributes of channels: read back as written, and nothing else changes.\<close>

theorem channel_attr_round_trip:
  assumes "setprop_ok L" "getChannelAttr doc chn dev attr out = Inr (Some p)"
    and "NUL \<notin> set v" "length v < wlen" "length v < len" "len \<le> length buf"
  shows "\<exists>doc'. write_channel_attr L doc dev chn out attr (v @ NUL # r) wlen = Inr (doc', int (length v) + 1) \<and>
    read_channel_attr L doc' dev chn out attr buf len = Inr (v @ NUL # drop (Suc (length v)) buf, int (length v) + 1) \<and>
    (\<forall>q. take (length q) p \<noteq> take (length p) q \<longrightarrow> doc_node doc' q = doc_node doc q) \<and>
    (\<forall>dev' chn' out' attr' b n. getChannelAttr doc chn' dev' attr' out' \<noteq> Inr (Some p) \<longrightarrow>
       read_channel_attr L doc' dev' chn' out' attr' b n = read_channel_attr L doc dev' chn' out' attr' b n) \<and>
    (\<forall>dev' type' attr' b n. read_device_attr L doc' dev' attr' b n type' = read_device_attr L doc dev' attr' b n type') \<and>
    (\<forall>attr' b n. read_context_attr L doc' attr' b n = read_context_attr L doc attr' b n)"
proof -
  have w: "write_channel_attr L doc dev chn out attr (v @ NUL # r) wlen = Inr (set_value L doc p v, int (length v) + 1)"
    using assms by (intro write_channel_attr_found)
  obtain q where q: "xmlDocGetRootElement doc = Some q" "valid_ptr p q" by (rule getChannelAttr_valid [OF assms(2)])
  have rd: "read_channel_attr L (set_value L doc p v) dev chn out attr buf len
      = Inr (v @ NUL # drop (Suc (length v)) buf, int (length v) + 1)"
    using assms getChannelAttr_update [OF assms(1), of doc p v chn dev attr out] set_value_written [OF assms(1) q]
    by (simp add: read_channel_attr_found copy_value_fits)
  have "getDeviceAttr doc dev' type' attr' \<noteq> Inr (Some p)" for dev' type' attr'
    using device_channel_apart [OF _ assms(2)] by fastforce
  then show ?thesis using w rd channel_write_others [OF assms(1,2), of v] unfolding others_kept_def
    by (intro exI [of _ "set_value L doc p v"] conjI) simp_all
qed

theorem channel_attr_round_trip_witness:
  "\<exists>doc'. write_channel_attr lib_lists small_doc ''iio:device0'' ''voltage0'' True ''raw'' (''99'' @ NUL # []) 3
       = Inr (doc', 3) \<and>
     read_channel_attr lib_lists doc' ''iio:device0'' ''voltage0'' True ''raw'' (replicate 4 NUL) 4
       = Inr (''99'' @ NUL # replicate 1 NUL, 3)"
proof -
  have f: "getChannelAttr small_doc ''voltage0'' ''iio:device0'' ''raw'' True = Inr (Some [0, 0, 0])"
    by code_simp
  show ?thesis
    using channel_attr_round_trip [OF lib_lists_ok(2) f, of "''99''" 3 4 "replicate 4 NUL" "[]"]
    by (auto simp: NUL_def eval_nat_numeral)
qed

text \<open>
  Without a document every operation reports \<open>-ENOENT\<close> and changes
  nothing; so do the device and channel operations when the attribute is not
  there.  A missing context attribute is not handled: its null value is
  dereferenced.
\<close>

theorem attr_ops_missing:
  "read_device_attr L None dev attr buf len type = Inr (buf, - ENOENT) \<and>
   write_dev_attr L None dev attr buf len type = Inr (None, - ENOENT) \<and>
   read_channel_attr L None dev chn out attr buf len = Inr (buf, - ENOENT) \<and>
   write_channel_attr L None dev chn out attr buf len = Inr (None, - ENOENT) \<and>
   read_context_attr L None attr buf len = Inr (buf, - ENOENT) \<and>
   (getDeviceAttr doc dev type attr = Inr None \<longrightarrow>
     read_device_attr L doc dev attr buf len type = Inr (buf, - ENOENT) \<and>
     write_dev_attr L doc dev attr buf len type = Inr (doc, - ENOENT)) \<and>
   (getChannelAttr doc chn dev attr out = Inr None \<longrightarrow>
     read_channel_attr L doc dev chn out attr buf len = Inr (buf, - ENOENT) \<and>
     write_channel_attr L doc dev chn out attr buf len = Inr (doc, - ENOENT)) \<and>
   (xmlDocGetRootElement doc = Some root \<and> getNode root ''context-attribute'' ''name'' attr = Inr None \<longrightarrow>
     read_context_attr L doc attr buf len = Inl NullDeref)"
  by (cases doc) (simp_all add: read_device_attr_def write_dev_attr_def read_channel_attr_def write_channel_attr_def
      read_context_attr_def copy_value_def xmlDocGetRootElement_def)

theorem attr_ops_missing_witness:
  "read_device_attr lib_lists small_doc ''iio:device0'' ''none'' ''x'' 1 IIO_ATTR_TYPE_DEVICE = Inr (''x'', - ENOENT) \<and>
   read_context_attr lib_lists small_doc ''hw_model'' ''x'' 1 = Inl NullDeref"
proof -
  define root where "root = the (xmlDocGetRootElement small_doc)"
  have r: "xmlDocGetRootElement small_doc = Some root"
    by (simp add: root_def small_doc_def xmlDocGetRootElement_def)
  have f: "getDeviceAttr small_doc ''iio:device0'' IIO_ATTR_TYPE_DEVICE ''none'' = Inr None"
    "getNode root ''context-attribute'' ''name'' ''hw_model'' = Inr None"
    unfolding root_def by code_simp+
  show ?thesis
    using attr_ops_missing [of lib_lists "''iio:device0''" "''none''" "''x''" 1 IIO_ATTR_TYPE_DEVICE _ _ small_doc]
      attr_ops_missing [of lib_lists _ "''hw_model''" "''x''" 1 _ _ _ small_doc root] f r by blast
qed

end
