(* ===== verification/Conversions.thy ===== *)
theory Conversions
  imports IEEE_Double
begin

text \<open>
  Text to numbers and back, as the emulator's attribute handlers use them:
  \<open>strtoimax\<close>, \<open>std::stoi\<close>, \<open>std::to_string\<close> and \<open>iio_emu::safe_stod\<close>
  (utils/utility.cpp, a stream extraction in the "C" locale).
\<close>

section \<open>Characters\<close>

definition code_of :: "char \<Rightarrow> nat" where
  "code_of c = of_char c"

definition is_digit :: "char \<Rightarrow> bool" where
  "is_digit c \<longleftrightarrow> 48 \<le> code_of c \<and> code_of c \<le> 57"

definition is_space :: "char \<Rightarrow> bool" where
  "is_space c \<longleftrightarrow> code_of c = 32 \<or> (9 \<le> code_of c \<and> code_of c \<le> 13)"

definition digit_char :: "nat \<Rightarrow> char" where
  "digit_char d = char_of (48 + d)"

definition digit_val :: "char \<Rightarrow> int" where
  "digit_val c = int (code_of c) - 48"

definition digits_val :: "string \<Rightarrow> int" where
  "digits_val ds = foldl (\<lambda>a c. 10 * a + digit_val c) 0 ds"

lemma code_of_digit_char: "d < 10 \<Longrightarrow> code_of (digit_char d) = 48 + d"
  by (simp add: code_of_def digit_char_def)

lemma digit_char_simps [simp]:
  assumes "d < 10"
  shows "is_digit (digit_char d)" "digit_val (digit_char d) = int d"
  using assms by (simp_all add: is_digit_def digit_val_def code_of_digit_char)

section \<open>Integers\<close>

text \<open>
  The base-10 subject sequence of \<open>strtol\<close> and \<open>strtoimax\<close>: white space, an
  optional sign, digits.  \<open>None\<close> when there is no digit, else the value and
  the rest of the string.
\<close>

definition parse_int :: "string \<Rightarrow> (int \<times> string) option" where
  "parse_int s =
     (let t = dropWhile is_space s;
          neg = (t \<noteq> [] \<and> hd t = CHR ''-'');
          u = (if t \<noteq> [] \<and> (hd t = CHR ''-'' \<or> hd t = CHR ''+'') then tl t else t);
          ds = takeWhile is_digit u
      in if ds = [] then None
         else Some (if neg then - digits_val ds else digits_val ds, dropWhile is_digit u))"

definition stoi :: "string \<Rightarrow> int result" where
  "stoi s =
     (case parse_int s of
        None \<Rightarrow> Inl InvalidArgument
      | Some (v, rest) \<Rightarrow> if - (2 ^ 31) \<le> v \<and> v < 2 ^ 31 then Inr v else Inl OutOfRange)"

fun show_nat :: "nat \<Rightarrow> string" where
  "show_nat n = (if n < 10 then [digit_char n] else show_nat (n div 10) @ [digit_char (n mod 10)])"

declare show_nat.simps [simp del]

definition to_string :: "int \<Rightarrow> string" where
  "to_string i = (if i < 0 then CHR ''-'' # show_nat (nat (- i)) else show_nat (nat i))"

lemma digits_val_snoc: "digits_val (ds @ [c]) = 10 * digits_val ds + digit_val c"
  by (simp add: digits_val_def)

lemma show_nat_digits: "list_all is_digit (show_nat n) \<and> show_nat n \<noteq> []"
proof (induction n rule: show_nat.induct)
  case (1 n)
  then show ?case by (cases "n < 10") (simp_all add: show_nat.simps [of n])
qed

lemma digits_val_show_nat: "digits_val (show_nat n) = int n"
proof (induction n rule: show_nat.induct)
  case (1 n)
  show ?case
  proof (cases "n < 10")
    case True
    then show ?thesis by (simp add: show_nat.simps digits_val_def)
  next
    case False
    have "int n = 10 * int (n div 10) + int (n mod 10)" by (simp add: zdiv_int zmod_int)
    then show ?thesis using False 1 by (simp add: show_nat.simps [of n] digits_val_snoc)
  qed
qed

lemma digit_not_space: "is_digit c \<Longrightarrow> \<not> is_space c"
  by (auto simp: is_digit_def is_space_def)

lemma digit_not_sign: "is_digit c \<Longrightarrow> c \<noteq> CHR ''-'' \<and> c \<noteq> CHR ''+''"
  by (auto simp: is_digit_def code_of_def)

lemma dropWhile_nonspace: "s \<noteq> [] \<Longrightarrow> \<not> is_space (hd s) \<Longrightarrow> dropWhile is_space s = s"
  by (cases s) auto

text \<open>The facts that make a string of digits parse as itself.\<close>

lemma digit_text:
  assumes "list_all is_digit ds" "ds \<noteq> []"
  shows "takeWhile is_digit ds = ds" "dropWhile is_digit ds = []" "dropWhile is_space ds = ds"
    "hd ds \<noteq> CHR ''-''" "hd ds \<noteq> CHR ''+''"
proof -
  have "is_digit (hd ds)" using assms by (simp add: list_all_iff)
  then show "dropWhile is_space ds = ds" "hd ds \<noteq> CHR ''-''" "hd ds \<noteq> CHR ''+''"
    using assms(2) digit_not_space digit_not_sign by (auto intro: dropWhile_nonspace)
  show "takeWhile is_digit ds = ds" "dropWhile is_digit ds = []"
    using assms by (auto simp: list_all_iff takeWhile_eq_all_conv dropWhile_eq_Nil_conv)
qed

lemma parse_int_digits:
  assumes "list_all is_digit ds" "ds \<noteq> []"
  shows "parse_int ds = Some (digits_val ds, [])"
    and "parse_int (CHR ''-'' # ds) = Some (- digits_val ds, [])"
  using assms(2)
  by (simp_all add: digit_text [OF assms] parse_int_def Let_def is_space_def code_of_def)

lemma stoi_to_string:
  assumes "- (2 ^ 31) \<le> i" "i < 2 ^ 31"
  shows "stoi (to_string i) = Inr i"
  using assms show_nat_digits parse_int_digits
  by (auto simp: stoi_def to_string_def digits_val_show_nat)

lemma to_string_no_NUL: "NUL \<notin> set (to_string i)"
proof -
  have "\<not> is_digit NUL" by (simp add: is_digit_def code_of_def NUL_def)
  then have "NUL \<notin> set (show_nat n)" for n
    using show_nat_digits [of n] by (auto simp: list_all_iff)
  then show ?thesis by (auto simp: to_string_def NUL_def)
qed

section \<open>Doubles\<close>

text \<open>
  What the stream extraction accumulates: an optional sign, digits with at
  most one point, and, after a digit, an exponent with an optional sign.
  When the accumulated text is not a complete number the value is 0; on
  overflow it is the largest finite double.
\<close>

definition max_double :: double where
  "max_double = Fin (of_int ((2 ^ 53 - 1) * 2 ^ 971))"

definition scale10 :: "int \<Rightarrow> int \<Rightarrow> rat" where
  "scale10 m e = (if 0 \<le> e then of_int (m * 10 ^ nat e) else of_int m / of_int (10 ^ nat (- e)))"

definition make_double :: "bool \<Rightarrow> int \<Rightarrow> int \<Rightarrow> double" where
  "make_double neg m e =
     (if m = 0 then Zero neg
      else case fl (if neg then - scale10 m e else scale10 m e) of
        Inf s \<Rightarrow> (if s then neg_d max_double else max_double)
      | d \<Rightarrow> d)"

definition safe_stod :: "string \<Rightarrow> double" where
  "safe_stod s =
     (let t = dropWhile is_space s;
          neg = (t \<noteq> [] \<and> hd t = CHR ''-'');
          u = (if t \<noteq> [] \<and> (hd t = CHR ''-'' \<or> hd t = CHR ''+'') then tl t else t);
          ip = takeWhile is_digit u;
          v = dropWhile is_digit u;
          pt = (v \<noteq> [] \<and> hd v = CHR ''.'');
          fp = (if pt then takeWhile is_digit (tl v) else []);
          w = (if pt then dropWhile is_digit (tl v) else v);
          m = digits_val (ip @ fp);
          e0 = - int (length fp)
      in if ip @ fp = [] then Zero False
         else if w \<noteq> [] \<and> (hd w = CHR ''e'' \<or> hd w = CHR ''E'') then
           (let x = tl w;
                xneg = (x \<noteq> [] \<and> hd x = CHR ''-'');
                y = (if x \<noteq> [] \<and> (hd x = CHR ''-'' \<or> hd x = CHR ''+'') then tl x else x);
                xs = takeWhile is_digit y
            in if xs = [] then Zero False
               else make_double neg m (e0 + (if xneg then - digits_val xs else digits_val xs)))
         else make_double neg m e0)"

lemma make_double_not_NaN: "make_double neg m e \<noteq> NaN"
  by (auto simp: make_double_def max_double_def split: double.splits)

text \<open>No attribute text is read as a NaN, so every rate comparison is a total one.\<close>

lemma safe_stod_not_NaN: "safe_stod s \<noteq> NaN"
  by (simp add: safe_stod_def Let_def make_double_not_NaN)

text \<open>A whole number of up to 53 bits is read exactly.\<close>

lemma safe_stod_digits:
  assumes "list_all is_digit ds" "ds \<noteq> []" "0 < digits_val ds" "digits_val ds < 2 ^ 53"
  shows "safe_stod ds = Fin (of_int (digits_val ds))"
proof -
  have "safe_stod ds = make_double False (digits_val ds) 0"
    using assms(2) by (simp add: digit_text [OF assms(1,2)] safe_stod_def Let_def)
  then show ?thesis using assms fl_int [of "digits_val ds"]
    by (simp add: make_double_def scale10_def)
qed

end
