(* ===== verification/Cyclic_Source.thy ===== *)
theory Cyclic_Source
  imports Prelude
begin

text \<open>
  The contract between an output device and the input device connected to
  it: the input side draws any number of samples, the output side serves
  them from its buffer, starting over at the end, and remembers where it
  stopped.  \<open>M2kDAC\<close> copies chunks with \<open>memcpy\<close>, \<open>M2kLogicTX\<close> pushes
  sample after sample; both keep this contract.
\<close>

text \<open>The read position is inside the buffer, and 32 bits can index it.\<close>

definition in_buffer :: "'a list \<Rightarrow> nat \<Rightarrow> bool" where
  "in_buffer xs i \<longleftrightarrow> i < length xs \<and> length xs < 2 ^ 32"

lemma in_buffer_mod: "in_buffer xs i \<Longrightarrow> in_buffer xs (j mod length xs)"
  by (cases xs) (auto simp: in_buffer_def)

locale cyclic_source =
  fixes drain :: "'a list \<Rightarrow> nat \<Rightarrow> nat \<Rightarrow> ('a list \<times> nat) result"
  assumes drain_cyc: "in_buffer xs i \<Longrightarrow> drain xs i n = Inr (cyc xs i n, (i + n) mod length xs)"
begin

lemma drain_in_buffer:
  assumes "in_buffer xs i" "drain xs i n = Inr (ys, j)"
  shows "length ys = n" and "in_buffer xs j"
  using assms in_buffer_mod by (auto simp: drain_cyc)

text \<open>Drawing \<open>m\<close> and then \<open>n\<close> samples is drawing \<open>m + n\<close>: requests may be cut anywhere.\<close>

lemma drain_split:
  assumes "in_buffer xs i"
  shows "drain xs i (m + n) =
    bindr (drain xs i m) (\<lambda>(ys, j). bindr (drain xs j n) (\<lambda>(zs, k). Inr (ys @ zs, k)))"
proof -
  have "in_buffer xs ((i + m) mod length xs)"
    using assms by (rule in_buffer_mod)
  then show ?thesis using assms
    by (simp add: drain_cyc cyc_append cyc_mod mod_add_left_eq add.assoc)
qed

text \<open>A whole turn delivers the buffer and comes back to the same place.\<close>

lemma drain_turn:
  assumes "in_buffer xs 0"
  shows "drain xs 0 (length xs) = Inr (xs, 0)"
  using assms by (simp add: drain_cyc cyc_all)

lemma drain_zeros:
  assumes "0 < m" "m < 2 ^ 32"
  shows "drain (replicate m x) 0 m = Inr (replicate m x, 0)"
  using drain_turn [of "replicate m x"] assms by (simp add: in_buffer_def)

end

end
