(* ===== verification/M2k_Logic.thy ===== *)
theory M2k_Logic
  imports Attr_Ops Conversions Resample Cyclic_Source
begin

text \<open>
  The devices of iiod/devices (base class) and the logic analyser and pattern
  generator of the ADALM2000, m2k_logic_rx.cpp and m2k_logic_tx.cpp.  What
  the constructors leave uninitialised is an argument of the model's
  constructors.
\<close>

section \<open>Surroundings\<close>

text \<open>
  \<open>IIOD_BUFFER_SIZE\<close> is a constant of libtinyiiod.  The local arrays of that
  size are not initialised: \<open>stack_junk\<close> is what they hold, and its length
  is that constant.
\<close>

record env =
  env_xml :: libxml
  stack_junk :: "char list"

definition IIOD_BUFFER_SIZE :: "env \<Rightarrow> nat" where
  "IIOD_BUFFER_SIZE E = length (stack_junk E)"

text \<open>\<open>m_device_id\<close> is the block of memory it points to.\<close>

record abstract_device =
  m_device_id :: "char list"
  m_fd :: int

definition getDescriptor :: "('a) abstract_device_scheme \<Rightarrow> int" where
  "getDescriptor d = m_fd d"

definition setDescriptor :: "int \<Rightarrow> ('a) abstract_device_scheme \<Rightarrow> ('a) abstract_device_scheme" where
  "setDescriptor fd d = d\<lparr>m_fd := fd\<rparr>"

text \<open>Read a device attribute of \<open>d\<close> into \<open>buf\<close>.\<close>

definition own_attr ::
  "env \<Rightarrow> xdoc option \<Rightarrow> ('a) abstract_device_scheme \<Rightarrow> string \<Rightarrow> char list \<Rightarrow> char list result" where
  "own_attr E doc d attr buf =
     bindr (cstr (m_device_id d)) (\<lambda>id.
     bindr (read_device_attr (env_xml E) doc id attr buf (IIOD_BUFFER_SIZE E) IIO_ATTR_TYPE_DEVICE)
       (\<lambda>(buf', ret). Inr buf'))"

text \<open>\<open>1E8\<close> and \<open>75E6\<close>, the hardware rates.\<close>

definition rate_1E8 :: double where
  "rate_1E8 = Fin 100000000"

definition rate_75E6 :: double where
  "rate_75E6 = Fin 75000000"

section \<open>M2kLogicTX\<close>

record logic_tx = abstract_device +
  ltx_samples :: "u16 list"
  ltx_current_index :: nat
  ltx_samplerate :: double
  ltx_reset_buffer :: bool

definition M2kLogicTX :: "string \<Rightarrow> int \<Rightarrow> double \<Rightarrow> logic_tx" where
  "M2kLogicTX device_id fd0 rate0 =
     \<lparr>m_device_id = device_id @ [NUL], m_fd = fd0, ltx_samples = [], ltx_current_index = 0,
      ltx_samplerate = rate0, ltx_reset_buffer = False\<rparr>"

definition ltx_open_dev :: "logic_tx \<Rightarrow> nat \<Rightarrow> 32 word \<Rightarrow> bool \<Rightarrow> logic_tx \<times> int" where
  "ltx_open_dev d sample_size msk cyclic = (d, 0)"

definition ltx_close_dev :: "logic_tx \<Rightarrow> logic_tx \<times> int" where
  "ltx_close_dev d = (d, 0)"

definition ltx_set_buffers_count :: "logic_tx \<Rightarrow> 32 word \<Rightarrow> logic_tx \<times> int" where
  "ltx_set_buffers_count d buffers_count = (d, 0)"

definition ltx_get_mask :: "logic_tx \<Rightarrow> 32 word \<Rightarrow> 32 word \<times> int" where
  "ltx_get_mask d msk = (msk, 0)"

definition ltx_loadValues :: "env \<Rightarrow> xdoc option \<Rightarrow> logic_tx \<Rightarrow> logic_tx result" where
  "ltx_loadValues E doc d =
     bindr (own_attr E doc d ''sampling_frequency'' (stack_junk E)) (\<lambda>tmp_attr.
     bindr (cstr tmp_attr) (\<lambda>s. Inr (d\<lparr>ltx_samplerate := safe_stod s\<rparr>)))"

definition ltx_resample :: "env \<Rightarrow> xdoc option \<Rightarrow> logic_tx \<Rightarrow> (logic_tx \<times> u16 list) result" where
  "ltx_resample E doc d =
     bindr (ltx_loadValues E doc d) (\<lambda>d.
     bindr (cast_u32 (div_d rate_1E8 (ltx_samplerate d))) (\<lambda>ratio.
       if ratio < 2 then Inr (d, ltx_samples d)
       else bindr (digital_interpolation (ltx_samples d) [] ratio) (\<lambda>samples. Inr (d, samples))))"

definition ltx_write_dev :: "logic_tx \<Rightarrow> byte list \<Rightarrow> nat \<Rightarrow> nat \<Rightarrow> (logic_tx \<times> int) result" where
  "ltx_write_dev d buf offset bytes_count =
     (let d = (if ltx_reset_buffer d
               then d\<lparr>ltx_samples := [], ltx_current_index := 0, ltx_reset_buffer := False\<rparr> else d)
      in bindr (decode16 (bytes_count div 2) buf) (\<lambda>ws.
           Inr (d\<lparr>ltx_samples := ltx_samples d @ ws\<rparr>, int bytes_count)))"

definition ltx_transfer_mem_to_dev :: "env \<Rightarrow> xdoc option \<Rightarrow> logic_tx \<Rightarrow> nat \<Rightarrow> (logic_tx \<times> int) result" where
  "ltx_transfer_mem_to_dev E doc d bytes_count =
     bindr (ltx_resample E doc d) (\<lambda>(d, samples).
       Inr (d\<lparr>ltx_samples := samples, ltx_reset_buffer := True\<rparr>, 0))"

text \<open>The loop that pushes one sample after the other.\<close>

fun ltx_drain :: "u16 list \<Rightarrow> nat \<Rightarrow> nat \<Rightarrow> (u16 list \<times> nat) result" where
  "ltx_drain samples index 0 = Inr ([], index)"
| "ltx_drain samples index (Suc n) =
     (if index < length samples then
        let next = (index + 1) mod 2 ^ 32;
            next' = (if length samples \<le> next then 0 else next)
        in bindr (ltx_drain samples next' n) (\<lambda>(ys, k). Inr (samples ! index # ys, k))
      else Inl OutOfRange)"

definition ltx_transfer_samples :: "logic_tx \<Rightarrow> nat \<Rightarrow> (logic_tx \<times> u16 list) result" where
  "ltx_transfer_samples d samples_count =
     (let d = (if ltx_samples d = [] then d\<lparr>ltx_samples := replicate samples_count 0\<rparr> else d)
      in bindr (ltx_drain (ltx_samples d) (ltx_current_index d) samples_count) (\<lambda>(ys, k).
           Inr (d\<lparr>ltx_current_index := k\<rparr>, ys)))"

definition ltx_cancel_buffer :: "logic_tx \<Rightarrow> logic_tx \<times> int" where
  "ltx_cancel_buffer d = (d\<lparr>ltx_samples := []\<rparr>, 0)"

section \<open>M2kLogicRX\<close>

text \<open>A connection is the index of an output device, if set, and a channel.\<close>

type_synonym connection = "nat option \<times> nat"

record logic_rx = abstract_device +
  lrx_connections :: "connection list"
  lrx_samplerate :: double

definition M2kLogicRX :: "string \<Rightarrow> int \<Rightarrow> double \<Rightarrow> logic_rx" where
  "M2kLogicRX device_id fd0 rate0 =
     \<lparr>m_device_id = device_id @ [NUL], m_fd = fd0, lrx_connections = [(None, 0)], lrx_samplerate = rate0\<rparr>"

definition lrx_open_dev :: "logic_rx \<Rightarrow> nat \<Rightarrow> 32 word \<Rightarrow> bool \<Rightarrow> logic_rx \<times> int" where
  "lrx_open_dev d sample_size msk cyclic = (d, 0)"

definition lrx_close_dev :: "logic_rx \<Rightarrow> logic_rx \<times> int" where
  "lrx_close_dev d = (d, 0)"

definition lrx_set_buffers_count :: "logic_rx \<Rightarrow> 32 word \<Rightarrow> logic_rx \<times> int" where
  "lrx_set_buffers_count d buffers_count = (d, 0)"

definition lrx_get_mask :: "logic_rx \<Rightarrow> 32 word \<Rightarrow> 32 word \<times> int" where
  "lrx_get_mask d msk = (msk, 0)"

definition lrx_connectDevice :: "logic_rx \<Rightarrow> nat \<Rightarrow> nat \<Rightarrow> nat \<Rightarrow> logic_rx result" where
  "lrx_connectDevice d channel_in deviceOut channel_out =
     (if channel_in < length (lrx_connections d)
      then Inr (d\<lparr>lrx_connections := (lrx_connections d)[channel_in := (Some deviceOut, channel_out)]\<rparr>)
      else Inl OutOfRange)"

definition lrx_loadValues :: "env \<Rightarrow> xdoc option \<Rightarrow> logic_rx \<Rightarrow> logic_rx result" where
  "lrx_loadValues E doc d =
     bindr (own_attr E doc d ''sampling_frequency'' (stack_junk E)) (\<lambda>tmp_attr.
     bindr (cstr tmp_attr) (\<lambda>s. Inr (d\<lparr>lrx_samplerate := safe_stod s\<rparr>)))"

text \<open>
  \<open>draw\<close> is the call of the connected device's
  \<open>transfer_samples_to_RX_device\<close>; it returns the samples and the new state
  of the output devices.  The number of samples is computed in \<open>size_t\<close>.
\<close>

definition lrx_resample ::
  "env \<Rightarrow> xdoc option \<Rightarrow> (nat \<Rightarrow> nat \<Rightarrow> 'w \<Rightarrow> (u16 list \<times> 'w) result) \<Rightarrow> logic_rx \<Rightarrow> nat \<Rightarrow> nat \<Rightarrow> 'w \<Rightarrow>
     (logic_rx \<times> u16 list \<times> 'w) result" where
  "lrx_resample E doc draw d channel len w =
     bindr (lrx_loadValues E doc d) (\<lambda>d.
     bindr (cast_u32 (div_d rate_1E8 (lrx_samplerate d))) (\<lambda>ratio.
       let count = (len div 2 * ratio) mod 2 ^ 64 in
       bindr (reserve_check 2 (of_nat count)) (\<lambda>_.
         if lrx_connections d = [] then Inl OutOfRange
         else case fst (hd (lrx_connections d)) of
           None \<Rightarrow> Inl NullDeref
         | Some out \<Rightarrow>
             bindr (draw out count w) (\<lambda>(tmp_samples, w).
             bindr (digital_decimation tmp_samples [] ratio) (\<lambda>samples. Inr (d, samples, w))))))"

definition lrx_read_dev ::
  "env \<Rightarrow> xdoc option \<Rightarrow> (nat \<Rightarrow> nat \<Rightarrow> 'w \<Rightarrow> (u16 list \<times> 'w) result) \<Rightarrow> logic_rx \<Rightarrow> byte list \<Rightarrow> nat \<Rightarrow> nat \<Rightarrow>
     'w \<Rightarrow> (logic_rx \<times> byte list \<times> int \<times> 'w) result" where
  "lrx_read_dev E doc draw d pbuf offset bytes_count w =
     bindr (lrx_resample E doc draw d 0 bytes_count w) (\<lambda>(d, samples, w).
     bindr (read_mem (encode16 samples) bytes_count) (\<lambda>src.
     bindr (memcpy pbuf src) (\<lambda>pbuf'. Inr (d, pbuf', int bytes_count, w))))"

definition lrx_cancel_buffer :: "logic_rx \<Rightarrow> logic_rx \<times> int" where
  "lrx_cancel_buffer d = (d, 0)"

definition lrx_transfer_dev_to_mem :: "logic_rx \<Rightarrow> nat \<Rightarrow> logic_rx \<times> int" where
  "lrx_transfer_dev_to_mem d bytes_count = (d, 0)"

section \<open>The generator keeps the contract of a cyclic source\<close>

lemma cyc_Suc: "cyc xs i (Suc n) = xs ! (i mod length xs) # cyc xs (Suc i) n"
  using cyc_append [of xs i 1 n] by (simp add: cyc_def)

interpretation generator: cyclic_source ltx_drain
proof
  fix xs :: "u16 list" and i n :: nat
  show "in_buffer xs i \<Longrightarrow> ltx_drain xs i n = Inr (cyc xs i n, (i + n) mod length xs)"
  proof (induction n arbitrary: i)
    case 0
    then show ?case by (simp add: in_buffer_def cyc_def)
  next
    case (Suc n)
    define j where "j = (if length xs \<le> i + 1 then 0 else i + 1)"
    have i: "i < length xs" "(i + 1) mod 2 ^ 32 = i + 1" using Suc.prems by (simp_all add: in_buffer_def)
    have j: "j = Suc i mod length xs" using i(1) by (cases "Suc i = length xs") (auto simp: j_def)
    have "in_buffer xs j" unfolding j by (rule in_buffer_mod [OF Suc.prems])
    then have "ltx_drain xs j n = Inr (cyc xs j n, (j + n) mod length xs)" by (rule Suc.IH)
    moreover have "ltx_drain xs i (Suc n) = bindr (ltx_drain xs j n) (\<lambda>(ys, k). Inr (xs ! i # ys, k))"
      using i by (simp add: j_def Let_def)
    ultimately show ?case using i(1) by (simp add: j cyc_Suc cyc_mod mod_add_left_eq)
  qed
qed

text \<open>
  The state between calls: with samples in the buffer the read position is
  inside it, without samples it is 0.
\<close>

definition ltx_ok :: "logic_tx \<Rightarrow> bool" where
  "ltx_ok d \<longleftrightarrow> (if ltx_samples d = [] then ltx_current_index d = 0
     else ltx_current_index d < length (ltx_samples d))"

lemma ltx_new_ok: "ltx_ok (M2kLogicTX i fd rate)"
  by (simp add: ltx_ok_def M2kLogicTX_def)

lemma ltx_write_ok:
  assumes "ltx_ok d" "ltx_write_dev d buf off n = Inr (d', r)"
  shows "ltx_ok d'"
  using assms by (auto simp: ltx_write_dev_def ltx_ok_def Let_def bindr_eq_Inr_iff split: if_splits)

lemma ltx_resample_eq:
  assumes "ltx_resample E doc d = Inr (d', ys)"
  obtains rate ratio where "d' = d\<lparr>ltx_samplerate := rate\<rparr>"
    and "ys = (if ratio < 2 then ltx_samples d else concat (map (replicate ratio) (ltx_samples d)))"
proof -
  obtain d1 ratio where d1: "ltx_loadValues E doc d = Inr d1"
    and y: "(if ratio < 2 then Inr (d1, ltx_samples d1)
       else bindr (digital_interpolation (ltx_samples d1) [] ratio) (\<lambda>s. Inr (d1, s))) = Inr (d', ys)"
    using assms by (auto simp: ltx_resample_def bindr_eq_Inr_iff)
  obtain rate where rate: "d1 = d\<lparr>ltx_samplerate := rate\<rparr>"
    using d1 by (auto simp: ltx_loadValues_def bindr_eq_Inr_iff)
  show ?thesis
    by (rule that [of rate ratio])
      (use y rate in \<open>auto simp: digital_interpolation_def bindr_eq_Inr_iff split: if_splits\<close>)
qed

lemma length_interpolated: "length (concat (map (replicate r) xs)) = r * length xs"
  by (induction xs) auto

lemma ltx_push_ok:
  assumes "ltx_ok d" "ltx_transfer_mem_to_dev E doc d n = Inr (d', r)"
  shows "ltx_ok d'"
proof -
  obtain d1 ys where rs: "ltx_resample E doc d = Inr (d1, ys)"
    and d': "d' = d1\<lparr>ltx_samples := ys, ltx_reset_buffer := True\<rparr>"
    using assms(2) by (auto simp: ltx_transfer_mem_to_dev_def bindr_eq_Inr_iff)
  obtain rate ratio where d1: "d1 = d\<lparr>ltx_samplerate := rate\<rparr>"
    and ys: "ys = (if ratio < 2 then ltx_samples d else concat (map (replicate ratio) (ltx_samples d)))"
    using ltx_resample_eq [OF rs] by metis
  have "length (ltx_samples d) \<le> length ys"
    by (cases "ratio < 2") (simp_all add: ys length_interpolated del: length_concat)
  moreover have "ltx_samples d = [] \<Longrightarrow> ys = []" by (simp add: ys)
  ultimately show ?thesis using assms(1) by (auto simp: ltx_ok_def d' d1 split: if_splits)
qed

text \<open>
  What a draw does in any state.  An empty buffer is first filled with zeros;
  then, with the read position inside the buffer, the buffer is read around
  and the position moves on, and with the position outside the first access
  throws.
\<close>

definition ltx_drawn :: "logic_tx \<Rightarrow> nat \<Rightarrow> u16 list" where
  "ltx_drawn d n = (if ltx_samples d = [] then replicate n 0 else ltx_samples d)"

lemma ltx_drawn_ok: "ltx_ok d \<Longrightarrow> 0 < n \<Longrightarrow> ltx_current_index d < length (ltx_drawn d n)"
  by (auto simp: ltx_ok_def ltx_drawn_def)

lemma ltx_transfer_drawn:
  assumes "length (ltx_samples d) < 2 ^ 32" "0 < n" "n < 2 ^ 32"
  defines "xs \<equiv> ltx_drawn d n"
  shows "ltx_transfer_samples d n =
    (if ltx_current_index d < length xs
     then Inr (d\<lparr>ltx_samples := xs, ltx_current_index := (ltx_current_index d + n) mod length xs\<rparr>,
               cyc xs (ltx_current_index d) n)
     else Inl OutOfRange)"
proof -
  have t: "ltx_transfer_samples d n =
      bindr (ltx_drain xs (ltx_current_index d) n) (\<lambda>(ys, k). Inr (d\<lparr>ltx_samples := xs, ltx_current_index := k\<rparr>, ys))"
    by (cases d) (simp add: ltx_transfer_samples_def xs_def ltx_drawn_def Let_def)
  have len: "length xs < 2 ^ 32" using assms by (simp add: xs_def ltx_drawn_def)
  show ?thesis
  proof (cases "ltx_current_index d < length xs")
    case True
    then show ?thesis using t len generator.drain_cyc [of xs "ltx_current_index d" n] by (simp add: in_buffer_def)
  next
    case False
    then have "ltx_drain xs (ltx_current_index d) n = Inl OutOfRange" using assms(2) by (cases n) simp_all
    then show ?thesis using t False by simp
  qed
qed

section \<open>Runs of the pattern generator\<close>

lemma ltx_drain_index:
  "ltx_drain xs i n = Inr (ys, k) \<Longrightarrow> i < length xs \<Longrightarrow> k < length xs"
proof (induction n arbitrary: i ys)
  case (Suc n)
  define j where "j = (let nx = (i + 1) mod 2 ^ 32 in if length xs \<le> nx then 0 else nx)"
  obtain zs where "ltx_drain xs j n = Inr (zs, k)"
    using Suc.prems by (auto simp: j_def Let_def bindr_eq_Inr_iff split: if_splits)
  moreover have "j < length xs" using Suc.prems(2) by (auto simp: j_def Let_def)
  ultimately show ?case using Suc.IH by blast
qed simp

lemma ltx_drain_served:
  "ltx_drain xs i n = Inr (ys, k) \<Longrightarrow> xs = [] \<Longrightarrow> n = 0 \<and> k = i"
  by (cases n) auto

lemma ltx_draw_ok:
  assumes "ltx_ok d" "ltx_transfer_samples d n = Inr (d', ys)"
  shows "ltx_ok d'"
proof -
  define d1 where "d1 = (if ltx_samples d = [] then d\<lparr>ltx_samples := replicate n 0\<rparr> else d)"
  obtain k where k: "ltx_drain (ltx_samples d1) (ltx_current_index d1) n = Inr (ys, k)"
    and d': "d' = d1\<lparr>ltx_current_index := k\<rparr>"
    using assms(2) by (auto simp: ltx_transfer_samples_def d1_def [symmetric] Let_def bindr_eq_Inr_iff)
  have "ltx_ok d1" using assms(1) by (auto simp: d1_def ltx_ok_def)
  then show ?thesis using k d' ltx_drain_index [OF k] ltx_drain_served [OF k]
    by (auto simp: ltx_ok_def split: if_splits)
qed

text \<open>
  The states a pattern generator can be in as long as no client cancels its
  buffer: what the server and the connected logic analyser do to it, with
  any document at any time.
\<close>

inductive ltx_run :: "logic_tx \<Rightarrow> bool" where
  new: "ltx_run (M2kLogicTX i fd rate)"
| opened: "ltx_run d \<Longrightarrow> ltx_run (fst (ltx_open_dev (setDescriptor fd d) n msk cyclic))"
| closed: "ltx_run d \<Longrightarrow> ltx_run (fst (ltx_close_dev d))"
| written: "ltx_run d \<Longrightarrow> ltx_write_dev d buf off n = Inr (d', r) \<Longrightarrow> ltx_run d'"
| pushed: "ltx_run d \<Longrightarrow> ltx_transfer_mem_to_dev E doc d n = Inr (d', r) \<Longrightarrow> ltx_run d'"
| drawn: "ltx_run d \<Longrightarrow> ltx_transfer_samples d n = Inr (d', ys) \<Longrightarrow> ltx_run d'"

lemma ltx_run_ok: "ltx_run d \<Longrightarrow> ltx_ok d"
proof (induction rule: ltx_run.induct)
  case (opened d fd n msk cyclic)
  then show ?case by (simp add: ltx_ok_def ltx_open_dev_def setDescriptor_def)
qed (auto simp: ltx_close_dev_def intro: ltx_new_ok ltx_write_ok ltx_push_ok ltx_draw_ok)

text \<open>Stretching a buffer by repetition and reading it around commute.\<close>

lemma nth_stretched:
  "j < r * length xs \<Longrightarrow> concat (map (replicate r) xs) ! j = xs ! (j div r)"
proof (induction xs arbitrary: j)
  case (Cons x xs)
  show ?case
  proof (cases "j < r")
    case True
    then show ?thesis by (simp add: nth_append)
  next
    case False
    then have "0 < r" "r \<le> j" "j - r < r * length xs"
      using Cons.prems by (cases r; simp)+
    then have "j div r = Suc ((j - r) div r)" "j - r < r * length xs"
      by (simp_all add: le_div_geq)
    then show ?thesis using False Cons.IH [of "j - r"] by (simp add: nth_append)
  qed
qed simp

lemma cyc_stretched:
  assumes "0 < r" "xs \<noteq> []"
  shows "cyc (concat (map (replicate r) xs)) 0 (r * n) = concat (map (replicate r) (cyc xs 0 n))"
proof (rule nth_equalityI)
  show "length (cyc (concat (map (replicate r) xs)) 0 (r * n)) = length (concat (map (replicate r) (cyc xs 0 n)))"
    by (simp add: length_interpolated del: length_concat)
  fix j assume "j < length (cyc (concat (map (replicate r) xs)) 0 (r * n))"
  then have j: "j < r * n" by simp
  let ?m = "r * length xs"
  have pos: "0 < ?m" using assms by simp
  have "(j mod ?m) div r = (j div r) mod length xs"
    by (simp add: mod_mult2_eq assms(1))
  moreover have "cyc (concat (map (replicate r) xs)) 0 (r * n) ! j = concat (map (replicate r) xs) ! (j mod ?m)"
    using j by (simp add: cyc_nth length_interpolated del: length_concat)
  moreover have "concat (map (replicate r) xs) ! (j mod ?m) = xs ! ((j mod ?m) div r)"
    using pos by (intro nth_stretched) simp
  moreover have "j div r < n" using j assms(1) by (simp add: less_mult_imp_div_less mult.commute)
  then have "concat (map (replicate r) (cyc xs 0 n)) ! j = xs ! ((j div r) mod length xs)"
    using j by (subst nth_stretched) (simp_all add: cyc_nth)
  ultimately show "cyc (concat (map (replicate r) xs)) 0 (r * n) ! j = concat (map (replicate r) (cyc xs 0 n)) ! j"
    by simp
qed

section \<open>From the generator to the analyser\<close>

lemma reserve_u16:
  assumes "a * b < 2 ^ 32"
  shows "reserve_check 2 (of_nat a * of_nat b) = Inr ()"
proof -
  have "unat (of_nat (a * b) :: size_t) = a * b" using assms by (intro unat64) simp
  then show ?thesis using assms by (simp add: reserve_check_def max_elems_def)
qed

lemma ltx_write_fresh:
  assumes "ltx_samples d = [] \<and> ltx_current_index d = 0 \<or> ltx_reset_buffer d"
  shows "ltx_write_dev d (encode16 ws) off (2 * length ws) =
    Inr (d\<lparr>ltx_samples := ws, ltx_current_index := 0, ltx_reset_buffer := False\<rparr>, 2 * int (length ws))"
  using assms decode16_encode16 [of ws "[]"] by (auto simp: ltx_write_dev_def)

lemma ltx_loadValues_same_id:
  assumes "ltx_loadValues E doc d = Inr (d\<lparr>ltx_samplerate := rate\<rparr>)" "m_device_id e = m_device_id d"
  shows "ltx_loadValues E doc e = Inr (e\<lparr>ltx_samplerate := rate\<rparr>)"
proof -
  have "own_attr E doc e a b = own_attr E doc d a b" for a b using assms(2) by (simp add: own_attr_def)
  moreover obtain b s where "own_attr E doc d ''sampling_frequency'' (stack_junk E) = Inr b" "cstr b = Inr s"
    and "d\<lparr>ltx_samplerate := safe_stod s\<rparr> = d\<lparr>ltx_samplerate := rate\<rparr>"
    using assms(1) by (auto simp: ltx_loadValues_def bindr_eq_Inr_iff)
  moreover from this(3) have "safe_stod s = rate" by (metis logic_tx.select_convs(3) logic_tx.surjective logic_tx.update_convs(3))
  ultimately show ?thesis by (simp add: ltx_loadValues_def)
qed

lemma ltx_push:
  assumes "ltx_loadValues E doc d = Inr (d\<lparr>ltx_samplerate := rate\<rparr>)" "cast_u32 (div_d rate_1E8 rate) = Inr ratio"
    and "0 < ratio" "length (ltx_samples d) * ratio < 2 ^ 32"
  shows "ltx_transfer_mem_to_dev E doc d n =
    Inr (d\<lparr>ltx_samplerate := rate, ltx_samples := concat (map (replicate ratio) (ltx_samples d)),
           ltx_reset_buffer := True\<rparr>, 0)"
proof (cases "ratio < 2")
  case True
  then have "ratio = 1" using assms(3) by simp
  then have "concat (map (replicate ratio) xs) = xs" for xs :: "u16 list" by (induction xs) simp_all
  then show ?thesis using assms True by (simp add: ltx_transfer_mem_to_dev_def ltx_resample_def)
next
  case False
  then show ?thesis using assms reserve_u16 [OF assms(4)]
    by (simp add: ltx_transfer_mem_to_dev_def ltx_resample_def digital_interpolation_def)
qed

text \<open>A read whose draw is answered from a stretched buffer returns the samples before the stretching.\<close>

lemma lrx_read_stretched:
  assumes "lrx_loadValues E doc rx = Inr (rx\<lparr>lrx_samplerate := rate\<rparr>)"
    and "cast_u32 (div_d rate_1E8 rate) = Inr ratio" "0 < ratio"
    and "lrx_connections rx = [(Some out, ch)]" "n * ratio + ratio < 2 ^ 32" "length pbuf = 2 * n" "xs \<noteq> []"
    and "draw out (n * ratio) w = Inr (cyc (concat (map (replicate ratio) xs)) 0 (n * ratio), w')"
  shows "lrx_read_dev E doc draw rx pbuf off (2 * n) w =
    Inr (rx\<lparr>lrx_samplerate := rate\<rparr>, encode16 (cyc xs 0 n), 2 * int n, w')"
proof -
  have ys: "cyc (concat (map (replicate ratio) xs)) 0 (n * ratio) = concat (map (replicate ratio) (cyc xs 0 n))"
    using cyc_stretched [OF assms(3,7), of n] by (simp add: mult.commute)
  have "digital_decimation (concat (map (replicate ratio) (cyc xs 0 n))) [] ratio = Inr (cyc xs 0 n)"
  proof (cases "ratio < 2")
    case True
    then have "ratio = 1" using assms(3) by simp
    moreover have "concat (map (replicate 1) zs) = zs" for zs :: "u16 list" by (induction zs) simp_all
    ultimately show ?thesis by (simp add: digital_decimation_def)
  next
    case False
    then show ?thesis using vote_walk_interpolated [of ratio "cyc xs 0 n"] assms(5)
      by (simp add: digital_decimation_def length_interpolated mult.commute del: length_concat)
  qed
  then have "lrx_resample E doc draw rx 0 (2 * n) w = Inr (rx\<lparr>lrx_samplerate := rate\<rparr>, cyc xs 0 n, w')"
    using assms(1,2,4,5,8) reserve_u16 [of n ratio] unfolding ys by (simp add: lrx_resample_def)
  then show ?thesis using assms(6) by (simp add: lrx_read_dev_def read_mem_def memcpy_def)
qed

section \<open>Properties\<close>

text \<open>
  C13: A draw from the pattern generator, in any state: with the read position
  inside the buffer it delivers the samples from there on, starting over at
  the end, and moves the position by as many samples, modulo the length; an
  empty buffer is filled with as many zeros as are asked for and stays so;
  with the position outside the buffer the draw ends in an uncaught
  exception.  The latter cannot happen in the states clients reach by
  opening, writing, pushing and closing it and by drawing from it, which are
  all its operations but \<open>cancel_buffer\<close>.
\<close>

theorem ltx_serves_every_draw:
  assumes "length (ltx_samples d) < 2 ^ 32" "0 < n" "n < 2 ^ 32"
  defines "xs \<equiv> (if ltx_samples d = [] then replicate n 0 else ltx_samples d)"
  shows "ltx_transfer_samples d n =
    (if ltx_current_index d < length xs
     then Inr (d\<lparr>ltx_samples := xs, ltx_current_index := (ltx_current_index d + n) mod length xs\<rparr>,
               cyc xs (ltx_current_index d) n)
     else Inl OutOfRange) \<and>
    (ltx_run d \<longrightarrow> ltx_current_index d < length xs)"
  using ltx_transfer_drawn [OF assms(1-3)] ltx_drawn_ok [OF ltx_run_ok assms(2)] unfolding ltx_drawn_def xs_def by blast

theorem ltx_serves_every_draw_witness:
  "\<exists>d d' d''. ltx_write_dev (M2kLogicTX ''tx'' 0 (Zero False)) [1, 0, 2, 0, 3, 0] 0 6 = Inr (d, 6) \<and>
     ltx_transfer_samples d 5 = Inr (d', [1, 2, 3, 1, 2]) \<and> ltx_current_index d' = 2 \<and>
     ltx_transfer_samples (fst (ltx_cancel_buffer d')) 2 = Inl OutOfRange"
proof -
  define d where "d = (M2kLogicTX ''tx'' 0 (Zero False))\<lparr>ltx_samples := [1, 2, 3]\<rparr>"
  define d' where "d' = d\<lparr>ltx_current_index := 2\<rparr>"
  have f: "ltx_samples d = [1, 2, 3]" "ltx_current_index d = 0" by (simp_all add: d_def M2kLogicTX_def)
  have "decode16 (6 div 2) [1, 0, 2, 0, 3, 0] = Inr [1, 2, 3]" by code_simp
  then have w: "ltx_write_dev (M2kLogicTX ''tx'' 0 (Zero False)) [1, 0, 2, 0, 3, 0] 0 6 = Inr (d, 6)"
    by (simp add: ltx_write_dev_def M2kLogicTX_def d_def)
  then have "ltx_run d" by (intro ltx_run.written [OF ltx_run.new])
  have "cyc [1, 2, 3] 0 5 = [1, 2, 3, 1, 2 :: u16]" by code_simp
  then have "ltx_transfer_samples d 5 = Inr (d', [1, 2, 3, 1, 2])"
    using ltx_serves_every_draw [of d 5] f by (simp add: d'_def d_def)
  moreover have "ltx_transfer_samples (fst (ltx_cancel_buffer d')) 2 = Inl OutOfRange"
    using ltx_serves_every_draw [of "fst (ltx_cancel_buffer d')" 2] by (simp add: ltx_cancel_buffer_def d'_def)
  ultimately show ?thesis using w by (auto simp: d'_def)
qed

text \<open>
  Cancelling the buffer clears the samples but leaves the read position: if
  it was not at the start, the next draw of no more samples than that position
  is answered by an uncaught exception instead of zeros.
\<close>

theorem ltx_cancel_breaks_draw:
  assumes "0 < n" "n \<le> ltx_current_index d"
  shows "ltx_transfer_samples (fst (ltx_cancel_buffer d)) n = Inl OutOfRange"
  using assms by (cases n) (simp_all add: ltx_transfer_samples_def ltx_cancel_buffer_def)

theorem ltx_cancel_breaks_draw_witness:
  "ltx_transfer_samples (fst (ltx_cancel_buffer ((M2kLogicTX ''tx'' 0 (Zero False))
     \<lparr>ltx_samples := [1, 2, 3], ltx_current_index := 2\<rparr>))) 2 = Inl OutOfRange"
  by (rule ltx_cancel_breaks_draw) simp_all

end
