(* ===== verification/M2k_Dac.thy ===== *)
theory M2k_Dac
  imports M2k_Logic
begin

text \<open>
  The signal generator of the ADALM2000, m2k_dac.cpp: samples written by the
  client are converted to volts, interpolated to the hardware rate when the
  buffer is pushed, and served to the connected ADC.
\<close>

section \<open>State and constructor\<close>

record dac = abstract_device +
  dac_cyclic :: bool
  dac_enable :: bool
  dac_current_index :: nat
  dac_samplerate :: double
  dac_oversampling_ratio :: nat
  dac_calib_vlsb :: double
  dac_filter_compensation_table :: "(double \<times> double) list"
  dac_samples :: "double list"
  dac_reset_buffer :: bool

definition dac_table :: "(double \<times> double) list" where
  "dac_table =
     [(fl 75000000, fl 1), (fl 7500000, fl (1525879 / 1000000)), (fl 750000, fl (1164153 / 1000000)),
      (fl 75000, fl (1776357 / 1000000)), (fl 7500, fl (1355253 / 1000000)), (fl 750, fl (1033976 / 1000000))]"

text \<open>Uninitialised: the descriptor, \<open>m_cyclic\<close>, \<open>m_enable\<close> and the two rates.\<close>

definition M2kDAC :: "string \<Rightarrow> int \<Rightarrow> bool \<Rightarrow> bool \<Rightarrow> double \<Rightarrow> nat \<Rightarrow> dac" where
  "M2kDAC device_id fd0 cyclic0 enable0 rate0 ratio0 =
     \<lparr>m_device_id = device_id @ [NUL], m_fd = fd0, dac_cyclic = cyclic0, dac_enable = enable0,
      dac_current_index = 0, dac_samplerate = rate0, dac_oversampling_ratio = ratio0,
      dac_calib_vlsb = div_d (fl 10) (fl 4095), dac_filter_compensation_table = dac_table,
      dac_samples = [], dac_reset_buffer = True\<rparr>"

section \<open>Operations\<close>

definition dac_loadCalibValues :: "env \<Rightarrow> xdoc option \<Rightarrow> dac \<Rightarrow> dac result" where
  "dac_loadCalibValues E doc d =
     bindr (own_attr E doc d ''sampling_frequency'' (stack_junk E)) (\<lambda>tmp_attr.
     bindr (cstr tmp_attr) (\<lambda>s.
     bindr (own_attr E doc d ''oversampling_ratio'' tmp_attr) (\<lambda>tmp_attr.
     bindr (cstr tmp_attr) (\<lambda>t.
     bindr (stoi t) (\<lambda>i.
       Inr (d\<lparr>dac_samplerate := safe_stod s, dac_oversampling_ratio := nat (i mod 2 ^ 32)\<rparr>))))))"

definition dac_open_dev :: "env \<Rightarrow> xdoc option \<Rightarrow> dac \<Rightarrow> nat \<Rightarrow> 32 word \<Rightarrow> bool \<Rightarrow> (dac \<times> int) result" where
  "dac_open_dev E doc d sample_size msk cyclic =
     bindr (dac_loadCalibValues E doc d) (\<lambda>d.
       Inr (d\<lparr>dac_cyclic := cyclic, dac_enable := (msk \<noteq> 0)\<rparr>, 0))"

definition dac_close_dev :: "dac \<Rightarrow> dac \<times> int" where
  "dac_close_dev d = (d\<lparr>dac_samples := []\<rparr>, 0)"

definition dac_set_buffers_count :: "dac \<Rightarrow> 32 word \<Rightarrow> dac \<times> int" where
  "dac_set_buffers_count d buffers_count = (d, 0)"

definition dac_get_mask :: "dac \<Rightarrow> 32 word \<Rightarrow> 32 word \<times> int" where
  "dac_get_mask d msk = (if dac_enable d then 1 else 0, 0)"

definition dac_getFilterCompensation :: "dac \<Rightarrow> double result" where
  "dac_getFilterCompensation d =
     (case map_of (dac_filter_compensation_table d) (dac_samplerate d) of
        None \<Rightarrow> Inl OutOfRange | Some c \<Rightarrow> Inr c)"

definition dac_convertRawToVolts :: "dac \<Rightarrow> u16 \<Rightarrow> double result" where
  "dac_convertRawToVolts d raw =
     bindr (dac_getFilterCompensation d) (\<lambda>filterCompensation.
       Inr (neg_d (mul_d (mul_d (add_d (of_int_d (sint raw div 16)) (fl (1 / 2))) filterCompensation)
                         (dac_calib_vlsb d))))"

fun dac_convert_all :: "dac \<Rightarrow> u16 list \<Rightarrow> double list result" where
  "dac_convert_all d [] = Inr []"
| "dac_convert_all d (w # ws) =
     bindr (dac_convertRawToVolts d w) (\<lambda>v. bindr (dac_convert_all d ws) (\<lambda>vs. Inr (v # vs)))"

definition dac_write_dev :: "dac \<Rightarrow> byte list \<Rightarrow> nat \<Rightarrow> nat \<Rightarrow> (dac \<times> int) result" where
  "dac_write_dev d buf offset bytes_count =
     (if \<not> dac_enable d then Inr (d, 0)
      else
        let d = (if dac_reset_buffer d
                 then d\<lparr>dac_samples := [], dac_current_index := 0, dac_reset_buffer := False\<rparr> else d)
        in bindr (decode16 (bytes_count div 2) buf) (\<lambda>ws.
           bindr (dac_convert_all d ws) (\<lambda>vs.
             Inr (d\<lparr>dac_samples := dac_samples d @ vs\<rparr>, int bytes_count))))"

definition dac_resample :: "env \<Rightarrow> xdoc option \<Rightarrow> dac \<Rightarrow> (dac \<times> double list) result" where
  "dac_resample E doc d =
     bindr (dac_loadCalibValues E doc d) (\<lambda>d.
     bindr (cast_u32 (div_d rate_75E6
              (div_d (dac_samplerate d) (of_int_d (int (dac_oversampling_ratio d)))))) (\<lambda>ratio.
       if ratio < 2 then Inr (d, dac_samples d)
       else bindr (analogical_interpolation (dac_samples d) [] ratio) (\<lambda>samples. Inr (d, samples))))"

definition dac_transfer_mem_to_dev :: "env \<Rightarrow> xdoc option \<Rightarrow> dac \<Rightarrow> nat \<Rightarrow> (dac \<times> int) result" where
  "dac_transfer_mem_to_dev E doc d bytes_count =
     bindr (dac_resample E doc d) (\<lambda>(d, samples).
       Inr (d\<lparr>dac_samples := samples, dac_reset_buffer := True\<rparr>, 0))"

text \<open>
  The copy loop.  \<open>m_samples.size() - m_current_index\<close> is computed in
  \<open>size_t\<close>: with the index beyond the end it wraps, and the copy starts
  outside the vector.
\<close>

function dac_drain :: "double list \<Rightarrow> nat \<Rightarrow> nat \<Rightarrow> (double list \<times> nat) result" where
  "dac_drain samples index count =
     (if count = 0 then Inr ([], index)
      else if length samples < index then Inl OutOfBounds
      else if length samples mod 2 ^ 32 = 0 then Inl DivByZero
      else
        let remaining = min (length samples - index) count;
            index' = (index + remaining mod 2 ^ 32) mod 2 ^ 32 mod (length samples mod 2 ^ 32)
        in bindr (dac_drain samples index' (count - remaining)) (\<lambda>(ys, k).
             Inr (take remaining (drop index samples) @ ys, k)))"
  by pat_completeness auto
termination
proof (relation "measure (\<lambda>(xs, i, n). 2 * n + (if i = length xs then 1 else 0))", goal_cases)
  case (2 samples index count x xa)
  have "xa < length samples mod 2 ^ 32" using 2 by simp
  also have "\<dots> \<le> length samples" by (rule mod_less_eq_dividend)
  finally have "xa \<noteq> length samples" by simp
  then show ?case using 2 by (auto simp: min_def)
qed auto

declare dac_drain.simps [simp del]

definition dac_transfer_samples :: "dac \<Rightarrow> nat \<Rightarrow> (dac \<times> double list) result" where
  "dac_transfer_samples d samples_count =
     (let d = (if dac_samples d = [] then d\<lparr>dac_samples := replicate samples_count (Zero False)\<rparr> else d)
      in bindr (dac_drain (dac_samples d) (dac_current_index d) samples_count) (\<lambda>(ys, k).
           Inr (d\<lparr>dac_current_index := k\<rparr>, ys)))"

definition dac_cancel_buffer :: "dac \<Rightarrow> dac \<times> int" where
  "dac_cancel_buffer d = (d\<lparr>dac_samples := [], dac_current_index := 0\<rparr>, 0)"

section \<open>The generator keeps the contract of a cyclic source\<close>

interpretation converter: cyclic_source dac_drain
proof
  fix xs :: "double list" and i n :: nat
  show "in_buffer xs i \<Longrightarrow> dac_drain xs i n = Inr (cyc xs i n, (i + n) mod length xs)"
  proof (induction n arbitrary: i rule: less_induct)
    case (less n)
    define r where "r = min (length xs - i) n"
    have i: "i < length xs" "length xs < 2 ^ 32" using less.prems by (simp_all add: in_buffer_def)
    have r: "i + r \<le> length xs" using i(1) unfolding r_def by linarith
    then have lt: "i + r < 2 ^ 32" using i(2) by (rule le_less_trans)
    have "r < 2 ^ 32" using le_add2 lt by (rule le_less_trans)
    with lt have nx: "(i + r mod 2 ^ 32) mod 2 ^ 32 mod (length xs mod 2 ^ 32) = (i + r) mod length xs"
      using i(2) by (simp only: mod_less)
    show ?case
    proof (cases "n = 0")
      case True
      then show ?thesis using i by (simp add: dac_drain.simps cyc_def)
    next
      case False
      have b: "in_buffer xs ((i + r) mod length xs)" by (rule in_buffer_mod [OF less.prems])
      have rn: "r + (n - r) = n" by (simp add: r_def)
      have "n - r < n" using False i(1) by (simp add: r_def)
      then have "dac_drain xs ((i + r) mod length xs) (n - r)
          = Inr (cyc xs (i + r) (n - r), (i + r + (n - r)) mod length xs)"
        using less.IH [OF _ b] by (simp add: cyc_mod mod_add_left_eq)
      moreover have "take r (drop i xs) @ cyc xs (i + r) (n - r) = cyc xs i n"
        using cyc_append [of xs i r "n - r"] by (simp only: cyc_chunk [OF r] rn)
      moreover have "i + r + (n - r) = i + n" "xs \<noteq> []" using rn i(1) by auto
      ultimately show ?thesis using False i nx
        by (subst dac_drain.simps) (simp add: Let_def r_def [symmetric])
    qed
  qed
qed

definition dac_ok :: "dac \<Rightarrow> bool" where
  "dac_ok d \<longleftrightarrow> (if dac_samples d = [] then dac_current_index d = 0
     else dac_current_index d < length (dac_samples d))"

lemma dac_new_ok: "dac_ok (M2kDAC i fd c e r k)"
  by (simp add: dac_ok_def M2kDAC_def)

lemma dac_loadCalibValues_frame:
  assumes "dac_loadCalibValues E doc d = Inr d'"
  shows "dac_samples d' = dac_samples d \<and> dac_current_index d' = dac_current_index d \<and>
    dac_reset_buffer d' = dac_reset_buffer d \<and> dac_enable d' = dac_enable d"
  using assms by (auto simp: dac_loadCalibValues_def bindr_eq_Inr_iff)

lemma dac_open_ok: "dac_ok d \<Longrightarrow> dac_open_dev E doc d s m c = Inr (d', r) \<Longrightarrow> dac_ok d'"
  using dac_loadCalibValues_frame [of E doc d]
  by (auto simp: dac_open_dev_def dac_ok_def bindr_eq_Inr_iff)

lemma dac_write_ok: "dac_ok d \<Longrightarrow> dac_write_dev d buf off n = Inr (d', r) \<Longrightarrow> dac_ok d'"
  by (auto simp: dac_write_dev_def dac_ok_def Let_def bindr_eq_Inr_iff split: if_splits)

lemma dac_cancel_ok: "dac_ok (fst (dac_cancel_buffer d))"
  by (simp add: dac_cancel_buffer_def dac_ok_def)

lemma dac_resample_samples:
  assumes "dac_resample E doc d = Inr (d', ys)"
  shows "dac_samples d' = dac_samples d \<and> dac_current_index d' = dac_current_index d \<and>
    length (dac_samples d) \<le> length ys \<and> (dac_samples d = [] \<longrightarrow> ys = [])"
proof -
  obtain d1 ratio where d1: "dac_loadCalibValues E doc d = Inr d1"
    and y: "(if ratio < 2 then Inr (d1, dac_samples d1)
       else bindr (analogical_interpolation (dac_samples d1) [] ratio) (\<lambda>s. Inr (d1, s))) = Inr (d', ys)"
    using assms by (auto simp: dac_resample_def bindr_eq_Inr_iff)
  note f = dac_loadCalibValues_frame [OF d1]
  show ?thesis
  proof (cases "ratio < 2")
    case True
    then show ?thesis using y f by simp
  next
    case False
    then have ys: "ys = interpolate_from ratio (dac_samples d)" "d' = d1"
      using y f by (auto simp: analogical_interpolation_def Let_def bindr_eq_Inr_iff split: if_splits)
    have "length (dac_samples d) \<le> (length (dac_samples d) - 1) * (ratio + 1) + 1" if "dac_samples d \<noteq> []"
      using that by (cases "dac_samples d") auto
    then show ?thesis using f ys length_interpolate_from [of "dac_samples d" ratio]
      by (cases "dac_samples d = []") auto
  qed
qed

lemma dac_push_ok: "dac_ok d \<Longrightarrow> dac_transfer_mem_to_dev E doc d n = Inr (d', r) \<Longrightarrow> dac_ok d'"
  by (auto simp: dac_transfer_mem_to_dev_def dac_ok_def bindr_eq_Inr_iff dest!: dac_resample_samples
      split: if_splits)

text \<open>What a draw does in any state, as for the pattern generator; the position may also be at the end.\<close>

definition dac_drawn :: "dac \<Rightarrow> nat \<Rightarrow> double list" where
  "dac_drawn d n = (if dac_samples d = [] then replicate n (Zero False) else dac_samples d)"

lemma dac_drawn_ok: "dac_ok d \<Longrightarrow> 0 < n \<Longrightarrow> dac_current_index d < length (dac_drawn d n)"
  by (auto simp: dac_ok_def dac_drawn_def)

lemma dac_drain_at_end:
  assumes "0 < n" "xs \<noteq> []" "length xs < 2 ^ 32"
  shows "dac_drain xs (length xs) n = Inr (cyc xs (length xs) n, (length xs + n) mod length xs)"
proof -
  have "in_buffer xs 0" using assms(2,3) by (simp add: in_buffer_def)
  then have "dac_drain xs 0 n = Inr (cyc xs 0 n, n mod length xs)" by (simp add: converter.drain_cyc)
  moreover have "cyc xs (length xs) n = cyc xs 0 n" using cyc_mod [of xs "length xs" n] by simp
  ultimately show ?thesis using assms by (subst dac_drain.simps) (simp add: Let_def)
qed

lemma dac_transfer_drawn:
  assumes "length (dac_samples d) < 2 ^ 32" "0 < n" "n < 2 ^ 32"
  defines "xs \<equiv> dac_drawn d n"
  shows "dac_transfer_samples d n =
    (if dac_current_index d \<le> length xs
     then Inr (d\<lparr>dac_samples := xs, dac_current_index := (dac_current_index d + n) mod length xs\<rparr>,
               cyc xs (dac_current_index d) n)
     else Inl OutOfBounds)"
proof -
  have t: "dac_transfer_samples d n =
      bindr (dac_drain xs (dac_current_index d) n) (\<lambda>(ys, k). Inr (d\<lparr>dac_samples := xs, dac_current_index := k\<rparr>, ys))"
    by (cases d) (simp add: dac_transfer_samples_def xs_def dac_drawn_def Let_def)
  have len: "length xs < 2 ^ 32" "xs \<noteq> []" using assms by (auto simp: xs_def dac_drawn_def)
  consider "dac_current_index d < length xs" | "dac_current_index d = length xs" | "length xs < dac_current_index d"
    by linarith
  then show ?thesis
  proof cases
    case 1
    then show ?thesis using t len converter.drain_cyc [of xs "dac_current_index d" n] by (simp add: in_buffer_def)
  next
    case 2
    then show ?thesis using t dac_drain_at_end [OF assms(2) len(2,1)] by simp
  next
    case 3
    then have "dac_drain xs (dac_current_index d) n = Inl OutOfBounds" using assms(2) by (subst dac_drain.simps) simp
    then show ?thesis using t 3 by simp
  qed
qed

section \<open>Runs of the signal generator\<close>

lemma dac_drain_index:
  "dac_drain xs i n = Inr (ys, k) \<Longrightarrow> k < length xs \<or> (n = 0 \<and> k = i)"
proof (induction n arbitrary: i ys rule: less_induct)
  case (less n)
  show ?case
  proof (cases "n = 0")
    case True
    then show ?thesis using less.prems by (simp add: dac_drain.simps)
  next
    case False
    define m where "m = min (length xs - i) n"
    define j where "j = (i + m mod 2 ^ 32) mod 2 ^ 32 mod (length xs mod 2 ^ 32)"
    have ne: "length xs mod 2 ^ 32 \<noteq> 0" "i \<le> length xs"
      using less.prems False by (auto simp: dac_drain.simps [of xs i n] split: if_splits)
    then obtain zs where zs: "dac_drain xs j (n - m) = Inr (zs, k)"
      using less.prems False
      by (auto simp: dac_drain.simps [of xs i n] m_def j_def Let_def bindr_eq_Inr_iff)
    have j: "j < length xs"
    proof -
      have "j < length xs mod 2 ^ 32" using ne(1) by (simp add: j_def)
      also have "\<dots> \<le> length xs" by (rule mod_less_eq_dividend)
      finally show ?thesis .
    qed
    show ?thesis
    proof (cases "m = 0")
      case m: True
      then have "i = length xs" using False ne(2) by (auto simp: m_def min_def split: if_splits)
      define m' where "m' = min (length xs - j) n"
      have "0 < m'" using j False by (simp add: m'_def)
      define j' where "j' = (j + m' mod 2 ^ 32) mod 2 ^ 32 mod (length xs mod 2 ^ 32)"
      obtain vs where "dac_drain xs j' (n - m') = Inr (vs, k)"
        using zs m j False ne(1)
        by (auto simp: dac_drain.simps [of xs j n] m'_def j'_def Let_def bindr_eq_Inr_iff)
      then have "k < length xs \<or> n - m' = 0 \<and> k = j'" using less.IH [of "n - m'"] \<open>0 < m'\<close> False by simp
      moreover have "j' < length xs"
        using ne(1) mod_less_eq_dividend [of "length xs" "2 ^ 32"]
        by (metis j'_def le_trans linorder_not_less mod_less_divisor neq0_conv)
      ultimately show ?thesis by auto
    next
      case False
      then show ?thesis using less.IH [OF _ zs] j \<open>n \<noteq> 0\<close> by auto
    qed
  qed
qed

lemma dac_draw_ok:
  assumes "dac_ok d" "dac_transfer_samples d n = Inr (d', ys)"
  shows "dac_ok d'"
proof -
  define d1 where "d1 = (if dac_samples d = [] then d\<lparr>dac_samples := replicate n (Zero False)\<rparr> else d)"
  obtain k where k: "dac_drain (dac_samples d1) (dac_current_index d1) n = Inr (ys, k)"
    and d': "d' = d1\<lparr>dac_current_index := k\<rparr>"
    using assms(2) by (auto simp: dac_transfer_samples_def d1_def [symmetric] Let_def bindr_eq_Inr_iff)
  have "dac_samples d1 = [] \<longrightarrow> n = 0 \<and> dac_current_index d1 = 0"
    and "dac_samples d1 \<noteq> [] \<longrightarrow> dac_current_index d1 < length (dac_samples d1)"
    using assms(1) by (auto simp: d1_def dac_ok_def split: if_splits)
  then show ?thesis using d' dac_drain_index [OF k] by (auto simp: dac_ok_def)
qed

text \<open>
  The states a signal generator can be in as long as no client closes it:
  unlike \<open>close_dev\<close>, cancelling the buffer resets the read position.
\<close>

inductive dac_run :: "dac \<Rightarrow> bool" where
  new: "dac_run (M2kDAC i fd c e rate k)"
| opened: "dac_run d \<Longrightarrow> dac_open_dev E doc (setDescriptor fd d) n msk cyclic = Inr (d', r) \<Longrightarrow> dac_run d'"
| cancelled: "dac_run d \<Longrightarrow> dac_run (fst (dac_cancel_buffer d))"
| written: "dac_run d \<Longrightarrow> dac_write_dev d buf off n = Inr (d', r) \<Longrightarrow> dac_run d'"
| pushed: "dac_run d \<Longrightarrow> dac_transfer_mem_to_dev E doc d n = Inr (d', r) \<Longrightarrow> dac_run d'"
| drawn: "dac_run d \<Longrightarrow> dac_transfer_samples d n = Inr (d', ys) \<Longrightarrow> dac_run d'"

lemma dac_run_ok: "dac_run d \<Longrightarrow> dac_ok d"
proof (induction rule: dac_run.induct)
  case (opened d E doc fd n msk cyclic d' r)
  have "dac_ok (setDescriptor fd d)" using opened(3) by (simp add: dac_ok_def setDescriptor_def)
  then show ?case using opened(2) by (rule dac_open_ok)
qed (auto intro: dac_new_ok dac_write_ok dac_push_ok dac_draw_ok dac_cancel_ok)

section \<open>Properties\<close>

text \<open>
  C14: A draw from the signal generator, in any state: the copy loop, which
  takes as large chunks as it can, delivers the buffered samples from the
  read position on, starting over at the end, and moves the position by as
  many samples, modulo the length; an empty buffer is filled with as many
  zeros as are asked for and stays so; with the position beyond the end the
  copy starts outside the buffer.  The latter cannot happen in the states
  clients reach by opening, writing, pushing and cancelling it and by drawing
  from it, which are all its operations but \<open>close_dev\<close>.
\<close>

theorem dac_serves_every_draw:
  assumes "length (dac_samples d) < 2 ^ 32" "0 < n" "n < 2 ^ 32"
  defines "xs \<equiv> (if dac_samples d = [] then replicate n (Zero False) else dac_samples d)"
  shows "dac_transfer_samples d n =
    (if dac_current_index d \<le> length xs
     then Inr (d\<lparr>dac_samples := xs, dac_current_index := (dac_current_index d + n) mod length xs\<rparr>,
               cyc xs (dac_current_index d) n)
     else Inl OutOfBounds) \<and>
    (dac_run d \<longrightarrow> dac_current_index d < length xs)"
  using dac_transfer_drawn [OF assms(1-3)] dac_drawn_ok [OF dac_run_ok assms(2)] unfolding dac_drawn_def xs_def by blast

theorem dac_serves_every_draw_witness:
  "\<exists>d' d''. dac_transfer_samples ((M2kDAC ''dac'' 0 False True (Zero False) 1)\<lparr>dac_samples := [Fin 1, Fin 2, Fin 3]\<rparr>) 5
       = Inr (d', [Fin 1, Fin 2, Fin 3, Fin 1, Fin 2]) \<and> dac_current_index d' = 2 \<and>
     dac_transfer_samples (fst (dac_close_dev d')) 1 = Inl OutOfBounds"
proof -
  define d where "d = (M2kDAC ''dac'' 0 False True (Zero False) 1)\<lparr>dac_samples := [Fin 1, Fin 2, Fin 3]\<rparr>"
  define d' where "d' = d\<lparr>dac_current_index := 2\<rparr>"
  have f: "dac_samples d = [Fin 1, Fin 2, Fin 3]" "dac_current_index d = 0" by (simp_all add: d_def M2kDAC_def)
  have "cyc [Fin 1, Fin 2, Fin 3] 0 5 = [Fin 1, Fin 2, Fin 3, Fin 1, Fin 2]" by code_simp
  then have "dac_transfer_samples d 5 = Inr (d', [Fin 1, Fin 2, Fin 3, Fin 1, Fin 2])"
    using dac_serves_every_draw [of d 5] f by (simp add: d'_def d_def)
  moreover have "dac_transfer_samples (fst (dac_close_dev d')) 1 = Inl OutOfBounds"
    using dac_serves_every_draw [of "fst (dac_close_dev d')" 1] by (simp add: dac_close_dev_def d'_def)
  ultimately show ?thesis unfolding d_def [symmetric] by (auto simp: d'_def)
qed

text \<open>
  A draw may be cut anywhere: with samples in the buffer, drawing \<open>m\<close> and
  then \<open>n\<close> samples delivers the samples of one draw of \<open>m + n\<close> and leaves the
  generator in the same state.
\<close>

theorem dac_draws_join:
  assumes "dac_run d" "dac_samples d \<noteq> []" "length (dac_samples d) < 2 ^ 32"
  shows "dac_transfer_samples d (m + n) =
    bindr (dac_transfer_samples d m) (\<lambda>(d1, xs).
    bindr (dac_transfer_samples d1 n) (\<lambda>(d2, ys). Inr (d2, xs @ ys)))"
proof -
  have b: "in_buffer (dac_samples d) (dac_current_index d)"
    using dac_run_ok [OF assms(1)] assms(2,3) by (simp add: dac_ok_def in_buffer_def)
  then have "in_buffer (dac_samples d) ((dac_current_index d + m) mod length (dac_samples d))"
    by (rule in_buffer_mod)
  then show ?thesis using assms(2) converter.drain_split [OF b, of m n] b
    by (simp add: dac_transfer_samples_def converter.drain_cyc)
qed

theorem dac_draws_join_witness:
  "\<exists>d. dac_run d \<and> dac_transfer_samples d (2 + 3) =
    bindr (dac_transfer_samples d 2) (\<lambda>(d1, xs).
    bindr (dac_transfer_samples d1 3) (\<lambda>(d2, ys). Inr (d2, xs @ ys)))"
proof -
  obtain d where d: "dac_transfer_samples (M2kDAC ''dac'' 0 False True (Zero False) 1) 4 = Inr (d, replicate 4 (Zero False))"
    and "dac_samples d = replicate 4 (Zero False)"
    using converter.drain_zeros [of 4 "Zero False"] by (simp add: dac_transfer_samples_def M2kDAC_def)
  then show ?thesis using dac_draws_join [of d 2 3] dac_run.drawn [OF dac_run.new d] by auto
qed

text \<open>
  Closing the generator clears the samples but leaves the read position:
  the next draw of fewer samples than that position copies from outside the
  new buffer.
\<close>

theorem dac_close_breaks_draw:
  assumes "0 < n" "n < dac_current_index d"
  shows "dac_transfer_samples (fst (dac_close_dev d)) n = Inl OutOfBounds"
  using assms by (simp add: dac_transfer_samples_def dac_close_dev_def dac_drain.simps)

theorem dac_close_breaks_draw_witness:
  "dac_transfer_samples (fst (dac_close_dev ((M2kDAC ''dac'' 0 False True (Zero False) 1)
     \<lparr>dac_samples := [Fin 1, Fin 2, Fin 3], dac_current_index := 2\<rparr>))) 1 = Inl OutOfBounds"
  by (rule dac_close_breaks_draw) simp_all

text \<open>
  The rates the emulated generator offers: each is read from its attribute
  text as a key of the filter table, and the interpolation ratio to the
  hardware rate comes out as the exact power of ten.
\<close>

theorem dac_rates:
  "map (\<lambda>t. cast_u32 (div_d rate_75E6 (div_d (safe_stod t) (of_int_d 1))))
       [''75000000'', ''7500000'', ''750000'', ''75000'', ''7500'', ''750'']
     = [Inr 1, Inr 10, Inr 100, Inr 1000, Inr 10000, Inr 100000] \<and>
   map safe_stod [''75000000'', ''7500000'', ''750000'', ''75000'', ''7500'', ''750''] = map fst dac_table"
proof -
  let ?rates = "[''75000000'', ''7500000'', ''750000'', ''75000'', ''7500'', ''750'']"
  have t: "map safe_stod ?rates = map Fin [75000000, 7500000, 750000, 75000, 7500, 750]" by code_simp
  then have "map safe_stod ?rates = map fst dac_table" by (simp add: dac_table_def fl_numeral)
  moreover have "map (\<lambda>t. cast_u32 (div_d rate_75E6 (div_d (safe_stod t) (of_int_d 1)))) ?rates
      = [Inr 1, Inr 10, Inr 100, Inr 1000, Inr 10000, Inr 100000]"
    using t by (simp add: rate_75E6_def of_int_d_def fl_numeral cast_u32_numeral)
  ultimately show ?thesis by simp
qed

end
