(* ===== verification/M2k_Adc.thy ===== *)
theory M2k_Adc
  imports M2k_Dac
begin

text \<open>
  The oscilloscope of the ADALM2000, m2k_adc.cpp: a read draws the samples
  of both channels from the connected generators, decimates them to the rate
  the client chose, converts volts to raw values and interleaves the two
  channels.  The two drawing threads touch one generator each; they run one
  after the other here (\<open>Devices\<close> shows that their order does not matter).
\<close>

definition M2K_ADC_CHANNELS :: nat where
  "M2K_ADC_CHANNELS = 2"

definition M2K_ADC_SAMPLE_SIZE :: nat where
  "M2K_ADC_SAMPLE_SIZE = 2"

section \<open>State and constructor\<close>

record adc = abstract_device +
  adc_connections :: "connection list"
  adc_samplerate :: double
  adc_oversampling_ratio :: nat
  adc_range :: "char list list"
  adc_hw_offset :: "double list"
  adc_filter_compensation_table :: "(double \<times> double) list"

definition adc_table :: "(double \<times> double) list" where
  "adc_table =
     [(fl 100000000, fl 1), (fl 10000000, fl (105 / 100)), (fl 1000000, fl (110 / 100)),
      (fl 100000, fl (115 / 100)), (fl 10000, fl (120 / 100)), (fl 1000, fl (126 / 100))]"

definition M2kADC :: "env \<Rightarrow> string \<Rightarrow> int \<Rightarrow> double \<Rightarrow> nat \<Rightarrow> adc" where
  "M2kADC E device_id fd0 rate0 ratio0 =
     \<lparr>m_device_id = device_id @ [NUL], m_fd = fd0,
      adc_connections = replicate M2K_ADC_CHANNELS (None, 0),
      adc_samplerate = rate0, adc_oversampling_ratio = ratio0,
      adc_range = [replicate (IIOD_BUFFER_SIZE E) NUL, replicate (IIOD_BUFFER_SIZE E) NUL],
      adc_hw_offset = replicate M2K_ADC_CHANNELS (Zero False),
      adc_filter_compensation_table = adc_table\<rparr>"

section \<open>Operations\<close>

definition adc_open_dev :: "adc \<Rightarrow> nat \<Rightarrow> 32 word \<Rightarrow> bool \<Rightarrow> adc \<times> int" where
  "adc_open_dev d sample_size msk cyclic = (d, 0)"

definition adc_close_dev :: "adc \<Rightarrow> adc \<times> int" where
  "adc_close_dev d = (d, 0)"

definition adc_set_buffers_count :: "adc \<Rightarrow> 32 word \<Rightarrow> adc \<times> int" where
  "adc_set_buffers_count d buffers_count = (d, 0)"

definition adc_get_mask :: "adc \<Rightarrow> 32 word \<Rightarrow> 32 word \<times> int" where
  "adc_get_mask d msk = (3, 0)"

definition adc_connectDevice :: "adc \<Rightarrow> nat \<Rightarrow> nat \<Rightarrow> nat \<Rightarrow> adc result" where
  "adc_connectDevice d channel_in deviceOut channel_out =
     (if channel_in < length (adc_connections d)
      then Inr (d\<lparr>adc_connections := (adc_connections d)[channel_in := (Some deviceOut, channel_out)]\<rparr>)
      else Inl OutOfRange)"

text \<open>\<open>std::vector::at\<close>.\<close>

definition vec_at :: "'a list \<Rightarrow> nat \<Rightarrow> 'a result" where
  "vec_at xs i = (if i < length xs then Inr (xs ! i) else Inl OutOfRange)"

definition adc_getCalibGain :: "adc \<Rightarrow> nat \<Rightarrow> double result" where
  "adc_getCalibGain d channel =
     bindr (vec_at (adc_range d) channel) (\<lambda>range.
     bindr (strncmp_mem range ''high'') (\<lambda>high.
       if high then Inr (fl (21229 / 100000))
       else bindr (strncmp_mem range ''low'') (\<lambda>low.
         if low then Inr (fl (2017 / 100000)) else Inr (Zero False))))"

definition adc_getFilterCompensation :: "adc \<Rightarrow> double" where
  "adc_getFilterCompensation d =
     (case map_of (adc_filter_compensation_table d) (adc_samplerate d) of
        None \<Rightarrow> Zero False | Some c \<Rightarrow> c)"

definition adc_convertVoltToRaw :: "adc \<Rightarrow> double \<Rightarrow> nat \<Rightarrow> u16 result" where
  "adc_convertVoltToRaw d voltage channel =
     bindr (adc_getCalibGain d channel) (\<lambda>hw_gain.
     bindr (vec_at (adc_hw_offset d) channel) (\<lambda>hw_offset.
       let correctionGain = fl 1;
           filterCompensation = adc_getFilterCompensation d;
           offset = neg_d hw_offset
       in bindr (cast_i16
            (div_d (mul_d (div_d (sub_d voltage offset) (mul_d correctionGain filterCompensation))
                          (mul_d (mul_d (fl 2048) (fl (13 / 10))) hw_gain))
                   (fl (78 / 100)))) (\<lambda>i. Inr (word_of_int i))))"

definition adc_convertRawToVoltsVerticalOffset :: "adc \<Rightarrow> int \<Rightarrow> nat \<Rightarrow> double result" where
  "adc_convertRawToVoltsVerticalOffset d raw channel =
     bindr (adc_getCalibGain d channel) (\<lambda>hw_range_gain.
       Inr (div_d (mul_d (mul_d (of_int_d raw) (fl (2693 / 1000))) (fl (12 / 10)))
                  (mul_d (mul_d (fl 4096) hw_range_gain) (fl (13 / 10)))))"

text \<open>Read a channel attribute of a device into \<open>buf\<close>.\<close>

definition chn_attr ::
  "env \<Rightarrow> xdoc option \<Rightarrow> string \<Rightarrow> string \<Rightarrow> bool \<Rightarrow> string \<Rightarrow> char list \<Rightarrow> char list result" where
  "chn_attr E doc device_id chn ch_out attr buf =
     bindr (read_channel_attr (env_xml E) doc device_id chn ch_out attr buf (IIOD_BUFFER_SIZE E))
       (\<lambda>(buf', ret). Inr buf')"

text \<open>The offset of one channel: its vertical offset less its bias, in volts.\<close>

definition adc_load_offset ::
  "env \<Rightarrow> xdoc option \<Rightarrow> nat \<Rightarrow> string \<Rightarrow> string \<Rightarrow> adc \<times> char list \<Rightarrow> (adc \<times> char list) result" where
  "adc_load_offset E doc channel voffset bias = (\<lambda>(d, tmp_attr).
     bindr (chn_attr E doc ''iio:device2'' voffset True ''raw'' tmp_attr) (\<lambda>tmp_attr.
     bindr (cstr tmp_attr) (\<lambda>s.
     bindr (chn_attr E doc ''iio:device0'' bias False ''calibbias'' tmp_attr) (\<lambda>tmp_attr.
     bindr (cstr tmp_attr) (\<lambda>t.
     bindr (cast_i16 (sub_d (safe_stod s) (safe_stod t))) (\<lambda>raw.
     bindr (adc_convertRawToVoltsVerticalOffset d raw channel) (\<lambda>v.
       if channel < length (adc_hw_offset d)
       then Inr (d\<lparr>adc_hw_offset := (adc_hw_offset d)[channel := v]\<rparr>, tmp_attr)
       else Inl OutOfRange)))))))"

definition adc_load_range :: "env \<Rightarrow> xdoc option \<Rightarrow> nat \<Rightarrow> string \<Rightarrow> adc \<Rightarrow> adc result" where
  "adc_load_range E doc channel chn d =
     bindr (vec_at (adc_range d) channel) (\<lambda>range.
     bindr (chn_attr E doc ''iio:device11'' chn False ''gain'' range) (\<lambda>range.
       Inr (d\<lparr>adc_range := (adc_range d)[channel := range]\<rparr>)))"

text \<open>\<open>read_device_attr\<close> with the literal id \<open>iio:device0\<close>.\<close>

definition adc_own_attr :: "env \<Rightarrow> xdoc option \<Rightarrow> string \<Rightarrow> char list \<Rightarrow> char list result" where
  "adc_own_attr E doc attr buf =
     bindr (read_device_attr (env_xml E) doc ''iio:device0'' attr buf (IIOD_BUFFER_SIZE E)
              IIO_ATTR_TYPE_DEVICE) (\<lambda>(buf', ret). Inr buf')"

definition adc_loadCalibValues :: "env \<Rightarrow> xdoc option \<Rightarrow> adc \<Rightarrow> adc result" where
  "adc_loadCalibValues E doc d =
     bindr (adc_load_range E doc 0 ''voltage0'' d) (\<lambda>d.
     bindr (adc_load_range E doc 1 ''voltage1'' d) (\<lambda>d.
     bindr (adc_load_offset E doc 0 ''voltage2'' ''voltage0'' (d, stack_junk E)) (\<lambda>st.
     bindr (adc_load_offset E doc 1 ''voltage3'' ''voltage1'' st) (\<lambda>(d, tmp_attr).
     bindr (adc_own_attr E doc ''sampling_frequency'' tmp_attr) (\<lambda>tmp_attr.
     bindr (cstr tmp_attr) (\<lambda>s.
     bindr (adc_own_attr E doc ''oversampling_ratio'' tmp_attr) (\<lambda>tmp_attr.
     bindr (cstr tmp_attr) (\<lambda>t.
     bindr (stoi t) (\<lambda>i.
       Inr (d\<lparr>adc_samplerate := safe_stod s, adc_oversampling_ratio := nat (i mod 2 ^ 32)\<rparr>))))))))))"

text \<open>\<open>draw\<close> is the virtual call of the connected output device, as for the logic analyser.\<close>

definition adc_resample ::
  "(nat \<Rightarrow> nat \<Rightarrow> 'w \<Rightarrow> (double list \<times> 'w) result) \<Rightarrow> nat option \<Rightarrow> nat \<Rightarrow> nat \<Rightarrow> 'w \<Rightarrow>
     (double list \<times> 'w) result" where
  "adc_resample draw devOut sz ratio w =
     bindr (reserve_check 8 (of_nat sz)) (\<lambda>_.
       case devOut of
         None \<Rightarrow> Inl NullDeref
       | Some out \<Rightarrow>
           bindr (draw out sz w) (\<lambda>(tmp_samples, w).
             if ratio < 2 then Inr (tmp_samples, w)
             else bindr (analogical_decimation tmp_samples [] ratio) (\<lambda>dest. Inr (dest, w))))"

text \<open>The loop that interleaves the channels, from sample \<open>i\<close> on.\<close>

fun adc_interleave :: "adc \<Rightarrow> double list \<Rightarrow> double list \<Rightarrow> nat \<Rightarrow> nat \<Rightarrow> u16 list result" where
  "adc_interleave d a b i 0 = Inr []"
| "adc_interleave d a b i (Suc n) =
     bindr (vec_at a i) (\<lambda>va.
     bindr (adc_convertVoltToRaw d va 0) (\<lambda>ra.
     bindr (vec_at b i) (\<lambda>vb.
     bindr (adc_convertVoltToRaw d vb 1) (\<lambda>rb.
     bindr (adc_interleave d a b (Suc i) n) (\<lambda>rest. Inr (ra # rb # rest))))))"

definition adc_ratio :: "adc \<Rightarrow> nat result" where
  "adc_ratio d =
     cast_u32 (div_d rate_1E8 (div_d (adc_samplerate d) (of_int_d (int (adc_oversampling_ratio d)))))"

definition adc_read_dev ::
  "env \<Rightarrow> xdoc option \<Rightarrow> (nat \<Rightarrow> nat \<Rightarrow> 'w \<Rightarrow> (double list \<times> 'w) result) \<Rightarrow> adc \<Rightarrow> byte list \<Rightarrow> nat \<Rightarrow> nat \<Rightarrow>
     'w \<Rightarrow> (adc \<times> byte list \<times> int \<times> 'w) result" where
  "adc_read_dev E doc draw d pbuf offset bytes_count w =
     bindr (adc_loadCalibValues E doc d) (\<lambda>d.
     bindr (reserve_check 2 (of_nat (bytes_count div M2K_ADC_SAMPLE_SIZE))) (\<lambda>_.
     bindr (adc_ratio d) (\<lambda>ratio.
       let frames = bytes_count div (M2K_ADC_CHANNELS * M2K_ADC_SAMPLE_SIZE);
           sz = (frames * ratio) mod 2 ^ 64
       in bindr (vec_at (adc_connections d) 0) (\<lambda>c1.
          bindr (adc_resample draw (fst c1) sz ratio w) (\<lambda>(dac_a_samples, w).
          bindr (vec_at (adc_connections d) 1) (\<lambda>c2.
          bindr (adc_resample draw (fst c2) sz ratio w) (\<lambda>(dac_b_samples, w).
          bindr (adc_interleave d dac_a_samples dac_b_samples 0 frames) (\<lambda>samples.
          bindr (read_mem (encode16 samples) bytes_count) (\<lambda>src.
          bindr (memcpy pbuf src) (\<lambda>pbuf'.
            Inr (d, pbuf', int bytes_count, w)))))))))))"

definition adc_cancel_buffer :: "adc \<Rightarrow> adc \<times> int" where
  "adc_cancel_buffer d = (d, 0)"

definition adc_transfer_dev_to_mem :: "adc \<Rightarrow> nat \<Rightarrow> adc \<times> int" where
  "adc_transfer_dev_to_mem d bytes_count = (d, 0)"

section \<open>Facts\<close>

text \<open>The constants of the conversions.\<close>

lemma adc_constants:
  "fl (13 / 10) = Fin (5854679515581645 / 4503599627370496)"
  "fl (78 / 100) = Fin (3512807709348987 / 4503599627370496)"
  "fl (21229 / 100000) = Fin (7648553319155861 / 36028797018963968)"
  "fl (2017 / 100000) = Fin (2906803343490013 / 144115188075855872)"
  by (rule fl_value [of 0 _ 5854679515581645] fl_value [of "-1" _ 7025615418697974]
      fl_value [of "-3" _ 7648553319155861] fl_value [of "-6" _ 5813606686980026]; simp add: pow2_def)+

lemma adc_scale:
  "mul_d (fl 2048) (fl (13 / 10)) = Fin (5854679515581645 / 2199023255552)"
  unfolding adc_constants
  by (simp add: fl_numeral) (rule fl_value [of 11 _ 5854679515581645]; simp add: pow2_def)

lemma adc_gains:
  "mul_d (mul_d (fl 2048) (fl (13 / 10))) (fl (21229 / 100000)) = Fin (2485779828725655 / 4398046511104)"
  "mul_d (mul_d (fl 2048) (fl (13 / 10))) (fl (2017 / 100000)) = Fin (3778844346537017 / 70368744177664)"
  unfolding adc_scale unfolding adc_constants mul_d.simps
  by (rule fl_value [of 9 _ 4971559657451310] fl_value [of 5 _ 7557688693074034]; simp add: pow2_def)+

lemma adc_interleave_length:
  "adc_interleave d a b i n = Inr ws \<Longrightarrow> length ws = 2 * n \<and> (n = 0 \<or> (i + n \<le> length a \<and> i + n \<le> length b))"
proof (induction n arbitrary: i ws)
  case (Suc n)
  then obtain rest where "adc_interleave d a b (Suc i) n = Inr rest" "length ws = 2 + length rest"
    and "i < length a" "i < length b"
    by (auto simp: bindr_eq_Inr_iff vec_at_def split: if_splits)
  then show ?case using Suc.IH [of "Suc i" rest] by (cases n) auto
qed simp

text \<open>Samples drawn and decimated: one per \<open>ratio\<close> drawn.\<close>

lemma adc_resample_length:
  assumes "adc_resample draw devOut sz ratio w = Inr (ys, w')" "1 \<le> ratio" "sz = frames * ratio"
    and "\<And>out n u zs u'. draw out n u = Inr (zs, u') \<Longrightarrow> length zs = n"
  shows "length ys = frames"
proof -
  obtain out tmp where "draw out sz w = Inr (tmp, w')"
    and y: "if ratio < 2 then ys = tmp else analogical_decimation tmp [] ratio = Inr ys"
    using assms(1) by (auto simp: adc_resample_def bindr_eq_Inr_iff split: option.splits if_splits)
  then have len: "length tmp = frames * ratio" using assms(3,4) by blast
  show ?thesis
  proof (cases "ratio < 2")
    case True
    then show ?thesis using y len assms(2) by (cases "ratio = 1") auto
  next
    case False
    then show ?thesis using y len analog.walk_length [of ratio tmp]
      by (auto simp: analogical_decimation_def bindr_eq_Inr_iff)
  qed
qed

lemma adc_interleave_nth:
  "adc_interleave d a b i n = Inr ws \<Longrightarrow> k < n \<Longrightarrow>
     adc_convertVoltToRaw d (a ! (i + k)) 0 = Inr (ws ! (2 * k)) \<and>
     adc_convertVoltToRaw d (b ! (i + k)) 1 = Inr (ws ! (2 * k + 1))"
proof (induction n arbitrary: i k ws)
  case (Suc n)
  then obtain ra rb us where a: "i < length a" "adc_convertVoltToRaw d (a ! i) 0 = Inr ra"
    and b: "i < length b" "adc_convertVoltToRaw d (b ! i) 1 = Inr rb"
    and us: "adc_interleave d a b (Suc i) n = Inr us" and ws: "ws = ra # rb # us"
    by (auto simp: bindr_eq_Inr_iff vec_at_def split: if_splits)
  show ?case
  proof (cases k)
    case 0
    then show ?thesis using a b ws by simp
  next
    case (Suc m)
    then show ?thesis using Suc.IH [OF us, of m] Suc.prems(2) ws by simp
  qed
qed simp

text \<open>Sample \<open>i\<close> of a channel: the drawn sample, or the mean of its window.\<close>

definition channel_sample :: "nat \<Rightarrow> double list \<Rightarrow> nat \<Rightarrow> double" where
  "channel_sample ratio drawn i =
     (if ratio < 2 then drawn ! i else window_mean ratio (take ratio (drop (i * ratio) drawn)))"

lemma adc_resample_nth:
  assumes "adc_resample draw devOut sz ratio w = Inr (ys, w')"
  obtains out zs where "devOut = Some out" "draw out sz w = Inr (zs, w')"
    and "\<forall>i < length ys. ys ! i = channel_sample ratio zs i"
proof -
  obtain out zs where o: "devOut = Some out" "draw out sz w = Inr (zs, w')"
    and y: "if ratio < 2 then ys = zs else analogical_decimation zs [] ratio = Inr ys"
    using assms by (auto simp: adc_resample_def bindr_eq_Inr_iff split: option.splits if_splits)
  have "\<forall>i < length ys. ys ! i = channel_sample ratio zs i"
  proof (cases "ratio < 2")
    case True
    then show ?thesis using y by (simp add: channel_sample_def)
  next
    case False
    then have "decimate_windows ratio zs = Inr ys"
      using y by (auto simp: analogical_decimation_def bindr_eq_Inr_iff)
    then show ?thesis using False analog.walk_nth [of ratio zs ys]
      by (simp add: channel_sample_def mult.commute)
  qed
  then show ?thesis using o that by blast
qed

text \<open>The part of the shipped context description the devices read, with its values.\<close>

definition value_node :: "string \<Rightarrow> string \<Rightarrow> xnode" where
  "value_node nm v = XNode ''attribute'' [XAttr ''name'' (Some nm), XAttr ''value'' (Some v)] []"

definition channel_node :: "string \<Rightarrow> bool \<Rightarrow> xnode list \<Rightarrow> xnode" where
  "channel_node i out cs =
     XNode ''channel'' [XAttr ''id'' (Some i), XAttr ''type'' (Some (if out then ''output'' else ''input''))] cs"

definition device_node :: "string \<Rightarrow> xnode list \<Rightarrow> xnode" where
  "device_node i cs = XNode ''device'' [XAttr ''id'' (Some i)] cs"

definition context_node :: "string \<Rightarrow> string \<Rightarrow> xnode" where
  "context_node nm v = XNode ''context-attribute'' [XAttr ''name'' (Some nm), XAttr ''value'' (Some v)] []"

definition m2k_doc :: "xdoc option" where
  "m2k_doc = Some \<lparr>doc_root = Some (XNode ''context'' []
     [context_node ''cal,offset_pos_dac'' ''0.018'', context_node ''cal,gain_pos_dac'' ''0.998048'',
      context_node ''cal,offset_pos_adc'' ''0.000730159'', context_node ''cal,gain_pos_adc'' ''0.995132'',
      context_node ''cal,offset_neg_dac'' ''0.0017'', context_node ''cal,gain_neg_dac'' ''0.996722'',
      context_node ''cal,offset_neg_adc'' ''-0.00167558'', context_node ''cal,gain_neg_adc'' ''1.00724'',
      device_node ''iio:device0''
        [channel_node ''voltage1'' False [value_node ''calibbias'' ''0''],
         channel_node ''voltage0'' False [value_node ''calibbias'' ''0''],
         value_node ''oversampling_ratio'' ''1'', value_node ''sampling_frequency'' ''100000000''],
      device_node ''iio:device11''
        [channel_node ''voltage0'' False [value_node ''gain'' ''high''],
         channel_node ''voltage1'' False [value_node ''gain'' ''low'']],
      device_node ''iio:device2''
        [channel_node ''voltage2'' True [value_node ''raw'' ''0''],
         channel_node ''voltage3'' True [value_node ''raw'' ''0'']],
      device_node ''iio:device13''
        [channel_node ''voltage2'' False [value_node ''raw'' ''0''],
         channel_node ''voltage1'' False [value_node ''raw'' ''0'']],
      device_node ''iio:device3''
        [channel_node ''voltage1'' True [value_node ''powerdown'' ''1'', value_node ''raw'' ''0''],
         channel_node ''voltage0'' True [value_node ''powerdown'' ''1'', value_node ''raw'' ''0'']],
      device_node ''iio:device6'' [value_node ''oversampling_ratio'' ''1'', value_node ''sampling_frequency'' ''75000000''],
      device_node ''iio:device7'' [value_node ''oversampling_ratio'' ''1'', value_node ''sampling_frequency'' ''75000000''],
      device_node ''iio:device9'' [value_node ''sampling_frequency'' ''10000000''],
      device_node ''iio:device10'' [value_node ''sampling_frequency'' ''10000000'']]), doc_next = []\<rparr>"

definition m2k_env :: env where
  "m2k_env = \<lparr>env_xml = libxml_lists (\<lambda>d. Some ''<context/>'') (\<lambda>s. m2k_doc), stack_junk = replicate 16 CHR ''#''\<rparr>"

text \<open>An oscilloscope connected to two silent generators, before and after a read.\<close>

definition scope :: adc where
  "scope = (M2kADC m2k_env ''iio:device0'' 0 (Zero False) 0)\<lparr>adc_connections := [(Some 1, 0), (Some 2, 0)]\<rparr>"

definition scope_read :: adc where
  "scope_read = scope\<lparr>adc_range := [''high'' @ replicate 12 NUL, ''low'' @ replicate 13 NUL],
     adc_hw_offset := [Zero False, Zero False], adc_samplerate := Fin 100000000, adc_oversampling_ratio := 1\<rparr>"

definition silent :: "nat \<Rightarrow> nat \<Rightarrow> unit \<Rightarrow> (double list \<times> unit) result" where
  "silent out n u = Inr (replicate n (Zero False), u)"

text \<open>What a read finds in the description.\<close>

lemma scope_texts:
  "chn_attr m2k_env m2k_doc ''iio:device11'' ''voltage0'' False ''gain'' (replicate 16 NUL) = Inr (''high'' @ replicate 12 NUL)"
  "chn_attr m2k_env m2k_doc ''iio:device11'' ''voltage1'' False ''gain'' (replicate 16 NUL) = Inr (''low'' @ replicate 13 NUL)"
  "chn_attr m2k_env m2k_doc ''iio:device2'' ''voltage2'' True ''raw'' (replicate 16 CHR ''#'') = Inr (''0'' @ NUL # replicate 14 CHR ''#'')"
  "chn_attr m2k_env m2k_doc ''iio:device0'' ''voltage0'' False ''calibbias'' (''0'' @ NUL # replicate 14 CHR ''#'') = Inr (''0'' @ NUL # replicate 14 CHR ''#'')"
  "chn_attr m2k_env m2k_doc ''iio:device2'' ''voltage3'' True ''raw'' (''0'' @ NUL # replicate 14 CHR ''#'') = Inr (''0'' @ NUL # replicate 14 CHR ''#'')"
  "chn_attr m2k_env m2k_doc ''iio:device0'' ''voltage1'' False ''calibbias'' (''0'' @ NUL # replicate 14 CHR ''#'') = Inr (''0'' @ NUL # replicate 14 CHR ''#'')"
  "adc_own_attr m2k_env m2k_doc ''sampling_frequency'' (''0'' @ NUL # replicate 14 CHR ''#'') = Inr (''100000000'' @ NUL # replicate 6 CHR ''#'')"
  "adc_own_attr m2k_env m2k_doc ''oversampling_ratio'' (''100000000'' @ NUL # replicate 6 CHR ''#'') = Inr (''1'' @ NUL # ''0000000'' @ NUL # replicate 6 CHR ''#'')"
  by code_simp+

lemma scope_cstrs:
  "cstr (''0'' @ NUL # r) = Inr ''0''"
  "cstr (''100000000'' @ NUL # r) = Inr ''100000000''" "cstr (''1'' @ NUL # r) = Inr ''1''" for r
    by (rule cstr_append, simp add: NUL_def)+

lemma scope_numbers: "safe_stod ''0'' = Zero False" "safe_stod ''100000000'' = Fin 100000000" "stoi ''1'' = Inr 1"
  by code_simp+

lemma scope_offsets:
  "adc_convertRawToVoltsVerticalOffset d 0 k = bindr (adc_getCalibGain d k) (\<lambda>g.
     Inr (div_d (Zero False) (mul_d (mul_d (fl 4096) g) (fl (13 / 10)))))"
proof -
  have "fl (2693 / 1000) = Fin (6064096898254373 / 2251799813685248)" "fl (12 / 10) = Fin (5404319552844595 / 4503599627370496)"
    by (rule fl_value [of 1 _ 6064096898254373] fl_value [of 0 _ 5404319552844595]; simp add: pow2_def)+
  then show ?thesis by (simp add: adc_convertRawToVoltsVerticalOffset_def of_int_d_def)
qed

lemma scope_spans:
  "div_d (Zero False) (mul_d (mul_d (fl 4096) (fl (21229 / 100000))) (fl (13 / 10))) = Zero False"
  "div_d (Zero False) (mul_d (mul_d (fl 4096) (fl (2017 / 100000))) (fl (13 / 10))) = Zero False"
proof -
  have f: "fl 4096 = Fin 4096" by (simp add: fl_numeral)
  have "mul_d (fl 4096) (fl (21229 / 100000)) = Fin (7648553319155861 / 8796093022208)"
    "mul_d (fl 4096) (fl (2017 / 100000)) = Fin (2906803343490013 / 35184372088832)"
    unfolding adc_constants f mul_d.simps
    by (rule fl_value [of 9 _ 7648553319155861] fl_value [of 6 _ 5813606686980026]; simp add: pow2_def)+
  moreover have "mul_d (Fin (7648553319155861 / 8796093022208)) (fl (13 / 10)) = Fin (2485779828725655 / 2199023255552)"
    "mul_d (Fin (2906803343490013 / 35184372088832)) (fl (13 / 10)) = Fin (3778844346537017 / 35184372088832)"
    unfolding adc_constants mul_d.simps
    by (rule fl_value [of 10 _ 4971559657451310] fl_value [of 6 _ 7557688693074034]; simp add: pow2_def)+
  ultimately show "div_d (Zero False) (mul_d (mul_d (fl 4096) (fl (21229 / 100000))) (fl (13 / 10))) = Zero False"
    "div_d (Zero False) (mul_d (mul_d (fl 4096) (fl (2017 / 100000))) (fl (13 / 10))) = Zero False"
    by simp_all
qed

lemma scope_loads: "adc_loadCalibValues m2k_env m2k_doc scope = Inr scope_read"
proof -
  have E: "IIOD_BUFFER_SIZE m2k_env = 16" "stack_junk m2k_env = replicate 16 CHR ''#''"
    by (simp_all add: IIOD_BUFFER_SIZE_def m2k_env_def)
  define d where "d = scope\<lparr>adc_range := [''high'' @ replicate 12 NUL, ''low'' @ replicate 13 NUL]\<rparr>"
  have r: "adc_load_range m2k_env m2k_doc 0 ''voltage0'' scope = Inr (scope\<lparr>adc_range := [''high'' @ replicate 12 NUL, replicate 16 NUL]\<rparr>)"
    "adc_load_range m2k_env m2k_doc 1 ''voltage1'' (scope\<lparr>adc_range := [''high'' @ replicate 12 NUL, replicate 16 NUL]\<rparr>) = Inr d"
    by (simp_all add: adc_load_range_def scope_texts [simplified] scope_def M2kADC_def E vec_at_def d_def)
  have d: "adc_getCalibGain d 0 = Inr (fl (21229 / 100000))" "adc_getCalibGain d 1 = Inr (fl (2017 / 100000))"
    "length (adc_hw_offset d) = 2" "d\<lparr>adc_hw_offset := (adc_hw_offset d)[0 := Zero False]\<rparr> = d"
    "d\<lparr>adc_hw_offset := (adc_hw_offset d)[1 := Zero False]\<rparr> = d"
    by (simp_all add: d_def scope_def M2kADC_def adc_getCalibGain_def vec_at_def M2K_ADC_CHANNELS_def numeral_2_eq_2)
  have z: "cast_i16 (sub_d (Zero False) (Zero False)) = Inr 0" by (simp add: sub_d_def cast_i16_def cast_int_def)
  have "adc_load_offset m2k_env m2k_doc 0 ''voltage2'' ''voltage0'' (d, replicate 16 CHR ''#'') = Inr (d, ''0'' @ NUL # replicate 14 CHR ''#'')"
    "adc_load_offset m2k_env m2k_doc 1 ''voltage3'' ''voltage1'' (d, ''0'' @ NUL # replicate 14 CHR ''#'') = Inr (d, ''0'' @ NUL # replicate 14 CHR ''#'')"
    unfolding adc_load_offset_def prod.case scope_texts bindr_Inr scope_texts scope_cstrs scope_numbers z scope_offsets d scope_spans
    by simp_all
  note o = this
  show ?thesis unfolding adc_loadCalibValues_def r bindr_Inr E o prod.case scope_texts scope_cstrs scope_numbers
    by (simp add: scope_read_def d_def scope_def M2kADC_def M2K_ADC_CHANNELS_def numeral_2_eq_2)
qed

lemma cast_u32_1: "cast_u32 (Fin 1) = Inr 1"
  by (simp add: cast_u32_def cast_int_def trunc_rat_def)

lemma scope_ratio: "adc_ratio scope_read = Inr 1"
  by (simp add: adc_ratio_def scope_read_def rate_1E8_def fl_numeral of_int_d_def cast_u32_1 [simplified])

text \<open>What a conversion uses.\<close>

lemma scope_conversion:
  "adc_getCalibGain scope_read 0 = Inr (fl (21229 / 100000))" "adc_getCalibGain scope_read 1 = Inr (fl (2017 / 100000))"
  "vec_at (adc_hw_offset scope_read) 0 = Inr (Zero False)" "vec_at (adc_hw_offset scope_read) 1 = Inr (Zero False)"
  "adc_getFilterCompensation scope_read = Fin 1" "mul_d (fl 1) (Fin 1) = Fin 1"
  by (simp_all add: adc_getCalibGain_def adc_getFilterCompensation_def scope_read_def scope_def M2kADC_def adc_table_def
      vec_at_def fl_numeral)

lemma scope_reads_silence:
  "adc_read_dev m2k_env m2k_doc silent scope [7, 7, 7, 7, 7] 0 4 () = Inr (scope_read, [0, 0, 0, 0, 7], 4, ())"
proof -
  have "adc_convertVoltToRaw scope_read (Zero False) k = Inr 0" if "k = 0 \<or> k = 1" for k
    using that
    by (elim disjE; clarify)
      (simp_all only: adc_convertVoltToRaw_def scope_conversion bindr_Inr adc_gains Let_def,
       simp_all add: sub_d_def adc_constants(2) [simplified] cast_i16_def cast_int_def)
  then have il: "adc_interleave scope_read [Zero False] [Zero False] 0 1 = Inr [0, 0]" by (simp add: vec_at_def)
  have r: "reserve_check 2 (of_nat (4 div M2K_ADC_SAMPLE_SIZE)) = Inr ()" "reserve_check 8 (of_nat 1) = Inr ()"
    by (simp_all add: reserve_check_def max_elems_def M2K_ADC_SAMPLE_SIZE_def)
  have c: "vec_at (adc_connections scope_read) 0 = Inr (Some 1, 0)"
    "vec_at (adc_connections scope_read) 1 = Inr (Some 2, 0)" "encode16 [0, 0] = [0, 0, 0, 0]"
    by (simp_all add: scope_read_def scope_def vec_at_def encode16_def enc16_def)
  have f: "4 div (M2K_ADC_CHANNELS * M2K_ADC_SAMPLE_SIZE) = 1" "1 * 1 mod 2 ^ 64 = (1 :: nat)"
    by (simp_all add: M2K_ADC_CHANNELS_def M2K_ADC_SAMPLE_SIZE_def)
  have rs: "adc_resample silent (Some k) 1 1 () = Inr ([Zero False], ())" for k
    using r(2) by (simp add: adc_resample_def silent_def)
  have m: "read_mem [0, 0, 0, 0] 4 = Inr [0, 0, 0, 0 :: byte]"
    "memcpy [7, 7, 7, 7, 7] [0, 0, 0, 0] = Inr [0, 0, 0, 0, 7 :: byte]" by code_simp+
  show ?thesis
    unfolding adc_read_dev_def scope_loads bindr_Inr r scope_ratio Let_def f c fst_conv rs prod.case il m by simp
qed

section \<open>Properties\<close>

text \<open>
  C18: A read of the oscilloscope returns only for whole frames of two 16-bit
  samples; then it fills exactly the bytes asked for.  The frames are drawn
  from the generators connected to the two channels, \<open>ratio\<close> samples per
  frame, and hold for each channel the converted mean of its window.  A read
  of any other number of bytes copies beyond the samples.
\<close>

theorem adc_read_frames:
  assumes "adc_read_dev E doc draw d pbuf off n w = Inr (d', pbuf', r, w')" "n < 2 ^ 32"
  shows "4 dvd n \<and> r = int n \<and> length pbuf' = length pbuf \<and> drop n pbuf' = drop n pbuf \<and>
    (\<exists>ratio a b va vb w1 ws.
       adc_ratio d' = Inr ratio \<and>
       fst (adc_connections d' ! 0) = Some a \<and> draw a (n div 4 * ratio) w = Inr (va, w1) \<and>
       fst (adc_connections d' ! 1) = Some b \<and> draw b (n div 4 * ratio) w1 = Inr (vb, w') \<and>
       take n pbuf' = encode16 ws \<and> length ws = n div 2 \<and>
       (\<forall>i < n div 4. adc_convertVoltToRaw d' (channel_sample ratio va i) 0 = Inr (ws ! (2 * i)) \<and>
                      adc_convertVoltToRaw d' (channel_sample ratio vb i) 1 = Inr (ws ! (2 * i + 1))))"
proof -
  obtain ratio where rt: "adc_ratio d' = Inr ratio"
    and k: "bindr (vec_at (adc_connections d') 0) (\<lambda>c1.
        bindr (adc_resample draw (fst c1) ((n div 4 * ratio) mod 2 ^ 64) ratio w) (\<lambda>(as, w1).
        bindr (vec_at (adc_connections d') 1) (\<lambda>c2.
        bindr (adc_resample draw (fst c2) ((n div 4 * ratio) mod 2 ^ 64) ratio w1) (\<lambda>(bs, w2).
        bindr (adc_interleave d' as bs 0 (n div 4)) (\<lambda>samples.
        bindr (read_mem (encode16 samples) n) (\<lambda>src.
        bindr (memcpy pbuf src) (\<lambda>pb. Inr (d', pb, int n, w2)))))))) = Inr (d', pbuf', r, w')"
    using assms(1) unfolding adc_read_dev_def
    by (auto simp: bindr_eq_Inr_iff M2K_ADC_CHANNELS_def M2K_ADC_SAMPLE_SIZE_def Let_def)
  have "n div 4 \<le> n" by simp
  have "ratio < 2 ^ 32" using rt cast_u32_bound by (simp add: adc_ratio_def)
  then have "n div 4 * ratio < 2 ^ 32 * 2 ^ 32"
    using assms(2) by (intro mult_strict_mono) auto
  then have sz: "(n div 4 * ratio) mod 2 ^ 64 = n div 4 * ratio" by simp
  obtain as w1 bs samples src where
    ra: "adc_resample draw (fst (adc_connections d' ! 0)) (n div 4 * ratio) ratio w = Inr (as, w1)"
    and rb: "adc_resample draw (fst (adc_connections d' ! 1)) (n div 4 * ratio) ratio w1 = Inr (bs, w')"
    and il: "adc_interleave d' as bs 0 (n div 4) = Inr samples"
    and src: "read_mem (encode16 samples) n = Inr src" "memcpy pbuf src = Inr pbuf'" "r = int n"
    using k unfolding sz by (auto simp: bindr_eq_Inr_iff vec_at_def split: if_splits)
  have len: "length samples = 2 * (n div 4)" "n div 4 \<noteq> 0 \<longrightarrow> n div 4 \<le> length as \<and> n div 4 \<le> length bs"
    using adc_interleave_length [OF il] by auto
  have n4: "n \<le> 4 * (n div 4)" using src(1) len(1) by (simp add: read_mem_def split: if_splits)
  then have div: "4 dvd n" "4 * (n div 4) = n" by presburger+
  then have "src = encode16 samples" using src(1) len(1) by (simp add: read_mem_def split: if_splits)
  then have pb: "length src = n" "pbuf' = src @ drop n pbuf" "n \<le> length pbuf"
    using src(2) len(1) div(2) by (auto simp: memcpy_def split: if_splits)
  obtain a va where a: "fst (adc_connections d' ! 0) = Some a" "draw a (n div 4 * ratio) w = Inr (va, w1)"
    "\<forall>i < length as. as ! i = channel_sample ratio va i" by (rule adc_resample_nth [OF ra])
  obtain b vb where b: "fst (adc_connections d' ! 1) = Some b" "draw b (n div 4 * ratio) w1 = Inr (vb, w')"
    "\<forall>i < length bs. bs ! i = channel_sample ratio vb i" by (rule adc_resample_nth [OF rb])
  have "\<forall>i < n div 4. adc_convertVoltToRaw d' (channel_sample ratio va i) 0 = Inr (samples ! (2 * i)) \<and>
      adc_convertVoltToRaw d' (channel_sample ratio vb i) 1 = Inr (samples ! (2 * i + 1))"
    using adc_interleave_nth [OF il] a(3) b(3) len(2) by auto
  moreover have "take n pbuf' = encode16 samples" "length samples = n div 2" "drop n pbuf' = drop n pbuf"
    using pb \<open>src = encode16 samples\<close> len(1) div by auto
  moreover have "length pbuf' = length pbuf" using pb by simp
  ultimately show ?thesis using div(1) src(3) rt a(1,2) b(1,2) by blast
qed

theorem adc_read_frames_witness:
  "\<exists>ws. length ws = 2 \<and> [0, 0, 0, 0] = encode16 ws \<and> adc_convertVoltToRaw scope_read (Zero False) 0 = Inr (ws ! 0)"
proof -
  have "silent k 1 u = Inr ([Zero False], u)" for k u by (simp add: silent_def)
  moreover note scope_ratio
  moreover have "channel_sample 1 [Zero False] 0 = Zero False" by (simp add: channel_sample_def)
  ultimately show ?thesis using adc_read_frames [OF scope_reads_silence] by force
qed

text \<open>
  At a sampling rate that is not in the filter table the compensation is
  taken as 0 and divided by: every finite voltage converts to an infinity or
  a NaN, which is cast to a 16-bit integer.
\<close>

theorem adc_unlisted_rate:
  assumes "map_of (adc_filter_compensation_table d) (adc_samplerate d) = None" "channel < length (adc_hw_offset d)"
    and "adc_getCalibGain d channel = Inr gain" "gain \<in> {fl (21229 / 100000), fl (2017 / 100000)}"
    and "sub_d voltage (neg_d (adc_hw_offset d ! channel)) \<in> insert (Zero s) (range Fin)"
  shows "adc_convertVoltToRaw d voltage channel = Inl BadCast"
proof -
  define g where "g = mul_d (mul_d (fl 2048) (fl (13 / 10))) gain"
  have gains: "list_all (\<lambda>x. case mul_d (mul_d (fl 2048) (fl (13 / 10))) x of Fin r \<Rightarrow> 0 < r | _ \<Rightarrow> False)
      [fl (21229 / 100000), fl (2017 / 100000)]" using adc_gains by simp
  then obtain q where q: "g = Fin q" "0 < q"
    using assms(4) by (auto simp: g_def split: double.split_asm)
  have c1: "mul_d (fl 1) (Zero False) = Zero False" "(case fl (78 / 100) of Fin r \<Rightarrow> 0 < r | _ \<Rightarrow> False)"
    using adc_constants(2) by (simp_all add: fl_numeral)
  then obtain h where h: "fl (78 / 100) = Fin h" "0 < h" by (auto split: double.split_asm)
  define x where "x = sub_d voltage (neg_d (adc_hw_offset d ! channel))"
  have "x = Zero s \<or> (\<exists>r. x = Fin r)" using assms(5) by (auto simp: x_def)
  then have "cast_i16 (div_d (mul_d (div_d x (Zero False)) g) (fl (78 / 100))) = Inl BadCast"
    using q h by (auto simp: cast_i16_def cast_int_def)
  then show ?thesis using assms(1-3) c1
    by (simp add: adc_convertVoltToRaw_def adc_getFilterCompensation_def vec_at_def Let_def x_def g_def)
qed

theorem adc_unlisted_rate_witness:
  "adc_convertVoltToRaw (scope_read\<lparr>adc_samplerate := Fin 500000\<rparr>) (Fin 1) 0 = Inl BadCast"
proof -
  define d where "d = scope_read\<lparr>adc_samplerate := Fin 500000\<rparr>"
  have "map_of (adc_filter_compensation_table d) (adc_samplerate d) = None" "0 < length (adc_hw_offset d)"
    "adc_getCalibGain d 0 = Inr (fl (21229 / 100000))" "sub_d (Fin 1) (neg_d (adc_hw_offset d ! 0)) = Fin 1"
    by (simp_all add: d_def scope_read_def scope_def M2kADC_def adc_table_def fl_numeral adc_getCalibGain_def vec_at_def sub_d_def)
  then show ?thesis using adc_unlisted_rate [of d 0 "fl (21229 / 100000)" "Fin 1" False]
    by (simp add: d_def [symmetric])
qed

text \<open>
  The rates the emulated oscilloscope offers: each is read from its
  attribute text as a key of the filter table, and the ratio to the hardware
  rate comes out as the exact power of ten.
\<close>

theorem adc_rates:
  "map (\<lambda>t. adc_ratio ((M2kADC E i fd rate k)\<lparr>adc_samplerate := safe_stod t, adc_oversampling_ratio := 1\<rparr>))
       [''100000000'', ''10000000'', ''1000000'', ''100000'', ''10000'', ''1000'']
     = [Inr 1, Inr 10, Inr 100, Inr 1000, Inr 10000, Inr 100000] \<and>
   map safe_stod [''100000000'', ''10000000'', ''1000000'', ''100000'', ''10000'', ''1000''] = map fst adc_table"
proof -
  let ?rates = "[''100000000'', ''10000000'', ''1000000'', ''100000'', ''10000'', ''1000'']"
  have t: "map safe_stod ?rates = map Fin [100000000, 10000000, 1000000, 100000, 10000, 1000]" by code_simp
  then have "map safe_stod ?rates = map fst adc_table" by (simp add: adc_table_def fl_numeral)
  moreover have "map (\<lambda>t. adc_ratio ((M2kADC E i fd rate k)\<lparr>adc_samplerate := safe_stod t, adc_oversampling_ratio := 1\<rparr>)) ?rates
      = [Inr 1, Inr 10, Inr 100, Inr 1000, Inr 10000, Inr 100000]"
    using t by (simp add: adc_ratio_def rate_1E8_def of_int_d_def fl_numeral cast_u32_1 [simplified] cast_u32_numeral)
  ultimately show ?thesis by simp
qed

end
