(* ===== verification/Generic_Devices.thy ===== *)
theory Generic_Devices
  imports M2k_Logic
begin

text \<open>
  iiod/context/generic_xml/devices: devices whose samples come from or go to
  a file.  \<open>GenericTXDevice\<close> appends what the client writes; \<open>GenericRXDevice\<close>
  takes the first bytes off its file, using a scratch file in the working
  directory to hold the rest.  The files are an explicit store.
\<close>

section \<open>Files and streams\<close>

record fsys =
  files :: "string \<rightharpoonup> byte list"
  can_read :: "string \<Rightarrow> bool"
  can_write :: "string \<Rightarrow> bool"
  can_remove :: "string \<Rightarrow> bool"

text \<open>Opening a file for input; for output, truncated; for appending.\<close>

definition open_in :: "fsys \<Rightarrow> string \<Rightarrow> byte list option" where
  "open_in fs path = (if can_read fs path then files fs path else None)"

definition put_file :: "string \<Rightarrow> byte list \<Rightarrow> fsys \<Rightarrow> fsys" where
  "put_file path c fs = (if can_write fs path then fs\<lparr>files := (files fs)(path \<mapsto> c)\<rparr> else fs)"

definition append_file :: "string \<Rightarrow> byte list \<Rightarrow> fsys \<Rightarrow> fsys option" where
  "append_file path c fs =
     (if can_write fs path
      then Some (fs\<lparr>files := (files fs)(path \<mapsto> (case files fs path of None \<Rightarrow> c | Some old \<Rightarrow> old @ c))\<rparr>)
      else None)"

definition remove_file :: "string \<Rightarrow> fsys \<Rightarrow> fsys" where
  "remove_file path fs = (if can_remove fs path then fs\<lparr>files := (files fs)(path := None)\<rparr> else fs)"

text \<open>An input stream: what is left to read and whether a read came up short.\<close>

record istream =
  rest :: "byte list"
  failed :: bool

definition stream_read :: "nat \<Rightarrow> istream \<Rightarrow> istream \<times> byte list" where
  "stream_read n st =
     (if failed st then (st, [])
      else (\<lparr>rest = drop n (rest st), failed = (length (rest st) < n)\<rparr>, take n (rest st)))"

definition stream_of :: "byte list option \<Rightarrow> istream" where
  "stream_of c = (case c of None \<Rightarrow> \<lparr>rest = [], failed = True\<rparr> | Some b \<Rightarrow> \<lparr>rest = b, failed = False\<rparr>)"

section \<open>Devices\<close>

text \<open>\<open>m_filePath\<close> and \<open>m_mask\<close>; both classes have the same fields.\<close>

record generic_dev = abstract_device +
  gen_filePath :: string
  gen_mask :: "32 word"

text \<open>
  The constructors copy the id with \<open>strncpy(tmpArray, device_id, strlen(device_id))\<close>
  into a block of \<open>strlen(device_id) + 1\<close> bytes: the last byte keeps what the
  allocator left there, \<open>junk\<close>.
\<close>

definition GenericTXDevice :: "string \<Rightarrow> string \<Rightarrow> char \<Rightarrow> int \<Rightarrow> 32 word \<Rightarrow> generic_dev" where
  "GenericTXDevice device_id filePath junk fd0 mask0 =
     \<lparr>m_device_id = device_id @ [junk], m_fd = fd0, gen_filePath = filePath, gen_mask = mask0\<rparr>"

definition GenericRXDevice :: "string \<Rightarrow> string \<Rightarrow> char \<Rightarrow> int \<Rightarrow> 32 word \<Rightarrow> generic_dev" where
  "GenericRXDevice device_id filePath junk fd0 mask0 =
     \<lparr>m_device_id = device_id @ [junk], m_fd = fd0, gen_filePath = filePath, gen_mask = mask0\<rparr>"

definition gen_open_dev :: "generic_dev \<Rightarrow> nat \<Rightarrow> 32 word \<Rightarrow> bool \<Rightarrow> generic_dev \<times> int" where
  "gen_open_dev d sample_size msk cyclic = (d\<lparr>gen_mask := msk\<rparr>, 0)"

definition gen_close_dev :: "generic_dev \<Rightarrow> generic_dev \<times> int" where
  "gen_close_dev d = (d, 0)"

definition gen_set_buffers_count :: "generic_dev \<Rightarrow> 32 word \<Rightarrow> generic_dev \<times> int" where
  "gen_set_buffers_count d buffers_count = (d, 0)"

definition gen_get_mask :: "generic_dev \<Rightarrow> 32 word \<Rightarrow> 32 word \<times> int" where
  "gen_get_mask d msk = (gen_mask d, 0)"

definition gen_cancel_buffer :: "generic_dev \<Rightarrow> generic_dev \<times> int" where
  "gen_cancel_buffer d = (d, 0)"

subsection \<open>GenericTXDevice\<close>

definition gtx_write_dev :: "generic_dev \<Rightarrow> byte list \<Rightarrow> nat \<Rightarrow> nat \<Rightarrow> fsys \<Rightarrow> (fsys \<times> int) result" where
  "gtx_write_dev d buf offset bytes_count fs =
     (if \<not> can_write fs (gen_filePath d) then Inr (fs, - 1)
      else bindr (read_mem buf bytes_count) (\<lambda>bytes.
        case append_file (gen_filePath d) bytes fs of
          None \<Rightarrow> Inr (fs, - 1)
        | Some fs' \<Rightarrow> Inr (fs', int bytes_count)))"

definition gtx_transfer_mem_to_dev :: "generic_dev \<Rightarrow> nat \<Rightarrow> generic_dev \<times> int" where
  "gtx_transfer_mem_to_dev d bytes_count = (d, 0)"

text \<open>Leaves the buffer it is given alone.\<close>

definition gtx_transfer_samples :: "generic_dev \<Rightarrow> 'a list \<Rightarrow> nat \<Rightarrow> generic_dev \<times> 'a list" where
  "gtx_transfer_samples d buf samples_count = (d, buf)"

subsection \<open>GenericRXDevice\<close>

definition BUF_SIZE :: nat where
  "BUF_SIZE = 4096"

definition tmp_name :: string where
  "tmp_name = ''iio_emu_tmp_file.txt''"

function copyFileData :: "istream \<Rightarrow> byte list \<Rightarrow> istream \<times> byte list" where
  "copyFileData st out =
     (let (st', buf) = stream_read BUF_SIZE st in
      if buf \<noteq> [] then copyFileData st' (out @ buf) else (st', out))"
  by pat_completeness auto
termination
  by (relation "measure (\<lambda>(st, out). length (rest st))")
    (auto simp: stream_read_def BUF_SIZE_def split: if_splits)

declare copyFileData.simps [simp del]

text \<open>
  With the scratch file as the device's own file the streams overlap in a way
  that depends on the stream buffers: outside the model.  A stream that did
  not open reads nothing and drops what is written.
\<close>

definition grx_read_dev ::
  "generic_dev \<Rightarrow> byte list \<Rightarrow> nat \<Rightarrow> nat \<Rightarrow> fsys \<Rightarrow> (byte list \<times> fsys \<times> int) result" where
  "grx_read_dev d pbuf offset bytes_count fs =
     (if gen_filePath d = tmp_name then Inl Unmodelled
      else case open_in fs (gen_filePath d) of
        None \<Rightarrow> Inr (pbuf, fs, - 1)
      | Some content \<Rightarrow>
          let (st, got) = stream_read bytes_count (stream_of (Some content)) in
          bindr (memcpy pbuf (got @ replicate (bytes_count - length got) 0)) (\<lambda>pbuf'.
            let fs = put_file tmp_name [] fs;
                (st, copied) = copyFileData st [];
                fs = put_file tmp_name copied fs;
                fs = put_file (gen_filePath d) [] fs;
                tmp = stream_of (open_in fs tmp_name);
                fs = put_file (gen_filePath d) [] fs;
                (tmp, back) = copyFileData tmp [];
                fs = put_file (gen_filePath d) back fs
            in Inr (pbuf', remove_file tmp_name fs, int bytes_count)))"

definition grx_connectDevice :: "generic_dev \<Rightarrow> nat \<Rightarrow> nat \<Rightarrow> nat \<Rightarrow> generic_dev" where
  "grx_connectDevice d channel_in deviceOut channel_out = d"

definition grx_transfer_dev_to_mem :: "generic_dev \<Rightarrow> nat \<Rightarrow> generic_dev \<times> int" where
  "grx_transfer_dev_to_mem d bytes_count = (d, 0)"

section \<open>Copying a stream\<close>

lemma copyFileData_rest: "\<not> failed st \<Longrightarrow> snd (copyFileData st out) = out @ rest st"
proof (induction st out rule: copyFileData.induct)
  case (1 st out)
  define st' where "st' = \<lparr>rest = drop BUF_SIZE (rest st), failed = length (rest st) < BUF_SIZE\<rparr>"
  have r: "stream_read BUF_SIZE st = (st', take BUF_SIZE (rest st))"
    using 1 by (simp add: stream_read_def st'_def)
  show ?case
  proof (cases "rest st = []")
    case True
    then show ?thesis by (simp add: copyFileData.simps [of st] r)
  next
    case False
    have step: "copyFileData st out = copyFileData st' (out @ take BUF_SIZE (rest st))"
      using False unfolding copyFileData.simps [of st] r by (simp add: BUF_SIZE_def)
    show ?thesis
    proof (cases "failed st'")
      case True
      then have "length (rest st) < BUF_SIZE" by (simp add: st'_def)
      moreover have "copyFileData st' o' = (st', o')" for o'
        using True by (simp add: copyFileData.simps [of st'] stream_read_def)
      ultimately show ?thesis by (simp add: step)
    next
      case ok: False
      have "snd (copyFileData st' (out @ take BUF_SIZE (rest st)))
          = (out @ take BUF_SIZE (rest st)) @ rest st'"
        by (rule 1(1) [OF r [symmetric] refl]) (use False ok in \<open>auto simp: BUF_SIZE_def\<close>)
      then show ?thesis by (simp add: step st'_def)
    qed
  qed
qed

lemma copyFileData_failed: "failed st \<Longrightarrow> copyFileData st out = (st, out)"
  by (simp add: copyFileData.simps [of st] stream_read_def)

section \<open>A file as a queue of bytes\<close>

text \<open>
  The contract of a file that one device fills and another empties: what is
  pushed goes to the back, what is popped comes from the front, and a pop
  beyond the end is padded with zeros.
\<close>

locale byte_queue =
  fixes ok :: "'s \<Rightarrow> bool"
    and queue :: "'s \<Rightarrow> byte list"
    and push :: "byte list \<Rightarrow> 's \<Rightarrow> 's result"
    and pop :: "nat \<Rightarrow> 's \<Rightarrow> (byte list \<times> 's) result"
  assumes push_queue: "ok s \<Longrightarrow> \<exists>s'. push bs s = Inr s' \<and> ok s' \<and> queue s' = queue s @ bs"
    and pop_queue: "ok s \<Longrightarrow> \<exists>s'. pop n s = Inr (take n (queue s) @ replicate (n - length (queue s)) 0, s') \<and>
      ok s' \<and> queue s' = drop n (queue s)"
begin

text \<open>Pushes, one block after the other.\<close>

lemma pushes_queue:
  "ok s \<Longrightarrow> \<exists>s'. foldr_result push bss s = Inr s' \<and> ok s' \<and> queue s' = queue s @ concat bss"
proof (induction bss arbitrary: s)
  case (Cons bs bss)
  obtain t where t: "push bs s = Inr t" "ok t" "queue t = queue s @ bs"
    using push_queue [OF Cons.prems] by blast
  obtain s' where "foldr_result push bss t = Inr s' \<and> ok s' \<and> queue s' = queue t @ concat bss"
    using Cons.IH [OF t(2)] by blast
  then show ?case using t by simp
qed simp

text \<open>What was pushed on an empty queue is popped unchanged, and nothing is left.\<close>

lemma pushes_pop:
  assumes "ok s" "queue s = []" "foldr_result push bss s = Inr s'"
  shows "\<exists>s''. pop (length (concat bss)) s' = Inr (concat bss, s'') \<and> ok s'' \<and> queue s'' = []"
proof -
  have "ok s'" "queue s' = concat bss" using pushes_queue [OF assms(1), of bss] assms(2,3) by auto
  then show ?thesis using pop_queue [of s' "length (concat bss)"] by simp
qed

text \<open>Two pops of available bytes deliver what one pop of their sum does.\<close>

lemma pop_split:
  assumes "ok s" "m + n \<le> length (queue s)"
  shows "\<exists>s1 s2 s3. pop m s = Inr (take m (queue s), s1) \<and> pop n s1 = Inr (take n (queue s1), s2) \<and>
    pop (m + n) s = Inr (take m (queue s) @ take n (queue s1), s3) \<and> queue s2 = queue s3"
proof -
  obtain s1 where s1: "pop m s = Inr (take m (queue s), s1)" "ok s1" "queue s1 = drop m (queue s)"
    using pop_queue [OF assms(1), of m] assms(2) by auto
  obtain s2 where s2: "pop n s1 = Inr (take n (queue s1), s2)" "queue s2 = drop n (queue s1)"
    using pop_queue [OF s1(2), of n] s1(3) assms(2) by auto
  obtain s3 where s3: "pop (m + n) s = Inr (take (m + n) (queue s), s3)" "queue s3 = drop (m + n) (queue s)"
    using pop_queue [OF assms(1), of "m + n"] assms(2) by auto
  show ?thesis using s1 s2 s3 by (auto simp: take_add add.commute)
qed

end

text \<open>The file at \<open>path\<close> and the scratch file can be used, and the former exists.\<close>

definition file_ready :: "string \<Rightarrow> fsys \<Rightarrow> bool" where
  "file_ready path fs \<longleftrightarrow> path \<noteq> tmp_name \<and> files fs path \<noteq> None \<and>
     can_read fs path \<and> can_write fs path \<and>
     can_read fs tmp_name \<and> can_write fs tmp_name \<and> can_remove fs tmp_name"

definition file_bytes :: "string \<Rightarrow> fsys \<Rightarrow> byte list" where
  "file_bytes path fs = (case files fs path of None \<Rightarrow> [] | Some c \<Rightarrow> c)"

text \<open>A client's write to the output device, and a read into a fresh buffer from the input device.\<close>

definition tx_push :: "generic_dev \<Rightarrow> byte list \<Rightarrow> fsys \<Rightarrow> fsys result" where
  "tx_push d bs fs = bindr (gtx_write_dev d bs 0 (length bs) fs) (\<lambda>(fs', ret). Inr fs')"

definition rx_pop :: "generic_dev \<Rightarrow> nat \<Rightarrow> fsys \<Rightarrow> (byte list \<times> fsys) result" where
  "rx_pop d n fs = bindr (grx_read_dev d (replicate n 0) 0 n fs) (\<lambda>(b, fs', ret). Inr (b, fs'))"

lemma grx_read_dev_ready:
  assumes "file_ready (gen_filePath d) fs" "n \<le> length pbuf"
  defines "c \<equiv> file_bytes (gen_filePath d) fs"
  shows "grx_read_dev d pbuf off n fs =
    Inr (take n c @ replicate (n - length c) 0 @ drop n pbuf,
      fs\<lparr>files := (files fs)(gen_filePath d \<mapsto> drop n c, tmp_name := None)\<rparr>, int n)"
proof -
  let ?p = "gen_filePath d"
  obtain c' where c': "files fs ?p = Some c'" using assms(1) by (auto simp: file_ready_def)
  have c: "c = c'" by (simp add: c_def file_bytes_def c')
  define st where "st = \<lparr>rest = drop n c, failed = (length c < n)\<rparr>"
  have r: "stream_read n (stream_of (Some c)) = (st, take n c)"
    by (simp add: stream_read_def stream_of_def st_def)
  have copied: "snd (copyFileData st []) = drop n c"
    by (cases "failed st") (auto simp: copyFileData_failed copyFileData_rest st_def)
  obtain st1 where st1: "copyFileData st [] = (st1, drop n c)" using copied by (cases "copyFileData st []") auto
  obtain st2 where st2: "copyFileData \<lparr>rest = drop n c, failed = False\<rparr> [] = (st2, drop n c)"
    using copyFileData_rest [of "\<lparr>rest = drop n c, failed = False\<rparr>" "[]"]
    by (cases "copyFileData \<lparr>rest = drop n c, failed = False\<rparr> []") auto
  have m: "memcpy pbuf (take n c @ replicate (n - length (take n c)) 0)
      = Inr (take n c @ replicate (n - length c) 0 @ drop n pbuf)"
    using assms(2) by (simp add: memcpy_def min_def)
  have ne: "?p \<noteq> tmp_name" "can_read fs ?p" "can_write fs ?p" "can_read fs tmp_name"
    "can_write fs tmp_name" "can_remove fs tmp_name"
    using assms(1) by (auto simp: file_ready_def)
  have open_p: "open_in fs ?p = Some c" using ne by (simp add: open_in_def c' c)
  show ?thesis unfolding grx_read_dev_def open_p r
    using ne by (simp only: option.case if_False Let_def r prod.case m bindr_Inr st1)
      (simp add: st2 put_file_def remove_file_def open_in_def stream_of_def fun_upd_twist)
qed

lemma tx_push_ready:
  "file_ready (gen_filePath d) s \<Longrightarrow>
    \<exists>s'. tx_push d bs s = Inr s' \<and> file_ready (gen_filePath d) s' \<and>
      file_bytes (gen_filePath d) s' = file_bytes (gen_filePath d) s @ bs"
  by (auto simp: tx_push_def gtx_write_dev_def append_file_def read_mem_def file_ready_def file_bytes_def)

lemma rx_pop_ready:
  "file_ready (gen_filePath d) s \<Longrightarrow>
    \<exists>s'. rx_pop d n s = Inr (take n (file_bytes (gen_filePath d) s) @
        replicate (n - length (file_bytes (gen_filePath d) s)) 0, s') \<and>
      file_ready (gen_filePath d) s' \<and>
      file_bytes (gen_filePath d) s' = drop n (file_bytes (gen_filePath d) s)"
  by (simp add: rx_pop_def grx_read_dev_ready) (simp add: file_ready_def file_bytes_def)

text \<open>An output and an input device on the same file.\<close>

interpretation loopback: byte_queue "file_ready path" "file_bytes path"
  "tx_push (GenericTXDevice i path c fd m)" "rx_pop (GenericRXDevice j path c' fd' m')"
  for path i c fd m j c' fd' m'
proof
  fix s bs
  show "file_ready path s \<Longrightarrow>
    \<exists>s'. tx_push (GenericTXDevice i path c fd m) bs s = Inr s' \<and> file_ready path s' \<and>
      file_bytes path s' = file_bytes path s @ bs"
    using tx_push_ready [of "GenericTXDevice i path c fd m" s bs] by (simp add: GenericTXDevice_def)
next
  fix s n
  show "file_ready path s \<Longrightarrow>
    \<exists>s'. rx_pop (GenericRXDevice j path c' fd' m') n s = Inr (take n (file_bytes path s) @
        replicate (n - length (file_bytes path s)) 0, s') \<and> file_ready path s' \<and>
      file_bytes path s' = drop n (file_bytes path s)"
    using rx_pop_ready [of "GenericRXDevice j path c' fd' m'" s n] by (simp add: GenericRXDevice_def)
qed

section \<open>Properties\<close>

text \<open>A file system in which everything is allowed and only \<open>path\<close> exists.\<close>

definition one_file :: "string \<Rightarrow> byte list \<Rightarrow> fsys" where
  "one_file path c =
     \<lparr>files = [path \<mapsto> c], can_read = (\<lambda>p. True), can_write = (\<lambda>p. True), can_remove = (\<lambda>p. True)\<rparr>"

text \<open>
  C26: A read from a file device delivers the first bytes of the file, padded
  with zeros when there are not enough, and leaves the rest in the file; the
  scratch file is gone afterwards and no other file is touched.
\<close>

theorem generic_read_takes_front:
  assumes "file_ready (gen_filePath d) fs" "files fs (gen_filePath d) = Some c" "n \<le> length pbuf"
  shows "grx_read_dev d pbuf off n fs =
    Inr (take n c @ replicate (n - length c) 0 @ drop n pbuf,
      fs\<lparr>files := (files fs)(gen_filePath d \<mapsto> drop n c, tmp_name := None)\<rparr>, int n)"
  using grx_read_dev_ready [OF assms(1,3)] assms(2) by (simp add: file_bytes_def)

theorem generic_read_takes_front_witness:
  "\<exists>fs'. grx_read_dev (GenericRXDevice ''rx'' ''data.bin'' NUL 0 0) [9, 9, 9, 9] 0 3 (one_file ''data.bin'' [1, 2, 3, 4, 5])
     = Inr ([1, 2, 3, 9], fs', 3) \<and> files fs' ''data.bin'' = Some [4, 5]"
  using generic_read_takes_front [of "GenericRXDevice ''rx'' ''data.bin'' NUL 0 0" "one_file ''data.bin'' [1, 2, 3, 4, 5]"
      "[1, 2, 3, 4, 5]" 3 "[9, 9, 9, 9]" 0]
  by (simp add: file_ready_def one_file_def GenericRXDevice_def tmp_name_def)

text \<open>
  C25: Two devices on the same file form a queue: what a client writes to the
  output device, in any number of blocks, another reads back from the input
  device as it was written, and the file is empty again.
\<close>

theorem file_loopback:
  assumes "file_ready path fs" "files fs path = Some []"
  shows "\<exists>fs1 fs2. foldr_result (tx_push (GenericTXDevice i path c fd m)) bss fs = Inr fs1 \<and>
    rx_pop (GenericRXDevice j path c' fd' m') (length (concat bss)) fs1 = Inr (concat bss, fs2) \<and>
    files fs2 path = Some []"
proof -
  have e: "file_bytes path fs = []" using assms(2) by (simp add: file_bytes_def)
  obtain fs1 where 1: "foldr_result (tx_push (GenericTXDevice i path c fd m)) bss fs = Inr fs1"
    using loopback.pushes_queue [OF assms(1)] by blast
  obtain fs2 where "rx_pop (GenericRXDevice j path c' fd' m') (length (concat bss)) fs1 = Inr (concat bss, fs2)"
    "file_ready path fs2" "file_bytes path fs2 = []"
    using loopback.pushes_pop [OF assms(1) e 1] by blast
  then show ?thesis using 1 by (auto simp: file_ready_def file_bytes_def split: option.splits)
qed

theorem file_loopback_witness:
  "\<exists>fs1 fs2. foldr_result (tx_push (GenericTXDevice ''tx'' ''f'' NUL 0 0)) [[1, 2], [3]] (one_file ''f'' []) = Inr fs1 \<and>
     rx_pop (GenericRXDevice ''rx'' ''f'' NUL 0 0) (length (concat [[1, 2], [3 :: byte]])) fs1 = Inr (concat [[1, 2], [3]], fs2) \<and>
     files fs2 ''f'' = Some []"
  by (rule file_loopback) (simp_all add: file_ready_def one_file_def tmp_name_def)

text \<open>
  When the scratch file cannot be created the read still reports success,
  but everything beyond the bytes read is lost.
\<close>

theorem scratch_failure_loses_data:
  assumes "gen_filePath d \<noteq> tmp_name" "files fs (gen_filePath d) = Some c" "n \<le> length pbuf"
    and "can_read fs (gen_filePath d)" "can_write fs (gen_filePath d)"
    and "files fs tmp_name = None" "\<not> can_write fs tmp_name"
  shows "\<exists>fs'. grx_read_dev d pbuf off n fs = Inr (take n c @ replicate (n - length c) 0 @ drop n pbuf, fs', int n) \<and>
    files fs' (gen_filePath d) = Some []"
proof -
  obtain st where r: "stream_read n (stream_of (Some c)) = (st, take n c)"
    by (simp add: stream_read_def stream_of_def)
  obtain st1 copied where st1: "copyFileData st [] = (st1, copied)" by (cases "copyFileData st []")
  have m: "memcpy pbuf (take n c @ replicate (n - length (take n c)) 0)
      = Inr (take n c @ replicate (n - length c) 0 @ drop n pbuf)"
    using assms(3) by (simp add: memcpy_def min_def)
  have o: "open_in fs (gen_filePath d) = Some c" using assms(2,4) by (simp add: open_in_def)
  have put: "put_file tmp_name x fs = fs" for x using assms(7) by (simp add: put_file_def)
  show ?thesis unfolding grx_read_dev_def o
    using assms(1,5-7) by (simp only: option.case if_False Let_def r prod.case m bindr_Inr st1 put)
      (simp add: put_file_def open_in_def stream_of_def copyFileData_failed remove_file_def)
qed

theorem scratch_failure_loses_data_witness:
  "\<exists>fs'. grx_read_dev (GenericRXDevice ''rx'' ''f'' NUL 0 0) [0] 0 1
      ((one_file ''f'' [1, 2, 3])\<lparr>can_write := (\<lambda>p. p \<noteq> tmp_name)\<rparr>) = Inr ([1], fs', 1) \<and> files fs' ''f'' = Some []"
  using scratch_failure_loses_data [of "GenericRXDevice ''rx'' ''f'' NUL 0 0"
      "(one_file ''f'' [1, 2, 3])\<lparr>can_write := (\<lambda>p. p \<noteq> tmp_name)\<rparr>" "[1, 2, 3]" 1 "[0]" 0]
  by (simp add: one_file_def GenericRXDevice_def tmp_name_def)

end
