(* ===== verification/Devices.thy ===== *)
theory Devices
  imports M2k_Adc Generic_Devices
begin

text \<open>
  The class hierarchy of iiod/devices: a device of a context is one of the
  six concrete classes, and the virtual functions dispatch on it.  The
  devices of a context are a list; a pointer to an output device, as the
  input devices hold them, is an index into that list.
\<close>

section \<open>Dispatch\<close>

datatype device =
    Dev_M2kADC adc
  | Dev_M2kDAC dac
  | Dev_M2kLogicRX logic_rx
  | Dev_M2kLogicTX logic_tx
  | Dev_GenericRX generic_dev
  | Dev_GenericTX generic_dev

fun getDeviceId :: "device \<Rightarrow> char list" where
  "getDeviceId (Dev_M2kADC d) = m_device_id d"
| "getDeviceId (Dev_M2kDAC d) = m_device_id d"
| "getDeviceId (Dev_M2kLogicRX d) = m_device_id d"
| "getDeviceId (Dev_M2kLogicTX d) = m_device_id d"
| "getDeviceId (Dev_GenericRX d) = m_device_id d"
| "getDeviceId (Dev_GenericTX d) = m_device_id d"

fun dev_getDescriptor :: "device \<Rightarrow> int" where
  "dev_getDescriptor (Dev_M2kADC d) = getDescriptor d"
| "dev_getDescriptor (Dev_M2kDAC d) = getDescriptor d"
| "dev_getDescriptor (Dev_M2kLogicRX d) = getDescriptor d"
| "dev_getDescriptor (Dev_M2kLogicTX d) = getDescriptor d"
| "dev_getDescriptor (Dev_GenericRX d) = getDescriptor d"
| "dev_getDescriptor (Dev_GenericTX d) = getDescriptor d"

fun dev_setDescriptor :: "int \<Rightarrow> device \<Rightarrow> device" where
  "dev_setDescriptor fd (Dev_M2kADC d) = Dev_M2kADC (setDescriptor fd d)"
| "dev_setDescriptor fd (Dev_M2kDAC d) = Dev_M2kDAC (setDescriptor fd d)"
| "dev_setDescriptor fd (Dev_M2kLogicRX d) = Dev_M2kLogicRX (setDescriptor fd d)"
| "dev_setDescriptor fd (Dev_M2kLogicTX d) = Dev_M2kLogicTX (setDescriptor fd d)"
| "dev_setDescriptor fd (Dev_GenericRX d) = Dev_GenericRX (setDescriptor fd d)"
| "dev_setDescriptor fd (Dev_GenericTX d) = Dev_GenericTX (setDescriptor fd d)"

fun open_dev :: "env \<Rightarrow> xdoc option \<Rightarrow> device \<Rightarrow> nat \<Rightarrow> 32 word \<Rightarrow> bool \<Rightarrow> (device \<times> int) result" where
  "open_dev E doc (Dev_M2kADC d) n msk cyclic = Inr (map_prod Dev_M2kADC (\<lambda>r. r) (adc_open_dev d n msk cyclic))"
| "open_dev E doc (Dev_M2kDAC d) n msk cyclic =
     bindr (dac_open_dev E doc d n msk cyclic) (\<lambda>r. Inr (map_prod Dev_M2kDAC (\<lambda>r. r) r))"
| "open_dev E doc (Dev_M2kLogicRX d) n msk cyclic = Inr (map_prod Dev_M2kLogicRX (\<lambda>r. r) (lrx_open_dev d n msk cyclic))"
| "open_dev E doc (Dev_M2kLogicTX d) n msk cyclic = Inr (map_prod Dev_M2kLogicTX (\<lambda>r. r) (ltx_open_dev d n msk cyclic))"
| "open_dev E doc (Dev_GenericRX d) n msk cyclic = Inr (map_prod Dev_GenericRX (\<lambda>r. r) (gen_open_dev d n msk cyclic))"
| "open_dev E doc (Dev_GenericTX d) n msk cyclic = Inr (map_prod Dev_GenericTX (\<lambda>r. r) (gen_open_dev d n msk cyclic))"

fun close_dev :: "device \<Rightarrow> device \<times> int" where
  "close_dev (Dev_M2kADC d) = map_prod Dev_M2kADC (\<lambda>r. r) (adc_close_dev d)"
| "close_dev (Dev_M2kDAC d) = map_prod Dev_M2kDAC (\<lambda>r. r) (dac_close_dev d)"
| "close_dev (Dev_M2kLogicRX d) = map_prod Dev_M2kLogicRX (\<lambda>r. r) (lrx_close_dev d)"
| "close_dev (Dev_M2kLogicTX d) = map_prod Dev_M2kLogicTX (\<lambda>r. r) (ltx_close_dev d)"
| "close_dev (Dev_GenericRX d) = map_prod Dev_GenericRX (\<lambda>r. r) (gen_close_dev d)"
| "close_dev (Dev_GenericTX d) = map_prod Dev_GenericTX (\<lambda>r. r) (gen_close_dev d)"

fun set_buffers_count :: "device \<Rightarrow> 32 word \<Rightarrow> device \<times> int" where
  "set_buffers_count (Dev_M2kADC d) n = map_prod Dev_M2kADC (\<lambda>r. r) (adc_set_buffers_count d n)"
| "set_buffers_count (Dev_M2kDAC d) n = map_prod Dev_M2kDAC (\<lambda>r. r) (dac_set_buffers_count d n)"
| "set_buffers_count (Dev_M2kLogicRX d) n = map_prod Dev_M2kLogicRX (\<lambda>r. r) (lrx_set_buffers_count d n)"
| "set_buffers_count (Dev_M2kLogicTX d) n = map_prod Dev_M2kLogicTX (\<lambda>r. r) (ltx_set_buffers_count d n)"
| "set_buffers_count (Dev_GenericRX d) n = map_prod Dev_GenericRX (\<lambda>r. r) (gen_set_buffers_count d n)"
| "set_buffers_count (Dev_GenericTX d) n = map_prod Dev_GenericTX (\<lambda>r. r) (gen_set_buffers_count d n)"

fun get_mask :: "device \<Rightarrow> 32 word \<Rightarrow> 32 word \<times> int" where
  "get_mask (Dev_M2kADC d) msk = adc_get_mask d msk"
| "get_mask (Dev_M2kDAC d) msk = dac_get_mask d msk"
| "get_mask (Dev_M2kLogicRX d) msk = lrx_get_mask d msk"
| "get_mask (Dev_M2kLogicTX d) msk = ltx_get_mask d msk"
| "get_mask (Dev_GenericRX d) msk = gen_get_mask d msk"
| "get_mask (Dev_GenericTX d) msk = gen_get_mask d msk"

fun cancel_buffer :: "device \<Rightarrow> device \<times> int" where
  "cancel_buffer (Dev_M2kADC d) = map_prod Dev_M2kADC (\<lambda>r. r) (adc_cancel_buffer d)"
| "cancel_buffer (Dev_M2kDAC d) = map_prod Dev_M2kDAC (\<lambda>r. r) (dac_cancel_buffer d)"
| "cancel_buffer (Dev_M2kLogicRX d) = map_prod Dev_M2kLogicRX (\<lambda>r. r) (lrx_cancel_buffer d)"
| "cancel_buffer (Dev_M2kLogicTX d) = map_prod Dev_M2kLogicTX (\<lambda>r. r) (ltx_cancel_buffer d)"
| "cancel_buffer (Dev_GenericRX d) = map_prod Dev_GenericRX (\<lambda>r. r) (gen_cancel_buffer d)"
| "cancel_buffer (Dev_GenericTX d) = map_prod Dev_GenericTX (\<lambda>r. r) (gen_cancel_buffer d)"

text \<open>The two \<open>dynamic_cast\<close>s.\<close>

fun is_device_in :: "device \<Rightarrow> bool" where
  "is_device_in (Dev_M2kADC d) = True"
| "is_device_in (Dev_M2kLogicRX d) = True"
| "is_device_in (Dev_GenericRX d) = True"
| "is_device_in _ = False"

fun is_device_out :: "device \<Rightarrow> bool" where
  "is_device_out (Dev_M2kDAC d) = True"
| "is_device_out (Dev_M2kLogicTX d) = True"
| "is_device_out (Dev_GenericTX d) = True"
| "is_device_out _ = False"

section \<open>Output devices\<close>

text \<open>The functions of \<open>AbstractDeviceOut\<close>; on an input device there is no such function.\<close>

fun write_dev ::
  "device \<Rightarrow> byte list \<Rightarrow> nat \<Rightarrow> nat \<Rightarrow> fsys \<Rightarrow> (device \<times> fsys \<times> int) result" where
  "write_dev (Dev_M2kDAC d) buf offset n fs =
     bindr (dac_write_dev d buf offset n) (\<lambda>(d, r). Inr (Dev_M2kDAC d, fs, r))"
| "write_dev (Dev_M2kLogicTX d) buf offset n fs =
     bindr (ltx_write_dev d buf offset n) (\<lambda>(d, r). Inr (Dev_M2kLogicTX d, fs, r))"
| "write_dev (Dev_GenericTX d) buf offset n fs =
     bindr (gtx_write_dev d buf offset n fs) (\<lambda>(fs, r). Inr (Dev_GenericTX d, fs, r))"
| "write_dev _ buf offset n fs = Inl Unmodelled"

fun transfer_mem_to_dev :: "env \<Rightarrow> xdoc option \<Rightarrow> device \<Rightarrow> nat \<Rightarrow> (device \<times> int) result" where
  "transfer_mem_to_dev E doc (Dev_M2kDAC d) n =
     bindr (dac_transfer_mem_to_dev E doc d n) (\<lambda>(d, r). Inr (Dev_M2kDAC d, r))"
| "transfer_mem_to_dev E doc (Dev_M2kLogicTX d) n =
     bindr (ltx_transfer_mem_to_dev E doc d n) (\<lambda>(d, r). Inr (Dev_M2kLogicTX d, r))"
| "transfer_mem_to_dev E doc (Dev_GenericTX d) n =
     Inr (map_prod Dev_GenericTX (\<lambda>r. r) (gtx_transfer_mem_to_dev d n))"
| "transfer_mem_to_dev E doc _ n = Inl Unmodelled"

text \<open>
  \<open>transfer_samples_to_RX_device\<close> writes through a \<open>char*\<close>: the callers
  below allocate \<open>double\<close>s or \<open>uint16_t\<close>s, zero filled.  A source of the other
  kind of sample would reinterpret or overrun that memory; the contexts
  connect none.
\<close>

definition draw_volts :: "nat \<Rightarrow> nat \<Rightarrow> device list \<Rightarrow> (double list \<times> device list) result" where
  "draw_volts out samples_count devs =
     (if length devs \<le> out then Inl OutOfBounds
      else case devs ! out of
        Dev_M2kDAC d \<Rightarrow>
          bindr (dac_transfer_samples d samples_count) (\<lambda>(d, xs). Inr (xs, devs[out := Dev_M2kDAC d]))
      | Dev_GenericTX d \<Rightarrow>
          let (d, buf) = gtx_transfer_samples d (replicate samples_count (Zero False)) samples_count
          in Inr (buf, devs[out := Dev_GenericTX d])
      | _ \<Rightarrow> Inl Unmodelled)"

definition draw_bits :: "nat \<Rightarrow> nat \<Rightarrow> device list \<Rightarrow> (u16 list \<times> device list) result" where
  "draw_bits out samples_count devs =
     (if length devs \<le> out then Inl OutOfBounds
      else case devs ! out of
        Dev_M2kLogicTX d \<Rightarrow>
          bindr (ltx_transfer_samples d samples_count) (\<lambda>(d, xs). Inr (xs, devs[out := Dev_M2kLogicTX d]))
      | Dev_GenericTX d \<Rightarrow>
          let (d, buf) = gtx_transfer_samples d (replicate samples_count 0) samples_count
          in Inr (buf, devs[out := Dev_GenericTX d])
      | _ \<Rightarrow> Inl Unmodelled)"

section \<open>Input devices\<close>

text \<open>\<open>read_dev\<close> of device \<open>i\<close>: a read may advance the devices it is connected to.\<close>

definition read_dev ::
  "env \<Rightarrow> xdoc option \<Rightarrow> nat \<Rightarrow> byte list \<Rightarrow> nat \<Rightarrow> nat \<Rightarrow> device list \<Rightarrow> fsys \<Rightarrow>
     (device list \<times> fsys \<times> byte list \<times> int) result" where
  "read_dev E doc i pbuf offset n devs fs =
     (case devs ! i of
        Dev_M2kADC d \<Rightarrow>
          bindr (adc_read_dev E doc draw_volts d pbuf offset n devs) (\<lambda>(d, pbuf, r, devs).
            Inr (devs[i := Dev_M2kADC d], fs, pbuf, r))
      | Dev_M2kLogicRX d \<Rightarrow>
          bindr (lrx_read_dev E doc draw_bits d pbuf offset n devs) (\<lambda>(d, pbuf, r, devs).
            Inr (devs[i := Dev_M2kLogicRX d], fs, pbuf, r))
      | Dev_GenericRX d \<Rightarrow>
          bindr (grx_read_dev d pbuf offset n fs) (\<lambda>(pbuf, fs, r). Inr (devs, fs, pbuf, r))
      | _ \<Rightarrow> Inl Unmodelled)"

fun transfer_dev_to_mem :: "device \<Rightarrow> nat \<Rightarrow> (device \<times> int) result" where
  "transfer_dev_to_mem (Dev_M2kADC d) n = Inr (map_prod Dev_M2kADC (\<lambda>r. r) (adc_transfer_dev_to_mem d n))"
| "transfer_dev_to_mem (Dev_M2kLogicRX d) n = Inr (map_prod Dev_M2kLogicRX (\<lambda>r. r) (lrx_transfer_dev_to_mem d n))"
| "transfer_dev_to_mem (Dev_GenericRX d) n = Inr (map_prod Dev_GenericRX (\<lambda>r. r) (grx_transfer_dev_to_mem d n))"
| "transfer_dev_to_mem _ n = Inl Unmodelled"

fun connectDevice :: "device \<Rightarrow> nat \<Rightarrow> nat \<Rightarrow> nat \<Rightarrow> device result" where
  "connectDevice (Dev_M2kADC d) ch out ch_out = bindr (adc_connectDevice d ch out ch_out) (\<lambda>d. Inr (Dev_M2kADC d))"
| "connectDevice (Dev_M2kLogicRX d) ch out ch_out = bindr (lrx_connectDevice d ch out ch_out) (\<lambda>d. Inr (Dev_M2kLogicRX d))"
| "connectDevice (Dev_GenericRX d) ch out ch_out = Inr (Dev_GenericRX (grx_connectDevice d ch out ch_out))"
| "connectDevice _ ch out ch_out = Inl Unmodelled"

section \<open>Facts\<close>

text \<open>The state a device has between calls: the read position of a source fits its buffer.\<close>

fun dev_ok :: "device \<Rightarrow> bool" where
  "dev_ok (Dev_M2kDAC d) = dac_ok d"
| "dev_ok (Dev_M2kLogicTX d) = ltx_ok d"
| "dev_ok _ = True"

lemma dev_ok_setDescriptor: "dev_ok d \<Longrightarrow> dev_ok (dev_setDescriptor fd d)"
  by (cases d) (simp_all add: setDescriptor_def dac_ok_def ltx_ok_def)

lemma draw_volts_other:
  assumes "draw_volts out n devs = Inr (xs, devs')" "i \<noteq> out"
  shows "devs' ! i = devs ! i" and "length devs' = length devs"
  using assms by (auto simp: draw_volts_def gtx_transfer_samples_def bindr_eq_Inr_iff split: if_splits device.splits)

lemma draw_bits_other:
  assumes "draw_bits out n devs = Inr (xs, devs')" "i \<noteq> out"
  shows "devs' ! i = devs ! i" and "length devs' = length devs"
  using assms by (auto simp: draw_bits_def gtx_transfer_samples_def bindr_eq_Inr_iff split: if_splits device.splits)

text \<open>What a draw delivers depends on the drawn device alone.\<close>

lemma draw_volts_update:
  assumes "i \<noteq> out"
  shows "draw_volts out n (devs[i := d]) = bindr (draw_volts out n devs) (\<lambda>(xs, devs'). Inr (xs, devs'[i := d]))"
  using assms
  by (cases "devs ! out") (auto simp: draw_volts_def gtx_transfer_samples_def bindr_assoc list_update_swap
      split_beta intro!: bindr_cong)

lemma draw_volts_state:
  assumes "draw_volts out n devs = Inr (xs, devs')"
  obtains d where "devs' = devs[out := d]"
  using assms by (auto simp: draw_volts_def gtx_transfer_samples_def bindr_eq_Inr_iff split: if_splits device.splits)

lemma draw_volts_ok:
  assumes "draw_volts out n devs = Inr (xs, devs')" "\<forall>d \<in> set devs. dev_ok d"
    and "\<forall>d. Dev_M2kDAC d \<in> set devs \<longrightarrow> length (dac_samples d) < 2 ^ 32" "0 < n" "n < 2 ^ 32"
  shows "length xs = n \<and> (\<forall>d \<in> set devs'. dev_ok d)"
proof -
  have out: "out < length devs" using assms(1) by (auto simp: draw_volts_def split: if_splits)
  show ?thesis
  proof (cases "devs ! out")
    case (Dev_M2kDAC d)
    have "dac_ok d" "length (dac_samples d) < 2 ^ 32"
      using assms(2,3) out Dev_M2kDAC nth_mem [OF out] by force+
    then obtain d' ys where t: "dac_transfer_samples d n = Inr (d', ys)" "length ys = n"
      using dac_transfer_drawn [OF _ assms(4,5), of d] dac_drawn_ok [OF _ assms(4), of d] by auto
    note t = t dac_draw_ok [OF \<open>dac_ok d\<close> t(1)]
    then have "xs = ys" "devs' = devs[out := Dev_M2kDAC d']"
      using assms(1) out Dev_M2kDAC by (simp_all add: draw_volts_def)
    then show ?thesis using t assms(2) by (auto dest!: set_update_subset_insert [THEN subsetD])
  next
    case (Dev_GenericTX d)
    then have "xs = replicate n (Zero False)" "devs' = devs[out := Dev_GenericTX d]"
      using assms(1) out by (auto simp: draw_volts_def gtx_transfer_samples_def)
    then show ?thesis using assms(2) by (auto dest!: set_update_subset_insert [THEN subsetD])
  qed (use assms(1) out in \<open>simp_all add: draw_volts_def\<close>)
qed

text \<open>
  What no operation of a device changes: its class, its id, its connections
  and its file.
\<close>

fun dev_shape :: "device \<Rightarrow> nat \<times> char list \<times> connection list \<times> string" where
  "dev_shape (Dev_M2kADC d) = (0, m_device_id d, adc_connections d, [])"
| "dev_shape (Dev_M2kDAC d) = (1, m_device_id d, [], [])"
| "dev_shape (Dev_M2kLogicRX d) = (2, m_device_id d, lrx_connections d, [])"
| "dev_shape (Dev_M2kLogicTX d) = (3, m_device_id d, [], [])"
| "dev_shape (Dev_GenericRX d) = (4, m_device_id d, [], gen_filePath d)"
| "dev_shape (Dev_GenericTX d) = (5, m_device_id d, [], gen_filePath d)"

named_theorems shape_simps \<open>operations of devices keep their shape\<close>

lemma ltx_loadValues_shape: "ltx_loadValues E doc d = Inr d' \<Longrightarrow> m_device_id d' = m_device_id d"
  by (auto simp: ltx_loadValues_def bindr_eq_Inr_iff)

lemma dac_loadCalibValues_shape: "dac_loadCalibValues E doc d = Inr d' \<Longrightarrow> m_device_id d' = m_device_id d"
  by (auto simp: dac_loadCalibValues_def bindr_eq_Inr_iff)

lemma adc_loadCalibValues_shape:
  assumes "adc_loadCalibValues E doc d = Inr d'"
  shows "m_device_id d' = m_device_id d \<and> adc_connections d' = adc_connections d"
proof -
  have range: "m_device_id b = m_device_id a \<and> adc_connections b = adc_connections a"
    if "adc_load_range E doc ch chn a = Inr b" for ch chn a b
    using that by (auto simp: adc_load_range_def bindr_eq_Inr_iff)
  have offset: "m_device_id (fst b) = m_device_id (fst a) \<and> adc_connections (fst b) = adc_connections (fst a)"
    if "adc_load_offset E doc ch vo bi a = Inr b" for ch vo bi a b
    using that by (cases a) (auto simp: adc_load_offset_def bindr_eq_Inr_iff split: if_splits)
  obtain d1 d2 st1 d3 t where "adc_load_range E doc 0 ''voltage0'' d = Inr d1"
    "adc_load_range E doc 1 ''voltage1'' d1 = Inr d2"
    "adc_load_offset E doc 0 ''voltage2'' ''voltage0'' (d2, stack_junk E) = Inr st1"
    "adc_load_offset E doc 1 ''voltage3'' ''voltage1'' st1 = Inr (d3, t)"
    and d': "\<exists>s k. d' = d3\<lparr>adc_samplerate := s, adc_oversampling_ratio := k\<rparr>"
    using assms unfolding adc_loadCalibValues_def bindr_eq_Inr_iff split_paired_Ex split_beta prod.sel
    by fastforce
  then show ?thesis using range [of 0 "''voltage0''" d d1] range [of 1 "''voltage1''" d1 d2]
      offset [of 0 "''voltage2''" "''voltage0''" "(d2, stack_junk E)" st1]
      offset [of 1 "''voltage3''" "''voltage1''" st1 "(d3, t)"] by auto
qed

lemma setDescriptor_shape [shape_simps]: "dev_shape (dev_setDescriptor fd d) = dev_shape d"
  by (cases d) (simp_all add: setDescriptor_def)

lemma open_dev_shape: "open_dev E doc d n msk cyclic = Inr (d', r) \<Longrightarrow> dev_shape d' = dev_shape d"
  by (cases d) (auto simp: adc_open_dev_def dac_open_dev_def lrx_open_dev_def ltx_open_dev_def gen_open_dev_def
      bindr_eq_Inr_iff dest: dac_loadCalibValues_shape)

lemma close_dev_shape: "close_dev d = (d', r) \<Longrightarrow> dev_shape d' = dev_shape d"
  by (cases d) (auto simp: adc_close_dev_def dac_close_dev_def lrx_close_dev_def ltx_close_dev_def gen_close_dev_def)

lemma set_buffers_count_shape: "set_buffers_count d n = (d', r) \<Longrightarrow> dev_shape d' = dev_shape d"
  by (cases d) (auto simp: adc_set_buffers_count_def dac_set_buffers_count_def lrx_set_buffers_count_def
      ltx_set_buffers_count_def gen_set_buffers_count_def)

lemma cancel_buffer_shape [shape_simps]: "dev_shape (fst (cancel_buffer d)) = dev_shape d"
  by (cases d) (simp_all add: adc_cancel_buffer_def dac_cancel_buffer_def lrx_cancel_buffer_def
      ltx_cancel_buffer_def gen_cancel_buffer_def)

lemma transfer_dev_to_mem_shape: "transfer_dev_to_mem d n = Inr (d', r) \<Longrightarrow> dev_shape d' = dev_shape d"
  by (cases d) (auto simp: adc_transfer_dev_to_mem_def lrx_transfer_dev_to_mem_def grx_transfer_dev_to_mem_def)

lemma write_dev_shape: "write_dev d buf off n fs = Inr (d', fs', r) \<Longrightarrow> dev_shape d' = dev_shape d"
  by (cases d) (auto simp: dac_write_dev_def ltx_write_dev_def gtx_write_dev_def Let_def bindr_eq_Inr_iff
      split: if_splits)

lemma dac_transfer_mem_shape: "dac_transfer_mem_to_dev E doc d n = Inr (d', r) \<Longrightarrow> m_device_id d' = m_device_id d"
  by (auto simp: dac_transfer_mem_to_dev_def dac_resample_def bindr_eq_Inr_iff
      dest: dac_loadCalibValues_shape split: if_splits)

lemma ltx_transfer_mem_shape: "ltx_transfer_mem_to_dev E doc d n = Inr (d', r) \<Longrightarrow> m_device_id d' = m_device_id d"
  by (auto simp: ltx_transfer_mem_to_dev_def ltx_resample_def bindr_eq_Inr_iff
      dest: ltx_loadValues_shape split: if_splits)

lemma transfer_mem_to_dev_shape: "transfer_mem_to_dev E doc d n = Inr (d', r) \<Longrightarrow> dev_shape d' = dev_shape d"
  by (cases d) (auto simp: gtx_transfer_mem_to_dev_def bindr_eq_Inr_iff
      dest: dac_transfer_mem_shape ltx_transfer_mem_shape)

lemma shapes_update:
  "dev_shape d = dev_shape (devs ! i) \<Longrightarrow> map dev_shape (devs[i := d]) = map dev_shape devs"
  by (cases "i < length devs") (simp_all add: map_update list_update_beyond, metis length_map list_update_id nth_map)

lemma draw_volts_shape: "draw_volts out n devs = Inr (xs, devs') \<Longrightarrow> map dev_shape devs' = map dev_shape devs"
  by (auto simp: draw_volts_def dac_transfer_samples_def gtx_transfer_samples_def Let_def bindr_eq_Inr_iff
      split: if_splits device.splits intro!: shapes_update)

lemma draw_bits_shape: "draw_bits out n devs = Inr (xs, devs') \<Longrightarrow> map dev_shape devs' = map dev_shape devs"
  by (auto simp: draw_bits_def ltx_transfer_samples_def gtx_transfer_samples_def Let_def bindr_eq_Inr_iff
      split: if_splits device.splits intro!: shapes_update)

text \<open>A read changes the connected devices by two draws at most, and the input device by its rates and calibration.\<close>

lemma adc_resample_world:
  assumes "adc_resample draw out sz ratio w = Inr (ys, w')" "P w"
    and "\<And>out n u xs u'. P u \<Longrightarrow> draw out n u = Inr (xs, u') \<Longrightarrow> P u'"
  shows "P w'"
  using assms(1,2)
  by (auto simp: adc_resample_def bindr_eq_Inr_iff split: option.splits if_splits intro: assms(3))

lemma adc_read_dev_world:
  assumes "adc_read_dev E doc draw d pbuf off n w = Inr (d', pbuf', r, w')" "P w"
    and "\<And>out n u xs u'. P u \<Longrightarrow> draw out n u = Inr (xs, u') \<Longrightarrow> P u'"
  shows "P w' \<and> adc_loadCalibValues E doc d = Inr d'"
proof -
  obtain ratio c1 as w1 c2 bs where "adc_loadCalibValues E doc d = Inr d'"
    and a: "adc_resample draw c1 ((n div (M2K_ADC_CHANNELS * M2K_ADC_SAMPLE_SIZE) * ratio) mod 2 ^ 64) ratio w = Inr (as, w1)"
    and b: "adc_resample draw c2 ((n div (M2K_ADC_CHANNELS * M2K_ADC_SAMPLE_SIZE) * ratio) mod 2 ^ 64) ratio w1 = Inr (bs, w')"
    using assms(1) unfolding adc_read_dev_def Let_def bindr_eq_Inr_iff split_beta prod.sel split_paired_Ex
    by fastforce
  moreover have "P w1" by (rule adc_resample_world [OF a, where P = P]) (fact assms(2), erule (1) assms(3))
  then have "P w'" by (rule adc_resample_world [OF b, where P = P]) (erule (1) assms(3))
  ultimately show ?thesis by simp
qed

lemma lrx_read_dev_world:
  assumes "lrx_read_dev E doc draw d pbuf off n w = Inr (d', pbuf', r, w')" "P w"
    and "\<And>out n u xs u'. P u \<Longrightarrow> draw out n u = Inr (xs, u') \<Longrightarrow> P u'"
  shows "P w' \<and> m_device_id d' = m_device_id d \<and> lrx_connections d' = lrx_connections d"
  using assms(1,2)
  by (auto simp: lrx_read_dev_def lrx_resample_def Let_def lrx_loadValues_def bindr_eq_Inr_iff
      split: if_splits option.splits intro: assms(3))

lemma read_dev_shape:
  assumes "read_dev E doc i pbuf off n devs fs = Inr (devs', fs', pbuf', r)"
  shows "map dev_shape devs' = map dev_shape devs"
proof -
  let ?P = "\<lambda>ds. map dev_shape ds = map dev_shape devs"
  have upd: "map dev_shape (ds[i := d]) = map dev_shape devs" if "?P ds" "dev_shape d = dev_shape (devs ! i)" for ds d
  proof (cases "i < length ds")
    case True
    then have "dev_shape (ds ! i) = dev_shape (devs ! i)"
      using that(1) by (metis length_map nth_map)
    then show ?thesis using that shapes_update [of d ds i] by simp
  qed (use that in \<open>simp add: list_update_beyond\<close>)
  show ?thesis
  proof (cases "devs ! i")
    case (Dev_M2kADC d)
    then obtain d' ds where rd: "adc_read_dev E doc draw_volts d pbuf off n devs = Inr (d', pbuf', r, ds)"
      and devs': "devs' = ds[i := Dev_M2kADC d']"
      using assms by (auto simp: read_dev_def bindr_eq_Inr_iff)
    have "?P ds \<and> adc_loadCalibValues E doc d = Inr d'"
      by (rule adc_read_dev_world [OF rd, where P = ?P]) (auto dest: draw_volts_shape)
    then show ?thesis using upd Dev_M2kADC adc_loadCalibValues_shape by (auto simp: devs')
  next
    case (Dev_M2kLogicRX d)
    then obtain d' ds where rd: "lrx_read_dev E doc draw_bits d pbuf off n devs = Inr (d', pbuf', r, ds)"
      and devs': "devs' = ds[i := Dev_M2kLogicRX d']"
      using assms by (auto simp: read_dev_def bindr_eq_Inr_iff)
    have "?P ds \<and> m_device_id d' = m_device_id d \<and> lrx_connections d' = lrx_connections d"
      by (rule lrx_read_dev_world [OF rd, where P = ?P]) (auto dest: draw_bits_shape)
    then show ?thesis using upd Dev_M2kLogicRX by (auto simp: devs')
  qed (use assms in \<open>auto simp: read_dev_def bindr_eq_Inr_iff\<close>)
qed

section \<open>The order of the two threads\<close>

text \<open>
  The two threads of an oscilloscope read may run in either order: on two
  different generators, drawing for channel one and then for channel two
  delivers the same samples and leaves the same devices as the other way
  round.
\<close>

lemma draws_commute:
  assumes "a \<noteq> b"
  shows "(\<exists>devs1. draw_volts a m devs = Inr (xs, devs1) \<and> draw_volts b n devs1 = Inr (ys, devs')) \<longleftrightarrow>
    (\<exists>devs2. draw_volts b n devs = Inr (ys, devs2) \<and> draw_volts a m devs2 = Inr (xs, devs'))"
proof -
  have swap: "\<exists>devs2. draw_volts b n devs = Inr (ys, devs2) \<and> draw_volts a m devs2 = Inr (xs, devs')"
    if p: "a \<noteq> b" "draw_volts a m devs = Inr (xs, devs1)" "draw_volts b n devs1 = Inr (ys, devs')"
    for a b m n xs devs1 ys
  proof -
    obtain d where d: "devs1 = devs[a := d]" by (rule draw_volts_state [OF p(2)])
    obtain devs2 where devs2: "draw_volts b n devs = Inr (ys, devs2)" "devs' = devs2[a := d]"
      using p(1,3) draw_volts_update [of a b n devs d] unfolding d by (auto simp: bindr_eq_Inr_iff)
    obtain e where e: "devs2 = devs[b := e]" by (rule draw_volts_state [OF devs2(1)])
    have "draw_volts a m devs2 = Inr (xs, devs1[b := e])"
      using p(1,2) draw_volts_update [of b a m devs e] unfolding e by simp
    then show ?thesis using devs2 p(1) unfolding d e by (simp add: list_update_swap)
  qed
  show ?thesis using swap [of a b] swap [of b a] assms by metis
qed

end
