(* ===== verification/Logger.thy ===== *)
theory Logger
  imports Prelude
begin

text \<open>
  utils/logger.cpp: a message is printed on one of the two standard streams
  when the verbose mode is on or the level configured at build time
  (\<open>IIO_EMU_LOG_LEVEL\<close>) reaches the number of the message's level.
\<close>

datatype LOG_LEVEL =
    IIO_EMU_NO_LOG
  | IIO_EMU_INFO
  | IIO_EMU_DEBUG
  | IIO_EMU_WARNING
  | IIO_EMU_ERROR
  | IIO_EMU_FATAL

fun level_number :: "LOG_LEVEL \<Rightarrow> nat" where
  "level_number IIO_EMU_NO_LOG = 0"
| "level_number IIO_EMU_INFO = 1"
| "level_number IIO_EMU_DEBUG = 2"
| "level_number IIO_EMU_WARNING = 3"
| "level_number IIO_EMU_ERROR = 4"
| "level_number IIO_EMU_FATAL = 5"

datatype stream = Cout | Cerr

definition buildMsg :: "string list \<Rightarrow> string" where
  "buildMsg args = concat args"

text \<open>What is printed, if anything; \<open>configured\<close> is the level set at build time.\<close>

definition log_message :: "nat \<Rightarrow> bool \<Rightarrow> LOG_LEVEL \<Rightarrow> string list \<Rightarrow> (stream \<times> string) option" where
  "log_message configured verboseMode level args =
     (let msg = buildMsg args @ [CHR 0x0A] in
      case level of
        IIO_EMU_NO_LOG \<Rightarrow> None
      | IIO_EMU_INFO \<Rightarrow> if verboseMode \<or> 1 \<le> configured then Some (Cout, msg) else None
      | IIO_EMU_DEBUG \<Rightarrow> if verboseMode \<or> 2 \<le> configured then Some (Cout, ''DEBUG: '' @ msg) else None
      | IIO_EMU_WARNING \<Rightarrow> if verboseMode \<or> 3 \<le> configured then Some (Cerr, ''WARNING: '' @ msg) else None
      | IIO_EMU_ERROR \<Rightarrow> if verboseMode \<or> 4 \<le> configured then Some (Cerr, ''ERROR: '' @ msg) else None
      | IIO_EMU_FATAL \<Rightarrow> if verboseMode \<or> 5 \<le> configured then Some (Cerr, ''FATAL: '' @ msg) else None)"

instantiation LOG_LEVEL :: linorder
begin

definition less_eq_LOG_LEVEL :: "LOG_LEVEL \<Rightarrow> LOG_LEVEL \<Rightarrow> bool" where
  "less_eq_LOG_LEVEL l m \<longleftrightarrow> level_number l \<le> level_number m"

definition less_LOG_LEVEL :: "LOG_LEVEL \<Rightarrow> LOG_LEVEL \<Rightarrow> bool" where
  "less_LOG_LEVEL l m \<longleftrightarrow> level_number l < level_number m"

instance
proof
  fix l m :: LOG_LEVEL
  show "l \<le> m \<Longrightarrow> m \<le> l \<Longrightarrow> l = m"
    by (cases l; cases m) (simp_all add: less_eq_LOG_LEVEL_def)
qed (auto simp: less_eq_LOG_LEVEL_def less_LOG_LEVEL_def)

end

lemma log_message_printed:
  "log_message configured verbose level args \<noteq> None \<longleftrightarrow>
     level \<noteq> IIO_EMU_NO_LOG \<and> (verbose \<or> level_number level \<le> configured)"
  by (cases level) (simp_all add: log_message_def Let_def)

text \<open>
  A message is printed exactly when its level is not \<open>NO_LOG\<close> and the
  verbose mode is on or the configured level reaches its number.  The numbers
  grow with the severity, so a configuration that prints a level prints all
  milder ones: at the level 1 of the default build, without verbose mode,
  only the informational messages appear and every error and fatal message
  is dropped.
\<close>

theorem log_threshold:
  "(log_message configured verbose level args \<noteq> None \<longleftrightarrow>
     level \<noteq> IIO_EMU_NO_LOG \<and> (verbose \<or> level_number level \<le> configured)) \<and>
   (log_message 1 False level args \<noteq> None \<longleftrightarrow> level = IIO_EMU_INFO) \<and>
   (\<forall>milder. IIO_EMU_NO_LOG < milder \<and> milder \<le> level \<longrightarrow>
      log_message configured verbose level args \<noteq> None \<longrightarrow>
      log_message configured verbose milder args' \<noteq> None)"
proof -
  have "level_number level \<le> 1 \<and> level \<noteq> IIO_EMU_NO_LOG \<longleftrightarrow> level = IIO_EMU_INFO"
    by (cases level) simp_all
  then show ?thesis unfolding log_message_printed less_eq_LOG_LEVEL_def less_LOG_LEVEL_def by auto
qed

theorem log_threshold_witness:
  "log_message 4 False IIO_EMU_WARNING [] \<noteq> None"
proof -
  have "IIO_EMU_NO_LOG < IIO_EMU_WARNING" "IIO_EMU_WARNING \<le> IIO_EMU_ERROR"
    by (simp_all add: less_eq_LOG_LEVEL_def less_LOG_LEVEL_def)
  then show ?thesis using log_threshold [of 4 False IIO_EMU_ERROR "[]" "[]"] by simp
qed

end
