(* ===== verification/Input_Parser.thy ===== *)
theory Input_Parser
  imports Prelude
begin

text \<open>
  utils/input_parser.cpp: the arguments of the generic emulator, a path to
  the context description and pairs \<open>device@file\<close>.
\<close>

text \<open>The first argument without a colon, or a null pointer.\<close>

fun getXMLPath :: "string list \<Rightarrow> string option" where
  "getXMLPath [] = None"
| "getXMLPath (arg # args) = (if CHR '':'' \<notin> set arg then Some arg else getXMLPath args)"

text \<open>\<open>std::string::find\<close> of a character.\<close>

fun find_char :: "char \<Rightarrow> string \<Rightarrow> nat option" where
  "find_char c [] = None"
| "find_char c (d # s) = (if c = d then Some 0 else map_option Suc (find_char c s))"

fun getDevices :: "string list \<Rightarrow> (string \<times> string) list" where
  "getDevices [] = []"
| "getDevices (arg # args) =
     (case find_char CHR ''@'' arg of
        None \<Rightarrow> getDevices args
      | Some index \<Rightarrow> (take index arg, take (length arg - index) (drop (index + 1) arg)) # getDevices args)"

lemma find_char_append: "c \<notin> set s \<Longrightarrow> find_char c (s @ c # t) = Some (length s)"
  by (induction s) auto

lemma find_char_None: "find_char c s = None \<longleftrightarrow> c \<notin> set s"
  by (induction s) auto

text \<open>How a client names a device and its file on the command line.\<close>

definition device_arg :: "string \<times> string \<Rightarrow> string" where
  "device_arg = (\<lambda>(dev, path). dev @ CHR ''@'' # path)"

lemma getDevices_args:
  "\<forall>dv \<in> set devs. CHR ''@'' \<notin> set (fst dv) \<Longrightarrow> getDevices (map device_arg devs) = devs"
  by (induction devs) (auto simp: device_arg_def find_char_append)

lemma getXMLPath_skip:
  "\<forall>a \<in> set as. CHR '':'' \<in> set a \<Longrightarrow> getXMLPath (as @ bs) = getXMLPath bs"
  by (induction as) auto

text \<open>
  C34: The arguments are taken apart as they are put together: from device
  arguments whose ids contain a colon, as all IIO ids do, and a path with
  neither a colon nor an at sign, in any position, the parser recovers the
  path and the devices with their files, which may contain further at
  signs.  Without the path the result is a null pointer.
\<close>

theorem arguments_round_trip:
  assumes "\<forall>dv \<in> set (devs @ devs'). CHR '':'' \<in> set (fst dv) \<and> CHR ''@'' \<notin> set (fst dv)"
    and "CHR '':'' \<notin> set xml" "CHR ''@'' \<notin> set xml"
  shows "getXMLPath (map device_arg devs @ xml # map device_arg devs') = Some xml \<and>
    getDevices (map device_arg devs @ xml # map device_arg devs') = devs @ devs' \<and>
    getXMLPath (map device_arg (devs @ devs')) = None"
proof -
  have colon: "\<forall>a \<in> set (map device_arg (devs @ devs')). CHR '':'' \<in> set a"
    using assms(1) by (force simp: device_arg_def)
  have app: "getDevices (as @ bs) = getDevices as @ getDevices bs" for as bs
    by (induction as) (auto split: option.splits)
  have "find_char CHR ''@'' xml = None" using assms(3) by (simp add: find_char_None)
  then have "getDevices (map device_arg devs @ xml # map device_arg devs') = devs @ devs'"
    using assms(1) getDevices_args [of devs] getDevices_args [of devs'] by (auto simp: app)
  moreover have "getXMLPath (map device_arg devs @ xml # map device_arg devs') = Some xml"
    using colon assms(2) by (subst getXMLPath_skip) auto
  moreover have "getXMLPath (map device_arg (devs @ devs')) = None"
    using getXMLPath_skip [OF colon, of "[]"] by simp
  ultimately show ?thesis by simp
qed

theorem arguments_round_trip_witness:
  "getXMLPath [''pluto.xml'', ''iio:device2@data@1.bin''] = Some ''pluto.xml'' \<and>
   getDevices [''pluto.xml'', ''iio:device2@data@1.bin''] = [(''iio:device2'', ''data@1.bin'')]"
  using arguments_round_trip [of "[]" "[(''iio:device2'', ''data@1.bin'')]" "''pluto.xml''"]
  by (simp add: device_arg_def)

end
