(* ===== verification/Main_Prog.thy ===== *)
theory Main_Prog
  imports Conversions Logger
begin

text \<open>
  main.cpp: the command line.  \<open>getopt_long\<close> is called once; what it
  returns, the argument it reports and the order it leaves \<open>argv\<close> in are
  parameters.  An exit is the left value of a sum: the exit status.  The log
  calls are returned in order, as arguments of \<open>Logger.log_message\<close>.
\<close>

type_synonym log_call = "LOG_LEVEL \<times> string list"

text \<open>\<open>strtoimax\<close> in base 10: value, unread rest, and whether \<open>errno\<close> is \<open>ERANGE\<close>.\<close>

definition strtoimax :: "string \<Rightarrow> int \<times> string \<times> bool" where
  "strtoimax str =
     (case parse_int str of
        None \<Rightarrow> (0, str, False)
      | Some (v, unread) \<Rightarrow>
          if v < - (2 ^ 63) then (- (2 ^ 63), unread, True)
          else if 2 ^ 63 \<le> v then (2 ^ 63 - 1, unread, True)
          else (v, unread, False))"

definition UINT16_MAX :: int where
  "UINT16_MAX = 65535"

definition strToUint16T :: "string \<Rightarrow> log_call list \<times> (int + u16)" where
  "strToUint16T str =
     (let (val, end_ptr, erange) = strtoimax str in
      if erange \<or> val < 0 \<or> UINT16_MAX < val \<or> end_ptr = str \<or> end_ptr \<noteq> []
      then ([(IIO_EMU_INFO, [''TCP Port value invalid '', str])], Inl 1)
      else ([(IIO_EMU_INFO, [''TCP Port: '', str])], Inr (word_of_int val)))"

text \<open>The global state: the port and \<open>Logger::verboseMode\<close>.\<close>

record globals =
  port :: u16
  verboseMode :: bool

definition initial_globals :: globals where
  "initial_globals = \<lparr>port = 30431, verboseMode = False\<rparr>"

definition handleOptions ::
  "char option \<Rightarrow> string option \<Rightarrow> globals \<Rightarrow> log_call list \<times> (int + globals)" where
  "handleOptions retOption optarg g =
     (if retOption = Some CHR ''h'' then
        ([(IIO_EMU_INFO, [''Options:'']),
          (IIO_EMU_INFO, [''-h, '', ''--help;'', ''     Displays help on commandline options'']),
          (IIO_EMU_INFO, [''-l, '', ''--list;'', ''     Displays the calling options'']),
          (IIO_EMU_INFO, [''-p, '', ''--port;'', ''     Set TCP server port'']),
          (IIO_EMU_INFO, [''-v, '', ''--verbose;'', ''  Running in verbose mode; Must to be put at the end''])],
         Inl 0)
      else if retOption = Some CHR ''l'' then
        ([(IIO_EMU_INFO, [''iio-emu adalm2000'']),
          (IIO_EMU_INFO, [''iio-emu generic <path_to_XML> <device_id>@<file_path>;'', '' <path_to_XML> is mandatory''])],
         Inl 0)
      else if retOption = Some CHR ''v'' then ([], Inr (g\<lparr>verboseMode := True\<rparr>))
      else if retOption = Some CHR ''p'' then
        (case optarg of
           Some arg \<Rightarrow>
             (let (logs, r) = strToUint16T arg in
              (logs, case r of Inl code \<Rightarrow> Inl code | Inr p \<Rightarrow> Inr (g\<lparr>port := p\<rparr>)))
         | None \<Rightarrow> ([(IIO_EMU_INFO, [''Port value invalid ''])], Inl 0))
      else ([], Inr g))"

text \<open>
  \<open>main\<close> up to the construction of the server: an exit status, or the type,
  the arguments and the port the server is started with.  \<open>argv\<close> is the
  argument vector after \<open>getopt_long\<close>.
\<close>

definition main_args ::
  "char option \<Rightarrow> string option \<Rightarrow> string list \<Rightarrow> log_call list \<times> (int + string \<times> string list \<times> u16)" where
  "main_args retOption optarg argv =
     (let (logs, r) = handleOptions retOption optarg initial_globals in
      case r of
        Inl code \<Rightarrow> (logs, Inl code)
      | Inr g \<Rightarrow>
          let argc = length argv in
          if verboseMode g \<and> last argv \<noteq> ''--verbose'' \<and> last argv \<noteq> ''-v''
          then (logs @ [(IIO_EMU_FATAL, [''Verbose option must be put at the end!''])], Inl 1)
          else if argc < 2 \<or> (argc = 2 \<and> verboseMode g)
          then (logs @ [(IIO_EMU_FATAL, [''No server type provided''])], Inl 1)
          else
            let args = (if verboseMode g then butlast (drop 2 argv) else drop 2 argv)
            in (logs @ [(IIO_EMU_INFO, [''Virtual device: '', argv ! 1])], Inr (argv ! 1, args, port g)))"

text \<open>\<open>exit(ret)\<close> with the \<open>bool\<close> that \<open>TcpServer::start\<close> returned.\<close>

definition exit_status :: "bool \<Rightarrow> int" where
  "exit_status ret = (if ret then 1 else 0)"

section \<open>Properties\<close>

text \<open>
  The port option accepts exactly the texts \<open>strtoimax\<close> reads completely
  as a number from 0 to 65535; every decimal numeral in that range gives its
  number, everything else ends the program with status 1.
\<close>

theorem strToUint16T_accepts:
  "snd (strToUint16T str) =
     (case parse_int str of
        Some (v, []) \<Rightarrow> if 0 \<le> v \<and> v \<le> 65535 then Inr (word_of_int v) else Inl 1
      | _ \<Rightarrow> Inl 1) \<and>
   (n < 65536 \<longrightarrow> snd (strToUint16T (show_nat n)) = Inr (of_nat n))"
proof -
  have "parse_int [] = None" by (simp add: parse_int_def)
  then have ne: "parse_int str = Some (v, []) \<Longrightarrow> str \<noteq> []" for str v by auto
  have acc: "snd (strToUint16T str) =
     (case parse_int str of
        Some (v, []) \<Rightarrow> if 0 \<le> v \<and> v \<le> 65535 then Inr (word_of_int v) else Inl 1
      | _ \<Rightarrow> Inl 1)" for str
    using ne [of str] by (auto simp: strToUint16T_def strtoimax_def UINT16_MAX_def split: option.splits list.splits)
  have "parse_int (show_nat n) = Some (int n, [])"
    using show_nat_digits [of n] parse_int_digits(1) [of "show_nat n"] by (simp add: digits_val_show_nat)
  then have "n < 65536 \<longrightarrow> snd (strToUint16T (show_nat n)) = Inr (of_nat n)"
    by (simp add: acc)
  then show ?thesis using acc by blast
qed

theorem strToUint16T_accepts_witness:
  "snd (strToUint16T (show_nat 30431)) = Inr 30431"
  using strToUint16T_accepts [of "[]" 30431] by simp

text \<open>
  Without options the second word of the command line is the emulated
  device and the others are its arguments; with the verbose option, which has
  to come last, the last word is not passed on.  Fewer words end the program
  with status 1, and the status a server that stopped without error ends with
  is 1, the one of a failed start 0.
\<close>

theorem main_args_server:
  "snd (main_args None optarg (prog # type # args)) = Inr (type, args, 30431) \<and>
   snd (main_args (Some CHR ''v'') optarg (prog # type # args @ [''-v''])) = Inr (type, args, 30431) \<and>
   snd (main_args None optarg [prog]) = Inl 1 \<and>
   snd (main_args (Some CHR ''v'') optarg [prog, ''-v'']) = Inl 1 \<and>
   exit_status True = 1 \<and> exit_status False = 0"
  by (simp add: main_args_def handleOptions_def initial_globals_def exit_status_def Let_def)

end
