(* ===== verification/Sockets.thy ===== *)
theory Sockets
  imports M2k_Logic
begin

text \<open>
  networking/socket_unix.cpp and utils/network_ops.cpp, and the Windows
  variant socket_win.cpp: one connection to a client.  What \<open>recv\<close> and
  \<open>send\<close> return is supplied by the environment as a list of outcomes, one
  per call; when the list is used up the call is still \<open>Blocked\<close>.  The
  descriptors a socket closed are recorded in order.
\<close>

section \<open>Unix sockets\<close>

text \<open>
  A \<open>recv\<close> delivers characters (none when the peer has closed the connection)
  or fails with an \<open>errno\<close>; a \<open>send\<close> takes a number of characters or fails.
\<close>

datatype recv_outcome = Received "char list" | RecvError int

datatype send_outcome = Sent nat | SendError int

text \<open>The two builds, between which \<open>#if\<close> selects; the class of a socket.\<close>

datatype build = Unix | Windows

record socket =
  s_class :: build
  s_fd :: int
  s_disconnected :: bool
  s_closed :: "int list"

definition SocketUnix :: "int \<Rightarrow> socket" where
  "SocketUnix fd = \<lparr>s_class = Unix, s_fd = fd, s_disconnected = False, s_closed = []\<rparr>"

text \<open>\<open>close(m_fd)\<close> and the flag.\<close>

definition disconnect :: "socket \<Rightarrow> socket" where
  "disconnect s = s\<lparr>s_disconnected := True, s_closed := s_closed s @ [s_fd s]\<rparr>"

text \<open>\<open>buf[0] = '\\0'\<close>.\<close>

definition put_NUL :: "char list \<Rightarrow> char list result" where
  "put_NUL buf = (case buf of [] \<Rightarrow> Inl OutOfBounds | c # cs \<Rightarrow> Inr (NUL # cs))"

text \<open>
  The kernel stores what it received at the start of the buffer; it delivers
  at most the \<open>len\<close> characters asked for, so a longer outcome cannot arise.
  The value returned is \<open>len\<close>, whatever number was received.
\<close>

fun SocketUnix_getData ::
  "recv_outcome list \<Rightarrow> socket \<Rightarrow> nat \<Rightarrow> char list \<Rightarrow>
     (socket \<times> nat \<times> char list \<times> recv_outcome list) result" where
  "SocketUnix_getData [] s len buf = Inl Blocked"
| "SocketUnix_getData (RecvError e # os) s len buf =
     (if e = EAGAIN then SocketUnix_getData os s len buf
      else bindr (put_NUL buf) (\<lambda>buf. Inr (disconnect s, 0, buf, os)))"
| "SocketUnix_getData (Received cs # os) s len buf =
     (if len < length cs then Inl Unmodelled
      else if cs = [] then bindr (put_NUL buf) (\<lambda>buf. Inr (disconnect s, 0, buf, os))
      else bindr (memcpy buf cs) (\<lambda>buf. Inr (s, len, buf, os)))"

fun SocketUnix_write ::
  "send_outcome list \<Rightarrow> socket \<Rightarrow> char list \<Rightarrow> nat \<Rightarrow> (socket \<times> send_outcome list) result" where
  "SocketUnix_write [] s buf len = Inl Blocked"
| "SocketUnix_write (SendError e # os) s buf len =
     (if e = EAGAIN then SocketUnix_write os s buf len else Inr (disconnect s, os))"
| "SocketUnix_write (Sent n # os) s buf len =
     (if len < n then Inl Unmodelled else bindr (read_mem buf len) (\<lambda>_. Inr (s, os)))"

definition disconnected :: "socket \<Rightarrow> bool" where
  "disconnected s = s_disconnected s"

definition socket_getDescriptor :: "socket \<Rightarrow> int" where
  "socket_getDescriptor s = s_fd s"

section \<open>Windows sockets\<close>

definition SocketWin :: "int \<Rightarrow> socket" where
  "SocketWin fd = \<lparr>s_class = Windows, s_fd = fd, s_disconnected = False, s_closed = []\<rparr>"

text \<open>
  The Windows loop retries on two error codes and asks for the last error
  also after a connection was closed: \<open>WSAGetLastError\<close> then returns what an
  earlier call left, given with each outcome.  The length passed to \<open>recv\<close>
  and \<open>send\<close> is cast to \<open>int\<close>, and at most so many characters are delivered
  or taken.
\<close>

definition int_len :: "nat \<Rightarrow> int" where
  "int_len len = sint (word_of_nat len :: 32 word)"

lemma int_len_small: "len < 2 ^ 31 \<Longrightarrow> int_len len = int len"
  by (simp add: int_len_def signed_of_nat signed_take_bit_int_eq_self)

definition WSAEWOULDBLOCK :: int where
  "WSAEWOULDBLOCK = 10035"

definition WSAETIMEDOUT :: int where
  "WSAETIMEDOUT = 10060"

datatype win_recv = WReceived "char list" int | WRecvError int

definition win_retry :: "int \<Rightarrow> bool" where
  "win_retry e \<longleftrightarrow> e = WSAEWOULDBLOCK \<or> e = WSAETIMEDOUT"

fun SocketWin_getData ::
  "win_recv list \<Rightarrow> socket \<Rightarrow> nat \<Rightarrow> char list \<Rightarrow> (socket \<times> nat \<times> char list \<times> win_recv list) result" where
  "SocketWin_getData [] s len buf = Inl Blocked"
| "SocketWin_getData (WRecvError e # os) s len buf =
     (if win_retry e then SocketWin_getData os s len buf
      else bindr (put_NUL buf) (\<lambda>buf. Inr (disconnect s, 0, buf, os)))"
| "SocketWin_getData (WReceived cs lastError # os) s len buf =
     (if cs = [] then
        (if win_retry lastError then SocketWin_getData os s len buf
         else bindr (put_NUL buf) (\<lambda>buf. Inr (disconnect s, 0, buf, os)))
      else if int_len len < int (length cs) then Inl Unmodelled
      else bindr (memcpy buf cs) (\<lambda>buf. Inr (s, len, buf, os)))"

fun SocketWin_write ::
  "send_outcome list \<Rightarrow> socket \<Rightarrow> char list \<Rightarrow> nat \<Rightarrow> (socket \<times> send_outcome list) result" where
  "SocketWin_write [] s buf len = Inl Blocked"
| "SocketWin_write (SendError e # os) s buf len =
     (if win_retry e then SocketWin_write os s buf len else Inr (disconnect s, os))"
| "SocketWin_write (Sent n # os) s buf len =
     (if int_len len < int n then Inl Unmodelled
      else bindr (read_mem buf (nat (int_len len))) (\<lambda>_. Inr (s, os)))"

section \<open>The virtual functions\<close>

text \<open>
  \<open>getData\<close> and \<open>write\<close> of \<open>AbstractSocket\<close> dispatch on the class; what the
  two system calls will return is given for both builds.
\<close>

type_synonym inbound = "recv_outcome list \<times> win_recv list"

definition getData :: "inbound \<Rightarrow> socket \<Rightarrow> nat \<Rightarrow> char list \<Rightarrow> (socket \<times> nat \<times> char list \<times> inbound) result" where
  "getData = (\<lambda>(os, ws) s len buf.
     (case s_class s of
        Unix \<Rightarrow> bindr (SocketUnix_getData os s len buf) (\<lambda>(s, n, buf, os). Inr (s, n, buf, (os, ws)))
      | Windows \<Rightarrow> bindr (SocketWin_getData ws s len buf) (\<lambda>(s, n, buf, ws). Inr (s, n, buf, (os, ws)))))"

definition socket_write :: "send_outcome list \<Rightarrow> socket \<Rightarrow> char list \<Rightarrow> nat \<Rightarrow> (socket \<times> send_outcome list) result" where
  "socket_write os s buf len =
     (case s_class s of
        Unix \<Rightarrow> SocketUnix_write os s buf len
      | Windows \<Rightarrow> SocketWin_write os s buf len)"

text \<open>
  \<open>socket_read\<close> passes through an uninitialised array of \<open>IIOD_BUFFER_SIZE\<close>
  characters, which is also logged as a C string.
\<close>

definition socket_read ::
  "env \<Rightarrow> inbound \<Rightarrow> socket \<Rightarrow> char list \<Rightarrow> nat \<Rightarrow> (socket \<times> char list \<times> int \<times> inbound) result" where
  "socket_read E os s buf len =
     bindr (getData os s len (stack_junk E)) (\<lambda>(s, sz, dataReceived, os).
     bindr (read_mem dataReceived sz) (\<lambda>src.
     bindr (memcpy buf src) (\<lambda>buf.
     bindr (cstr dataReceived) (\<lambda>logged. Inr (s, buf, int sz, os)))))"

section \<open>The contract of a socket\<close>

text \<open>
  What the two variants promise alike: they retry exactly on certain
  outcomes, and the first other outcome decides; \<open>limit\<close> is how much is
  delivered at most.
\<close>

locale retrying_receiver =
  fixes receive :: "'o list \<Rightarrow> socket \<Rightarrow> nat \<Rightarrow> char list \<Rightarrow> (socket \<times> nat \<times> char list \<times> 'o list) result"
    and again :: "'o \<Rightarrow> bool"
    and payload :: "'o \<Rightarrow> char list"
    and limit :: "nat \<Rightarrow> int"
  assumes none: "receive [] s len buf = Inl Blocked"
    and retry: "again oc \<Longrightarrow> receive (oc # os) s len buf = receive os s len buf"
    and closed: "\<not> again oc \<Longrightarrow> payload oc = [] \<Longrightarrow>
      receive (oc # os) s len buf = bindr (put_NUL buf) (\<lambda>buf. Inr (disconnect s, 0, buf, os))"
    and data: "\<not> again oc \<Longrightarrow> payload oc \<noteq> [] \<Longrightarrow> int (length (payload oc)) \<le> limit len \<Longrightarrow>
      receive (oc # os) s len buf = bindr (memcpy buf (payload oc)) (\<lambda>buf. Inr (s, len, buf, os))"
    and ends: "\<not> again oc \<Longrightarrow> receive (oc # os) s len buf \<noteq> Inl Blocked"
begin

lemma blocked: "\<forall>oc \<in> set os. again oc \<Longrightarrow> receive os s len buf = Inl Blocked"
  by (induction os) (simp_all add: none retry)

lemma skip_retries: "\<forall>oc \<in> set os. again oc \<Longrightarrow> receive (os @ rest) s len buf = receive rest s len buf"
  by (induction os) (simp_all add: retry)

lemma ends_iff: "receive os s len buf \<noteq> Inl Blocked \<longleftrightarrow> (\<exists>oc \<in> set os. \<not> again oc)"
proof (induction os)
  case (Cons oc os)
  then show ?case using ends [of oc os] retry [of oc os] by (cases "again oc") simp_all
qed (simp add: none)

text \<open>The first outcome that is not a retry ends the loop.\<close>

lemma received:
  assumes "\<forall>oc \<in> set os. again oc" "\<not> again oc" "buf \<noteq> []"
    and "int (length (payload oc)) \<le> limit len" "length (payload oc) \<le> length buf"
  shows "receive (os @ oc # rest) s len buf =
    (if payload oc = [] then Inr (disconnect s, 0, NUL # tl buf, rest)
     else Inr (s, len, payload oc @ drop (length (payload oc)) buf, rest))"
proof -
  have "receive (os @ oc # rest) s len buf = receive (oc # rest) s len buf"
    using skip_retries [OF assms(1)] .
  moreover have "put_NUL buf = Inr (NUL # tl buf)" using assms(3) by (cases buf) (simp_all add: put_NUL_def)
  ultimately show ?thesis using assms by (simp add: closed data memcpy_def)
qed

end

fun unix_again :: "recv_outcome \<Rightarrow> bool" where
  "unix_again (RecvError e) \<longleftrightarrow> e = EAGAIN"
| "unix_again (Received cs) \<longleftrightarrow> False"

fun unix_payload :: "recv_outcome \<Rightarrow> char list" where
  "unix_payload (RecvError e) = []"
| "unix_payload (Received cs) = cs"

fun win_again :: "win_recv \<Rightarrow> bool" where
  "win_again (WRecvError e) \<longleftrightarrow> win_retry e"
| "win_again (WReceived cs lastError) \<longleftrightarrow> cs = [] \<and> win_retry lastError"

fun win_payload :: "win_recv \<Rightarrow> char list" where
  "win_payload (WRecvError e) = []"
| "win_payload (WReceived cs lastError) = cs"

interpretation unix: retrying_receiver SocketUnix_getData unix_again unix_payload int
proof
  fix oc :: recv_outcome and os s len buf
  show "SocketUnix_getData [] s len buf = Inl Blocked" by simp
  show "unix_again oc \<Longrightarrow> SocketUnix_getData (oc # os) s len buf = SocketUnix_getData os s len buf"
    by (cases oc) simp_all
  show "\<not> unix_again oc \<Longrightarrow> unix_payload oc = [] \<Longrightarrow>
      SocketUnix_getData (oc # os) s len buf = bindr (put_NUL buf) (\<lambda>buf. Inr (disconnect s, 0, buf, os))"
    by (cases oc) simp_all
  show "\<not> unix_again oc \<Longrightarrow> unix_payload oc \<noteq> [] \<Longrightarrow> int (length (unix_payload oc)) \<le> int len \<Longrightarrow>
      SocketUnix_getData (oc # os) s len buf = bindr (memcpy buf (unix_payload oc)) (\<lambda>buf. Inr (s, len, buf, os))"
    by (cases oc) simp_all
  show "\<not> unix_again oc \<Longrightarrow> SocketUnix_getData (oc # os) s len buf \<noteq> Inl Blocked"
    by (cases oc) (auto simp: bindr_eq_Inl_iff put_NUL_def memcpy_def split: list.split)
qed

interpretation win: retrying_receiver SocketWin_getData win_again win_payload int_len
proof
  fix oc :: win_recv and os s len buf
  show "SocketWin_getData [] s len buf = Inl Blocked" by simp
  show "win_again oc \<Longrightarrow> SocketWin_getData (oc # os) s len buf = SocketWin_getData os s len buf"
    by (cases oc) auto
  show "\<not> win_again oc \<Longrightarrow> win_payload oc = [] \<Longrightarrow>
      SocketWin_getData (oc # os) s len buf = bindr (put_NUL buf) (\<lambda>buf. Inr (disconnect s, 0, buf, os))"
    by (cases oc) auto
  show "\<not> win_again oc \<Longrightarrow> win_payload oc \<noteq> [] \<Longrightarrow> int (length (win_payload oc)) \<le> int_len len \<Longrightarrow>
      SocketWin_getData (oc # os) s len buf = bindr (memcpy buf (win_payload oc)) (\<lambda>buf. Inr (s, len, buf, os))"
    by (cases oc) auto
  show "\<not> win_again oc \<Longrightarrow> SocketWin_getData (oc # os) s len buf \<noteq> Inl Blocked"
    by (cases oc) (auto simp: bindr_eq_Inl_iff put_NUL_def memcpy_def split: list.split)
qed

text \<open>A socket says it is disconnected exactly when it closed its descriptor.\<close>

definition socket_ok :: "socket \<Rightarrow> bool" where
  "socket_ok s \<longleftrightarrow> (if s_disconnected s then s_closed s \<noteq> [] \<and> set (s_closed s) = {s_fd s} else s_closed s = [])"

lemma socket_ok_new: "socket_ok (SocketUnix fd)" "socket_ok (SocketWin fd)"
  by (simp_all add: socket_ok_def SocketUnix_def SocketWin_def)

lemma socket_ok_disconnect: "socket_ok s \<Longrightarrow> socket_ok (disconnect s)"
  by (auto simp: socket_ok_def disconnect_def split: if_splits)

lemma unix_getData_socket:
  "SocketUnix_getData os s len buf = Inr (s', n, buf', os') \<Longrightarrow>
     (s' = s \<or> s' = disconnect s) \<and> length buf' = length buf \<and> (n = 0 \<or> n = len)"
  by (induction os s len buf rule: SocketUnix_getData.induct)
    (auto simp: bindr_eq_Inr_iff put_NUL_def memcpy_def split: if_splits list.splits)

lemma win_getData_socket:
  "SocketWin_getData os s len buf = Inr (s', n, buf', os') \<Longrightarrow>
     (s' = s \<or> s' = disconnect s) \<and> length buf' = length buf \<and> (n = 0 \<or> n = len)"
  by (induction os s len buf rule: SocketWin_getData.induct)
    (auto simp: bindr_eq_Inr_iff put_NUL_def memcpy_def split: if_splits list.splits)

lemma getData_socket:
  "getData os s len buf = Inr (s', n, buf', os') \<Longrightarrow>
     (s' = s \<or> s' = disconnect s) \<and> length buf' = length buf \<and> (n = 0 \<or> n = len)"
  by (cases "s_class s")
    (auto simp: getData_def bindr_eq_Inr_iff dest: unix_getData_socket win_getData_socket split: prod.split_asm)

lemma write_socket:
  assumes "socket_write os s buf len = Inr (s', os')"
  shows "s' = s \<or> s' = disconnect s"
proof -
  have "SocketUnix_write os s buf len = Inr (s', os') \<Longrightarrow> s' = s \<or> s' = disconnect s"
    by (induction os s buf len rule: SocketUnix_write.induct) (auto simp: bindr_eq_Inr_iff split: if_splits)
  moreover have "SocketWin_write os s buf len = Inr (s', os') \<Longrightarrow> s' = s \<or> s' = disconnect s"
    by (induction os s buf len rule: SocketWin_write.induct) (auto simp: bindr_eq_Inr_iff split: if_splits)
  ultimately show ?thesis using assms by (simp add: socket_write_def split: build.split_asm)
qed

lemma socket_read_socket:
  "socket_read E os s buf len = Inr (s', buf', n, os') \<Longrightarrow>
     (s' = s \<or> s' = disconnect s) \<and> length buf' = length buf"
  by (auto simp: socket_read_def bindr_eq_Inr_iff dest: getData_socket length_memcpy)

section \<open>Properties\<close>

text \<open>
  C35: The receive loop repeats while the kernel says \<open>EAGAIN\<close> and returns with
  the first other outcome: received characters are stored at the start of the
  buffer and \<open>len\<close> is returned even when fewer arrived, so the rest of what
  the caller takes for data is what was in the buffer before; a closed or
  failed connection is closed here, empties the buffer and returns 0.
\<close>

theorem getData_first_outcome:
  assumes "\<forall>oc \<in> set os. oc = RecvError EAGAIN" "oc \<noteq> RecvError EAGAIN" "buf \<noteq> []"
    and "length (unix_payload oc) \<le> len" "len \<le> length buf"
  shows "SocketUnix_getData (os @ oc # later) s len buf =
    (if unix_payload oc = [] then Inr (disconnect s, 0, NUL # tl buf, later)
     else Inr (s, len, unix_payload oc @ drop (length (unix_payload oc)) buf, later))"
proof (rule unix.received)
  show "\<not> unix_again oc" using assms(2) by (cases oc) auto
qed (use assms in auto)

theorem getData_first_outcome_witness:
  "SocketUnix_getData [RecvError EAGAIN, Received ''ab''] (SocketUnix 5) 4 ''wxyz'' = Inr (SocketUnix 5, 4, ''abyz'', [])"
  using getData_first_outcome [of "[RecvError EAGAIN]" "Received ''ab''" "''wxyz''" 4 "[]" "SocketUnix 5"]
  by simp

text \<open>
  C27: The two receive loops end exactly when the system call some time returns
  an outcome they do not retry.  On Unix these are all but \<open>EAGAIN\<close>, so a
  closed connection ends the loop; the Windows loop also retries a closed
  connection for as long as the last error of an earlier call is one of the
  two it waits for.
\<close>

theorem receive_loops_end:
  "(SocketUnix_getData os s len buf \<noteq> Inl Blocked \<longleftrightarrow> (\<exists>oc \<in> set os. oc \<noteq> RecvError EAGAIN)) \<and>
   (SocketWin_getData ws s len buf \<noteq> Inl Blocked \<longleftrightarrow>
     (\<exists>oc \<in> set ws. case oc of WRecvError e \<Rightarrow> \<not> win_retry e | WReceived cs e \<Rightarrow> cs \<noteq> [] \<or> \<not> win_retry e))"
proof -
  have "(oc \<noteq> RecvError EAGAIN) = (\<not> unix_again oc)" for oc by (cases oc) simp_all
  moreover have "(case w of WRecvError e \<Rightarrow> \<not> win_retry e | WReceived cs e \<Rightarrow> cs \<noteq> [] \<or> \<not> win_retry e) = (\<not> win_again w)"
    for w by (cases w) simp_all
  ultimately show ?thesis by (simp only: unix.ends_iff win.ends_iff simp_thms)
qed

theorem receive_loops_end_witness:
  "SocketWin_getData [WReceived [] 10035, WReceived [] 10035] (SocketUnix 5) 4 ''wxyz'' = Inl Blocked \<and>
   SocketUnix_getData [RecvError EAGAIN, Received []] (SocketUnix 5) 4 ''wxyz'' \<noteq> Inl Blocked"
proof -
  have "win_retry 10035" by (simp add: win_retry_def WSAEWOULDBLOCK_def)
  then show ?thesis
    using receive_loops_end [of "[RecvError EAGAIN, Received []]" "SocketUnix 5" 4 "''wxyz''"
        "[WReceived [] 10035, WReceived [] 10035]"] by simp
qed

text \<open>
  C36: Reading through the array on the stack, in either build: with room for the request and a
  terminator somewhere in the array, the caller gets the received characters
  followed by whatever the array held; a request larger than the array, or an
  array without a terminator, is undefined behaviour.  (On Windows the length
  asked for is \<open>int_len len\<close>, and not more than that can arrive.)
\<close>

theorem socket_read_result:
  assumes "cs \<noteq> []" "length cs \<le> len" "len \<le> length buf"
    and "length cs \<le> IIOD_BUFFER_SIZE E"
  defines "received \<equiv> cs @ drop (length cs) (stack_junk E)"
  shows "(s_class s = Unix \<longrightarrow> socket_read E (Received cs # os, ws) s buf len =
      (if len \<le> IIOD_BUFFER_SIZE E \<and> NUL \<in> set received
       then Inr (s, take len received @ drop len buf, int len, (os, ws)) else Inl OutOfBounds)) \<and>
    (s_class s = Windows \<and> int (length cs) \<le> int_len len \<longrightarrow> socket_read E (os, WReceived cs lastError # ws) s buf len =
      (if len \<le> IIOD_BUFFER_SIZE E \<and> NUL \<in> set received
       then Inr (s, take len received @ drop len buf, int len, (os, ws)) else Inl OutOfBounds))"
proof -
  have m: "memcpy (stack_junk E) cs = Inr received"
    using assms(4) by (simp add: memcpy_def IIOD_BUFFER_SIZE_def received_def)
  then have len: "length received = IIOD_BUFFER_SIZE E" by (simp add: IIOD_BUFFER_SIZE_def length_memcpy)
  have "(\<exists>t. cstr received = Inr t) \<longleftrightarrow> NUL \<in> set received" and "cstr received = Inl OutOfBounds \<or> (\<exists>t. cstr received = Inr t)"
  proof -
    show "cstr received = Inl OutOfBounds \<or> (\<exists>t. cstr received = Inr t)" by (induction received) auto
    then show "(\<exists>t. cstr received = Inr t) \<longleftrightarrow> NUL \<in> set received"
      using cstr_InrD [of received] cstr_no_NUL [of received]
      by (metis Inl_Inr_False in_set_conv_decomp split_list_first cstr_append)
  qed
  note c = this
  show ?thesis
    by (intro conjI impI) (use c assms(1-3) m len in \<open>auto simp: socket_read_def getData_def read_mem_def memcpy_def\<close>)
qed

theorem socket_read_result_witness:
  "socket_read \<lparr>env_xml = lib_lists, stack_junk = ''qrs'' @ [NUL]\<rparr> ([Received ''a''], []) (SocketUnix 5) ''wxyz'' 3
     = Inr (SocketUnix 5, ''arsz'', 3, ([], []))"
  using socket_read_result [of "''a''" 3 "''wxyz''" "\<lparr>env_xml = lib_lists, stack_junk = ''qrs'' @ [NUL]\<rparr>" "SocketUnix 5" "[]" "[]" 0]
  by (simp add: IIOD_BUFFER_SIZE_def NUL_def SocketUnix_def)

end
