(* ===== verification/Network.thy ===== *)
theory Network
  imports Sockets
begin

text \<open>
  networking/network_unix.cpp and network_win.cpp: the listening socket and
  the list of clients.  What the system calls return is supplied by the
  environment.  Two ghost fields record the descriptors the class closed
  (the listening socket) and the client descriptors it was given by
  \<open>accept\<close>.
\<close>

section \<open>Unix\<close>

record network =
  n_fd_set :: "int set"
  n_listenSocket :: int
  n_clients :: "int list"
  n_port :: u16
  n_closed :: "int list"
  n_accepted :: "int list"

text \<open>A new object: the descriptor of the listening socket is not initialised.\<close>

definition NetworkUnix :: "int \<Rightarrow> network" where
  "NetworkUnix junk =
     \<lparr>n_fd_set = {}, n_listenSocket = junk, n_clients = [], n_port = 0, n_closed = [], n_accepted = []\<rparr>"

definition nu_close :: "network \<Rightarrow> network \<times> int" where
  "nu_close n =
     (if n_listenSocket n \<le> 0 then (n, - 1)
      else (n\<lparr>n_closed := n_closed n @ [n_listenSocket n]\<rparr>, 0))"

text \<open>The results of \<open>socket\<close>, \<open>fcntl\<close> and \<open>setsockopt\<close>.\<close>

definition nu_open :: "int \<Rightarrow> int \<Rightarrow> int \<Rightarrow> network \<Rightarrow> network \<times> int" where
  "nu_open sock fcntl_ret sockopt_ret n =
     (let n = n\<lparr>n_listenSocket := sock\<rparr> in
      if sock \<le> 0 then (n, - 1)
      else if fcntl_ret < 0 then (fst (nu_close n), - 1)
      else if sockopt_ret < 0 then (fst (nu_close n), - 1)
      else (n, 0))"

definition nu_bind :: "int \<Rightarrow> u16 \<Rightarrow> network \<Rightarrow> network \<times> int" where
  "nu_bind bind_ret p n =
     (if n_listenSocket n \<le> 0 then (n, - 1)
      else
        let n = n\<lparr>n_port := p\<rparr> in
        if bind_ret < 0 then (fst (nu_close n), - 1) else (n, 0))"

definition nu_listen :: "int \<Rightarrow> network \<Rightarrow> network \<times> int" where
  "nu_listen listen_ret n =
     (if n_listenSocket n \<le> 0 then (n, - 1)
      else if listen_ret < 0 then (fst (nu_close n), - 1)
      else (n, 0))"

text \<open>
  The result of \<open>accept\<close> and of the four \<open>setsockopt\<close> calls; the value, the
  client's descriptor, is returned with the result.
\<close>

record accept_env =
  acc_fd :: int
  acc_keepalive :: int
  acc_keepcnt :: int
  acc_keepintvl :: int
  acc_nodelay :: int

definition nu_accept :: "accept_env \<Rightarrow> network \<Rightarrow> network \<times> int \<times> int" where
  "nu_accept a n =
     (if n_listenSocket n \<le> 0 then (n, 0, - 1)
      else if acc_fd a < 0 then (n, acc_fd a, - EAGAIN)
      else
        let n = n\<lparr>n_accepted := n_accepted n @ [acc_fd a]\<rparr> in
        if acc_keepalive a < 0 then (n, acc_fd a, - 1)
        else if acc_keepcnt a < 0 then (n, acc_fd a, - 1)
        else if acc_keepintvl a < 0 then (n, acc_fd a, - 1)
        else if acc_nodelay a < 0 then (n, acc_fd a, - 1)
        else (n, acc_fd a, 0))"

text \<open>\<open>FD_SET\<close> writes outside the set for a descriptor that does not fit in.\<close>

definition FD_SETSIZE :: int where
  "FD_SETSIZE = 1024"

definition FD_SET :: "int \<Rightarrow> int set \<Rightarrow> int set result" where
  "FD_SET fd fds = (if 0 \<le> fd \<and> fd < FD_SETSIZE then Inr (insert fd fds) else Inl OutOfBounds)"

text \<open>
  The result of \<open>select\<close>, the error it leaves and the descriptors that are
  ready; a failed \<open>select\<close> leaves the set as it was.  Of the set only the
  descriptors below \<open>nfds\<close> are looked at; which of the others stay in it is not
  specified (\<open>sel_left\<close>).
\<close>

record select_env =
  sel_total :: int
  sel_errno :: int
  sel_ready :: "int set"
  sel_left :: "int set"
  sel_accept :: accept_env

definition fd_select :: "int \<Rightarrow> int set \<Rightarrow> select_env \<Rightarrow> int set" where
  "fd_select nfds fds e = Set.filter (\<lambda>fd. if fd < nfds then fd \<in> sel_ready e else fd \<in> sel_left e) fds"

text \<open>The largest client once there are clients, whatever the listening socket is.\<close>

definition maxFd :: "network \<Rightarrow> int" where
  "maxFd n = (case n_clients n of [] \<Rightarrow> n_listenSocket n | c # cs \<Rightarrow> fold max cs c)"

definition nu_checkForNewConnections :: "select_env \<Rightarrow> network \<Rightarrow> (network \<times> int) result" where
  "nu_checkForNewConnections e n =
     bindr (FD_SET (n_listenSocket n) {}) (\<lambda>fds.
     bindr (foldr_result FD_SET (n_clients n) fds) (\<lambda>fds.
       let total = sel_total e;
           n = n\<lparr>n_fd_set := (if total < 0 then fds else fd_select (maxFd n + 1) fds e)\<rparr>
       in if total < 0 \<and> sel_errno e \<noteq> EINTR then Inr (fst (nu_close n), - 1)
          else if n_listenSocket n \<in> n_fd_set n then
            (let (n, new_socket, ret) = nu_accept (sel_accept e) n in
             if ret = EAGAIN then Inr (n, 0)
             else if ret < 0 then Inr (fst (nu_close n), ret)
             else Inr (n\<lparr>n_clients := n_clients n @ [new_socket]\<rparr>, 0))
          else Inr (n, 0)))"

definition nu_getActiveConnections :: "network \<Rightarrow> int list" where
  "nu_getActiveConnections n = filter (\<lambda>client. client \<in> n_fd_set n) (n_clients n)"

definition nu_disconnectSocket :: "int \<Rightarrow> network \<Rightarrow> network" where
  "nu_disconnectSocket socket n = n\<lparr>n_clients := filter (\<lambda>c. c \<noteq> socket) (n_clients n)\<rparr>"

section \<open>Windows\<close>

text \<open>
  The Windows class checks against \<open>INVALID_SOCKET\<close>, the value \<open>- 1\<close> here,
  closes the accepted socket when an option cannot be set and, unlike the
  Unix one, closes the listening socket when nothing could be accepted.
  \<open>FD_SET\<close> ignores sockets beyond its capacity.  \<open>ws_result\<close> is that of
  \<open>WSAStartup\<close>; \<open>n_closed\<close> records all sockets closed.
\<close>

definition INVALID_SOCKET :: int where
  "INVALID_SOCKET = - 1"

definition NetworkWin :: "int \<Rightarrow> network" where
  "NetworkWin junk =
     \<lparr>n_fd_set = {}, n_listenSocket = junk, n_clients = [], n_port = 0, n_closed = [], n_accepted = []\<rparr>"

definition nw_close :: "network \<Rightarrow> network \<times> int" where
  "nw_close n =
     (if n_listenSocket n = INVALID_SOCKET then (n, - 1)
      else (n\<lparr>n_closed := n_closed n @ [n_listenSocket n]\<rparr>, 0))"

definition nw_open :: "int \<Rightarrow> int \<Rightarrow> int \<Rightarrow> int \<Rightarrow> network \<Rightarrow> network \<times> int" where
  "nw_open ws_result sock sockopt_ret ioctl_ret n =
     (if ws_result \<noteq> 0 then (n, - 1)
      else
        let n = n\<lparr>n_listenSocket := sock\<rparr> in
        if sock = INVALID_SOCKET then (n, - 1)
        else if sockopt_ret < 0 then (fst (nw_close n), - 1)
        else if ioctl_ret = - 1 then (fst (nw_close n), - 1)
        else (n, 0))"

definition nw_bind :: "int \<Rightarrow> u16 \<Rightarrow> network \<Rightarrow> network \<times> int" where
  "nw_bind bind_ret p n =
     (if n_listenSocket n = INVALID_SOCKET then (n, - 1)
      else
        let n = n\<lparr>n_port := p\<rparr> in
        if bind_ret = - 1 then (fst (nw_close n), - 1) else (n, 0))"

definition nw_listen :: "int \<Rightarrow> network \<Rightarrow> network \<times> int" where
  "nw_listen listen_ret n =
     (if n_listenSocket n = INVALID_SOCKET then (n, - 1)
      else if listen_ret = - 1 then (fst (nw_close n), - 1)
      else (n, 0))"

definition nw_accept :: "accept_env \<Rightarrow> network \<Rightarrow> network \<times> int \<times> int" where
  "nw_accept a n =
     (if n_listenSocket n = INVALID_SOCKET then (n, 0, - 1)
      else if acc_fd a = INVALID_SOCKET then (fst (nw_close n), acc_fd a, - 1)
      else
        let n = n\<lparr>n_accepted := n_accepted n @ [acc_fd a]\<rparr> in
        if acc_keepalive a < 0 then (n\<lparr>n_closed := n_closed n @ [acc_fd a]\<rparr>, acc_fd a, - 1)
        else if acc_nodelay a < 0 then (n\<lparr>n_closed := n_closed n @ [acc_fd a]\<rparr>, acc_fd a, - 1)
        else (n, acc_fd a, 0))"

text \<open>The capacity of a Windows \<open>fd_set\<close>, filled from the front.\<close>

definition WIN_FD_SETSIZE :: nat where
  "WIN_FD_SETSIZE = 64"

definition nw_checkForNewConnections :: "select_env \<Rightarrow> network \<Rightarrow> network \<times> int" where
  "nw_checkForNewConnections e n =
     (let fds = set (take WIN_FD_SETSIZE (n_listenSocket n # n_clients n));
          n = n\<lparr>n_fd_set := (if sel_total e = - 1 then fds else fds \<inter> sel_ready e)\<rparr>
      in if sel_total e = - 1 then (fst (nw_close n), - 1)
         else if n_listenSocket n \<in> n_fd_set n then
           (let (n, new_socket, ret) = nw_accept (sel_accept e) n in
            if ret = EAGAIN then (n, 0)
            else if ret < 0 then (fst (nw_close n), ret)
            else (n\<lparr>n_clients := n_clients n @ [new_socket]\<rparr>, 0))
         else (n, 0))"

definition nw_getActiveConnections :: "network \<Rightarrow> int list" where
  "nw_getActiveConnections n = filter (\<lambda>client. client \<in> n_fd_set n) (n_clients n)"

definition nw_disconnectSocket :: "int \<Rightarrow> network \<Rightarrow> network" where
  "nw_disconnectSocket socket n = n\<lparr>n_clients := filter (\<lambda>c. c \<noteq> socket) (n_clients n)\<rparr>"

section \<open>The virtual functions\<close>

text \<open>
  \<open>NetworkInterface\<close>: the server calls the class of its build.  The results of
  the system calls \<open>open\<close> makes, and of those of \<open>bind\<close> and \<open>listen\<close>, are
  collected in a record; \<open>st_wsa\<close> and \<open>st_ioctl\<close> are used on Windows and
  \<open>st_fcntl\<close> on Unix.
\<close>

record start_env =
  st_junk :: int
  st_wsa :: int
  st_socket :: int
  st_fcntl :: int
  st_sockopt :: int
  st_ioctl :: int
  st_bind :: int
  st_listen :: int

fun net_new :: "build \<Rightarrow> int \<Rightarrow> network" where
  "net_new Unix junk = NetworkUnix junk"
| "net_new Windows junk = NetworkWin junk"

fun net_open :: "build \<Rightarrow> start_env \<Rightarrow> network \<Rightarrow> network \<times> int" where
  "net_open Unix e n = nu_open (st_socket e) (st_fcntl e) (st_sockopt e) n"
| "net_open Windows e n = nw_open (st_wsa e) (st_socket e) (st_sockopt e) (st_ioctl e) n"

fun net_close :: "build \<Rightarrow> network \<Rightarrow> network \<times> int" where
  "net_close Unix n = nu_close n"
| "net_close Windows n = nw_close n"

fun net_bind :: "build \<Rightarrow> int \<Rightarrow> u16 \<Rightarrow> network \<Rightarrow> network \<times> int" where
  "net_bind Unix ret p n = nu_bind ret p n"
| "net_bind Windows ret p n = nw_bind ret p n"

fun net_listen :: "build \<Rightarrow> int \<Rightarrow> network \<Rightarrow> network \<times> int" where
  "net_listen Unix ret n = nu_listen ret n"
| "net_listen Windows ret n = nw_listen ret n"

fun net_check :: "build \<Rightarrow> select_env \<Rightarrow> network \<Rightarrow> (network \<times> int) result" where
  "net_check Unix e n = nu_checkForNewConnections e n"
| "net_check Windows e n = Inr (nw_checkForNewConnections e n)"

fun net_active :: "build \<Rightarrow> network \<Rightarrow> int list" where
  "net_active Unix n = nu_getActiveConnections n"
| "net_active Windows n = nw_getActiveConnections n"

fun net_disconnect :: "build \<Rightarrow> int \<Rightarrow> network \<Rightarrow> network" where
  "net_disconnect Unix fd n = nu_disconnectSocket fd n"
| "net_disconnect Windows fd n = nw_disconnectSocket fd n"

text \<open>Is this a listening socket the class works with?\<close>

fun usable :: "build \<Rightarrow> int \<Rightarrow> bool" where
  "usable Unix fd \<longleftrightarrow> 0 < fd"
| "usable Windows fd \<longleftrightarrow> fd \<noteq> INVALID_SOCKET"

section \<open>The contract of a network\<close>

text \<open>
  What the server relies on, and both classes keep: a check adds at most the
  accepted client at the end and fails only with the listening socket
  closed, the active connections are clients in their order, and a
  disconnected client, and no other, is gone from the list.
\<close>

locale network_interface =
  fixes check :: "select_env \<Rightarrow> network \<Rightarrow> (network \<times> int) result"
    and active :: "network \<Rightarrow> int list"
    and drop_client :: "int \<Rightarrow> network \<Rightarrow> network"
  assumes check_clients: "check e n = Inr (n', r) \<Longrightarrow> 0 \<le> r \<Longrightarrow>
      n_listenSocket n' = n_listenSocket n \<and> n_closed n' = n_closed n \<and>
      (n_clients n' = n_clients n \<and> n_accepted n' = n_accepted n \<or>
       n_clients n' = n_clients n @ [acc_fd (sel_accept e)] \<and>
       n_accepted n' = n_accepted n @ [acc_fd (sel_accept e)] \<and> acc_fd (sel_accept e) \<noteq> - 1)"
    and check_failed: "check e n = Inr (n', r) \<Longrightarrow> r < 0 \<Longrightarrow>
      n_listenSocket n \<in> set (n_closed n') \<or> n_listenSocket n \<le> 0"
    and active_clients: "\<exists>P. active n = filter P (n_clients n)"
    and drop_clients: "n_clients (drop_client fd n) = filter (\<lambda>c. c \<noteq> fd) (n_clients n)"
    and drop_frame: "n_closed (drop_client fd n) = n_closed n \<and> n_accepted (drop_client fd n) = n_accepted n \<and>
      n_listenSocket (drop_client fd n) = n_listenSocket n"
begin

text \<open>Dropping several clients leaves the others, in their order.\<close>

lemma drop_several:
  "n_clients (foldl (\<lambda>n fd. drop_client fd n) n fds) = filter (\<lambda>c. c \<notin> set fds) (n_clients n)"
proof (induction fds arbitrary: n)
  case (Cons fd fds)
  then show ?case by (simp add: drop_clients conj_commute)
qed simp

text \<open>With fresh descriptors from the kernel the list of clients has no duplicates.\<close>

lemma check_distinct:
  assumes "check e n = Inr (n', r)" "0 \<le> r" "distinct (n_clients n)"
    and "acc_fd (sel_accept e) \<notin> set (n_clients n)"
  shows "distinct (n_clients n')"
  using check_clients [OF assms(1,2)] assms(3,4) by auto

lemma active_distinct: "distinct (n_clients n) \<Longrightarrow> distinct (active n) \<and> set (active n) \<subseteq> set (n_clients n)"
  using active_clients [of n] by auto

end

lemma FD_SET_loop:
  "foldr_result FD_SET fds s =
     (if \<forall>fd \<in> set fds. 0 \<le> fd \<and> fd < FD_SETSIZE then Inr (s \<union> set fds) else Inl OutOfBounds)"
  by (induction fds arbitrary: s) (auto simp: FD_SET_def)

lemma fold_max: "(m :: int) \<le> fold max cs c \<longleftrightarrow> (\<exists>x \<in> set (c # cs). m \<le> x)"
  by (induction cs arbitrary: c) (auto simp: le_max_iff_disj)

text \<open>\<open>select\<close> looks at the listening socket unless all clients have smaller descriptors.\<close>

definition listener_watched :: "network \<Rightarrow> bool" where
  "listener_watched n \<longleftrightarrow> n_clients n = [] \<or> (\<exists>c \<in> set (n_clients n). n_listenSocket n \<le> c)"

lemma listener_watched_iff: "n_listenSocket n < maxFd n + 1 \<longleftrightarrow> listener_watched n"
  by (cases "n_clients n") (auto simp: maxFd_def listener_watched_def fold_max zless_add1_eq)

text \<open>A check by the readiness the kernel reports.\<close>

lemma nu_check_cases:
  assumes "nu_checkForNewConnections e n = Inr (n', r)"
  obtains (failed) "n_closed n' = n_closed n @ [n_listenSocket n]" "r < 0" "n_clients n' = n_clients n"
      "0 < n_listenSocket n"
    | (unusable) "n_listenSocket n = 0" "r < 0"
    | (same) "n' = n\<lparr>n_fd_set := n_fd_set n'\<rparr>" "r = 0"
    | (new) "n_clients n' = n_clients n @ [acc_fd (sel_accept e)]"
      "n_accepted n' = n_accepted n @ [acc_fd (sel_accept e)]" "n_closed n' = n_closed n"
      "n_listenSocket n' = n_listenSocket n" "0 \<le> acc_fd (sel_accept e)" "r = 0"
proof -
  obtain fds where "FD_SET (n_listenSocket n) {} = Inr {n_listenSocket n}"
    and l: "0 \<le> n_listenSocket n"
    and fds: "foldr_result FD_SET (n_clients n) {n_listenSocket n} = Inr fds"
    using assms by (auto simp: nu_checkForNewConnections_def bindr_eq_Inr_iff FD_SET_def split: if_splits)
  then show ?thesis using assms that
    by (auto simp: nu_checkForNewConnections_def nu_accept_def nu_close_def EAGAIN_def Let_def split: if_splits)
qed

interpretation unix_network: network_interface nu_checkForNewConnections nu_getActiveConnections nu_disconnectSocket
proof
  fix e n n' and r :: int
  assume c: "nu_checkForNewConnections e n = Inr (n', r)"
  show "n_listenSocket n' = n_listenSocket n \<and> n_closed n' = n_closed n \<and>
      (n_clients n' = n_clients n \<and> n_accepted n' = n_accepted n \<or>
       n_clients n' = n_clients n @ [acc_fd (sel_accept e)] \<and>
       n_accepted n' = n_accepted n @ [acc_fd (sel_accept e)] \<and> acc_fd (sel_accept e) \<noteq> - 1)" if "0 \<le> r"
    using c
  proof (cases rule: nu_check_cases)
    case same
    show ?thesis by (subst (1 2 3 4) same(1)) simp
  qed (use that in auto)
  show "n_listenSocket n \<in> set (n_closed n') \<or> n_listenSocket n \<le> 0" if "r < 0"
    using c by (cases rule: nu_check_cases) (use that in auto)
next
  fix n
  show "\<exists>P. nu_getActiveConnections n = filter P (n_clients n)"
    by (auto simp: nu_getActiveConnections_def)
qed (auto simp: nu_disconnectSocket_def)

interpretation win_network: network_interface "\<lambda>e n. Inr (nw_checkForNewConnections e n)"
  nw_getActiveConnections nw_disconnectSocket
proof
  fix e n n' and r :: int
  assume c: "Inr (nw_checkForNewConnections e n) = (Inr (n', r) :: (network \<times> int) result)"
  show "n_listenSocket n' = n_listenSocket n \<and> n_closed n' = n_closed n \<and>
      (n_clients n' = n_clients n \<and> n_accepted n' = n_accepted n \<or>
       n_clients n' = n_clients n @ [acc_fd (sel_accept e)] \<and>
       n_accepted n' = n_accepted n @ [acc_fd (sel_accept e)] \<and> acc_fd (sel_accept e) \<noteq> - 1)" if "0 \<le> r"
    using c that
    by (auto simp: nw_checkForNewConnections_def nw_accept_def nw_close_def INVALID_SOCKET_def EAGAIN_def Let_def
        split: if_splits)
  show "n_listenSocket n \<in> set (n_closed n') \<or> n_listenSocket n \<le> 0" if "r < 0"
    using c that
    by (auto simp: nw_checkForNewConnections_def nw_accept_def nw_close_def INVALID_SOCKET_def EAGAIN_def Let_def
        split: if_splits)
next
  fix n
  show "\<exists>P. nw_getActiveConnections n = filter P (n_clients n)"
    by (auto simp: nw_getActiveConnections_def)
qed (auto simp: nw_disconnectSocket_def)

text \<open>The class of either build, as the server uses it.\<close>

interpretation net: network_interface "net_check P" "net_active P" "net_disconnect P" for P
proof
  fix e n n' and r :: int
  assume c: "net_check P e n = Inr (n', r)"
  show "n_listenSocket n' = n_listenSocket n \<and> n_closed n' = n_closed n \<and>
      (n_clients n' = n_clients n \<and> n_accepted n' = n_accepted n \<or>
       n_clients n' = n_clients n @ [acc_fd (sel_accept e)] \<and>
       n_accepted n' = n_accepted n @ [acc_fd (sel_accept e)] \<and> acc_fd (sel_accept e) \<noteq> - 1)" if "0 \<le> r"
    using c that unix_network.check_clients [of e n n' r] win_network.check_clients [of e n n' r] by (cases P) simp_all
  show "n_listenSocket n \<in> set (n_closed n') \<or> n_listenSocket n \<le> 0" if "r < 0"
    using c that unix_network.check_failed [of e n n' r] win_network.check_failed [of e n n' r] by (cases P) simp_all
next
  fix n fd
  show "\<exists>Q. net_active P n = filter Q (n_clients n)"
    using unix_network.active_clients win_network.active_clients by (cases P) simp_all
  show "n_clients (net_disconnect P fd n) = filter (\<lambda>c. c \<noteq> fd) (n_clients n)"
    using unix_network.drop_clients win_network.drop_clients by (cases P) simp_all
  show "n_closed (net_disconnect P fd n) = n_closed n \<and> n_accepted (net_disconnect P fd n) = n_accepted n \<and>
      n_listenSocket (net_disconnect P fd n) = n_listenSocket n"
    using unix_network.drop_frame win_network.drop_frame by (cases P) simp_all
qed

text \<open>
  Which sockets have been closed when a check has failed: on Unix the listening
  socket, on Windows an accepted one before it or the listening socket twice.
\<close>

fun closed_by_check :: "build \<Rightarrow> network \<Rightarrow> bool" where
  "closed_by_check Unix n \<longleftrightarrow> n_closed n = [n_listenSocket n]"
| "closed_by_check Windows n \<longleftrightarrow> n_closed n = [n_listenSocket n] \<or> n_closed n = [n_listenSocket n, n_listenSocket n] \<or>
     (\<exists>fd \<in> set (n_accepted n). n_closed n = [fd, n_listenSocket n])"

lemma net_check_failed:
  assumes "net_check P e n = Inr (n', r)" "r < 0" "usable P (n_listenSocket n)" "n_closed n = []"
  shows "closed_by_check P n' \<and> n_listenSocket n' = n_listenSocket n"
  using assms
  by (cases P) (auto simp: nu_checkForNewConnections_def nu_accept_def nu_close_def bindr_eq_Inr_iff EAGAIN_def FD_SET_def
      nw_checkForNewConnections_def nw_accept_def nw_close_def Let_def split: if_splits)

lemma net_port:
  "net_check P e n = Inr (n', r) \<Longrightarrow> n_port n' = n_port n" "n_port (fst (net_close P n)) = n_port n"
  "n_port (net_disconnect P fd n) = n_port n"
  by (cases P; auto simp: nu_checkForNewConnections_def nu_accept_def nu_close_def bindr_eq_Inr_iff nu_disconnectSocket_def
      nw_checkForNewConnections_def nw_accept_def nw_close_def nw_disconnectSocket_def Let_def split: if_splits)+

section \<open>Properties\<close>

text \<open>
  C24: On Unix a check for new connections never survives a failed \<open>accept\<close>:
  the code returns \<open>-EAGAIN\<close> for it but tests for \<open>EAGAIN\<close>, so also the harmless
  case that the pending connection is gone closes the listening socket and
  reports an error.  The same happens when a signal interrupts \<open>select\<close>: the
  set still holds the listening socket and nothing can be accepted.
\<close>

theorem failed_accept_is_fatal:
  assumes "0 < n_listenSocket n" "n_listenSocket n < FD_SETSIZE" "\<forall>fd \<in> set (n_clients n). 0 \<le> fd \<and> fd < FD_SETSIZE"
    and "acc_fd (sel_accept e) < 0"
    and "sel_total e < 0 \<and> sel_errno e = EINTR \<or>
      0 \<le> sel_total e \<and> n_listenSocket n \<in> sel_ready e \<and> n_listenSocket n \<le> maxFd n"
  shows "\<exists>n'. nu_checkForNewConnections e n = Inr (n', - EAGAIN) \<and> n_closed n' = n_closed n @ [n_listenSocket n] \<and>
    n_clients n' = n_clients n"
  using assms by (auto simp: nu_checkForNewConnections_def FD_SET_loop FD_SET_def nu_accept_def nu_close_def
      EAGAIN_def Let_def fd_select_def)

theorem failed_accept_is_fatal_witness:
  "\<exists>n'. nu_checkForNewConnections
      \<lparr>sel_total = 1, sel_errno = 0, sel_ready = {3}, sel_left = {},
       sel_accept = \<lparr>acc_fd = - 1, acc_keepalive = 0, acc_keepcnt = 0, acc_keepintvl = 0, acc_nodelay = 0\<rparr>\<rparr>
      (fst (nu_open 3 0 0 (NetworkUnix 0))) = Inr (n', - 11) \<and> n_closed n' = [3]"
  using failed_accept_is_fatal [of "fst (nu_open 3 0 0 (NetworkUnix 0))"
      "\<lparr>sel_total = 1, sel_errno = 0, sel_ready = {3}, sel_left = {},
       sel_accept = \<lparr>acc_fd = - 1, acc_keepalive = 0, acc_keepcnt = 0, acc_keepintvl = 0, acc_nodelay = 0\<rparr>\<rparr>"]
  by (auto simp: nu_open_def NetworkUnix_def FD_SETSIZE_def EAGAIN_def maxFd_def)

text \<open>
  A client whose descriptor does not fit into an \<open>fd_set\<close> is accepted and
  listed all the same, and the next check writes outside the set.
\<close>

theorem large_descriptor_overflows:
  assumes "fd \<in> set (n_clients n)" "FD_SETSIZE \<le> fd"
  shows "nu_checkForNewConnections e n = Inl OutOfBounds"
proof -
  have "\<exists>c \<in> set (n_clients n). \<not> (0 \<le> c \<and> c < FD_SETSIZE)"
    using assms by (intro bexI [of _ fd]) auto
  then show ?thesis
    by (auto simp: nu_checkForNewConnections_def FD_SET_loop bindr_eq_Inl_iff) (auto simp: FD_SET_def)
qed

theorem large_descriptor_overflows_witness:
  "nu_checkForNewConnections
      \<lparr>sel_total = 0, sel_errno = 0, sel_ready = {}, sel_left = {},
       sel_accept = \<lparr>acc_fd = - 1, acc_keepalive = 0, acc_keepcnt = 0, acc_keepintvl = 0, acc_nodelay = 0\<rparr>\<rparr>
      ((NetworkUnix 3)\<lparr>n_clients := [5, 1024]\<rparr>) = Inl OutOfBounds"
  by (rule large_descriptor_overflows [of 1024]) (simp_all add: FD_SETSIZE_def)

end
