(* ===== verification/Generic_Context.thy ===== *)
theory Generic_Context
  imports Devices Sockets Input_Parser
begin

text \<open>
  iiod/context/generic_xml/generic_xml_context.cpp: the implementation of the
  IIOD operations on a context description and a list of devices.  The
  members of \<open>AbstractOps\<close> and of the derived class \<open>Adalm2000Context\<close> are
  part of the object; the latter is present when the object is one.
\<close>

section \<open>State\<close>

text \<open>The members of \<open>struct tinyiiod_ops\<close>; a set holds those that are assigned.\<close>

datatype iiod_op =
    Op_read | Op_write | Op_read_line | Op_open_instance | Op_close_instance
  | Op_read_attr | Op_write_attr | Op_ch_read_attr | Op_ch_write_attr
  | Op_transfer_dev_to_mem | Op_read_data | Op_transfer_mem_to_dev | Op_write_data
  | Op_open | Op_close | Op_get_mask | Op_set_timeout | Op_set_buffers_count | Op_get_xml
  | Op_get_trigger | Op_set_trigger

text \<open>The members of \<open>Adalm2000Context\<close>.\<close>

record power_supply =
  m_ps_calib_coefficients :: "double list"
  m_ps_write_coefficients :: "double list"
  m_ps_read_coefficients :: "double list"
  m_ps_current_values :: "string list"

text \<open>The pointer to the text for clients: not yet set, null, or an array.\<close>

datatype text_ptr = Unset_text | Null_text | Text "char list"

text \<open>
  The current socket, a local variable of the server, is reached through the
  context only while it is current, so its state is kept here; \<open>None\<close> is the
  pointer before it is first set.  \<open>m_freed\<close> holds the indices of the devices
  that have been deleted.
\<close>

record xml_context =
  m_doc :: "xdoc option"
  m_current_socket :: "socket option"
  m_devices :: "device list"
  m_freed :: "nat set"
  m_ctx_xml :: text_ptr
  m_xml_size :: int
  m_iiodOps :: "iiod_op set"
  m_adalm :: "power_supply option"

text \<open>What an operation reaches outside the context: files, and the two directions of the connection.\<close>

record io =
  io_fs :: fsys
  io_recv :: inbound
  io_send :: "send_outcome list"

section \<open>Devices of a context\<close>

text \<open>The first device whose id is \<open>device_id\<close>, by its index.\<close>

fun find_device :: "device list \<Rightarrow> string \<Rightarrow> nat option result" where
  "find_device [] device_id = Inr None"
| "find_device (dev # devs) device_id =
     bindr (strcmp_eq (getDeviceId dev) device_id) (\<lambda>m.
       if m then Inr (Some 0) else bindr (find_device devs device_id) (\<lambda>r. Inr (map_option Suc r)))"

definition getDevice :: "xml_context \<Rightarrow> string \<Rightarrow> nat option result" where
  "getDevice c device_id = find_device (m_devices c) device_id"

fun find_descriptor :: "device list \<Rightarrow> int \<Rightarrow> nat option" where
  "find_descriptor [] fd = None"
| "find_descriptor (dev # devs) fd =
     (if dev_getDescriptor dev = fd then Some 0 else map_option Suc (find_descriptor devs fd))"

definition getDevice_fd :: "xml_context \<Rightarrow> int \<Rightarrow> nat option" where
  "getDevice_fd c fd = find_descriptor (m_devices c) fd"

definition addDevice :: "xml_context \<Rightarrow> device \<Rightarrow> xml_context" where
  "addDevice c dev = c\<lparr>m_devices := m_devices c @ [dev]\<rparr>"

definition set_device :: "xml_context \<Rightarrow> nat \<Rightarrow> device \<Rightarrow> xml_context" where
  "set_device c i dev = c\<lparr>m_devices := (m_devices c)[i := dev]\<rparr>"

text \<open>Is there a channel with a scan element?\<close>

definition isScanChannel :: "xdoc option \<Rightarrow> string \<Rightarrow> bool result" where
  "isScanChannel doc device_id =
     (case xmlDocGetRootElement doc of
        None \<Rightarrow> Inr False
      | Some r \<Rightarrow>
          bindr (getNode r ''device'' ''id'' device_id) (\<lambda>d.
            case d of
              None \<Rightarrow> Inr False
            | Some i \<Rightarrow>
                Inr (list_ex (\<lambda>ch. nname ch = ''channel'' \<and> getNode_named ch ''scan-element'' \<noteq> None)
                       (nchildren (nchildren r ! i)))))"

definition isOutputChannel :: "xdoc option \<Rightarrow> string \<Rightarrow> bool result" where
  "isOutputChannel doc device_id =
     bindr (isScanChannel doc device_id) (\<lambda>scan.
       if \<not> scan then Inr False
       else case xmlDocGetRootElement doc of
         None \<Rightarrow> Inr False
       | Some r \<Rightarrow>
           bindr (getNode r ''device'' ''id'' device_id) (\<lambda>d.
             case d of
               None \<Rightarrow> Inr False
             | Some i \<Rightarrow>
                 bindr (getNode (nchildren r ! i) ''channel'' ''type'' ''input'')
                   (\<lambda>a. Inr (a = None))))"

definition isInputChannel :: "xdoc option \<Rightarrow> string \<Rightarrow> bool result" where
  "isInputChannel doc device_id =
     bindr (isScanChannel doc device_id) (\<lambda>scan.
       if \<not> scan then Inr False else bindr (isOutputChannel doc device_id) (\<lambda>out. Inr (\<not> out)))"

section \<open>Construction and destruction\<close>

definition assignBasicOps :: "xml_context \<Rightarrow> xml_context" where
  "assignBasicOps c = c\<lparr>m_iiodOps := m_iiodOps c \<union>
     {Op_read, Op_write, Op_read_attr, Op_write_attr, Op_ch_read_attr, Op_ch_write_attr,
      Op_transfer_dev_to_mem, Op_read_data, Op_transfer_mem_to_dev, Op_write_data, Op_open, Op_close,
      Op_get_mask, Op_set_buffers_count, Op_get_xml, Op_get_trigger, Op_set_trigger}\<rparr>"

definition assignAllOps :: "xml_context \<Rightarrow> xml_context" where
  "assignAllOps c = c\<lparr>m_iiodOps := m_iiodOps c \<union>
     {Op_read, Op_write, Op_read_line, Op_open_instance, Op_close_instance, Op_read_attr, Op_write_attr,
      Op_ch_read_attr, Op_ch_write_attr, Op_transfer_dev_to_mem, Op_read_data, Op_transfer_mem_to_dev,
      Op_write_data, Op_open, Op_close, Op_get_mask, Op_set_timeout, Op_get_trigger, Op_set_trigger,
      Op_set_buffers_count, Op_get_xml}\<rparr>"

text \<open>
  \<open>AbstractOps\<close> and the common part of the two constructors: the document is
  read and its text prepared.  A failing \<open>getXml\<close> leaves the pointer to the
  text unset.
\<close>

definition new_context :: "libxml \<Rightarrow> xdoc option \<Rightarrow> xml_context" where
  "new_context L doc =
     (let (sz, text) = getXml L doc in
      \<lparr>m_doc = doc, m_current_socket = None, m_devices = [], m_freed = {},
       m_ctx_xml = (case text of None \<Rightarrow> Unset_text | Some t \<Rightarrow> Text t), m_xml_size = sz,
       m_iiodOps = {}, m_adalm = None\<rparr>)"

text \<open>
  The device for one argument; \<open>junk\<close> holds what its memory contains before
  it is initialised: the byte after the id, the descriptor and the mask.
\<close>

definition generic_device ::
  "xdoc option \<Rightarrow> string \<times> string \<Rightarrow> char \<times> int \<times> 32 word \<Rightarrow> device option result" where
  "generic_device doc devInfo junk =
     (case junk of (c, fd0, mask0) \<Rightarrow>
      bindr (isScanChannel doc (fst devInfo)) (\<lambda>scan.
        if \<not> scan then Inr None
        else bindr (isOutputChannel doc (fst devInfo)) (\<lambda>out.
          if out then Inr (Some (Dev_GenericTX (GenericTXDevice (fst devInfo) (snd devInfo) c fd0 mask0)))
          else Inr (Some (Dev_GenericRX (GenericRXDevice (fst devInfo) (snd devInfo) c fd0 mask0))))))"

fun add_generic_devices ::
  "(string \<times> string) list \<Rightarrow> (char \<times> int \<times> 32 word) list \<Rightarrow> xml_context \<Rightarrow> xml_context result" where
  "add_generic_devices [] junk c = Inr c"
| "add_generic_devices (devInfo # devInfos) [] c = Inl Unmodelled"
| "add_generic_devices (devInfo # devInfos) (j # junk) c =
     bindr (generic_device (m_doc c) devInfo j) (\<lambda>dev.
       add_generic_devices devInfos junk (case dev of None \<Rightarrow> c | Some d \<Rightarrow> addDevice c d))"

text \<open>The path from the arguments is passed on as it is, also when it is null.\<close>

definition GenericXmlContext_args ::
  "libxml \<Rightarrow> string list \<Rightarrow> (char \<times> int \<times> 32 word) list \<Rightarrow> xml_context result" where
  "GenericXmlContext_args L args junk =
     (let xmlPath = getXMLPath args;
          devices = getDevices args
      in bindr (add_generic_devices devices junk (new_context L (xmlReadFile L xmlPath)))
           (\<lambda>c. Inr (assignBasicOps c)))"

definition GenericXmlContext_file :: "libxml \<Rightarrow> string \<Rightarrow> xml_context" where
  "GenericXmlContext_file L file = new_context L (xmlReadMemory L (Some file))"

text \<open>
  The destructor frees the operations, the document and the text and deletes
  the devices.  The list keeps its pointers, since the loop clears only its
  own copy of each; deleting an unset pointer, or a device a second time, is
  undefined behaviour.
\<close>

definition delete_device :: "nat \<Rightarrow> xml_context \<Rightarrow> xml_context result" where
  "delete_device i c = (if i \<in> m_freed c then Inl OutOfBounds else Inr (c\<lparr>m_freed := insert i (m_freed c)\<rparr>))"

definition delete_GenericXmlContext :: "xml_context \<Rightarrow> xml_context result" where
  "delete_GenericXmlContext c =
     (if m_ctx_xml c = Unset_text then Inl OutOfBounds
      else foldr_result delete_device [0..<length (m_devices c)]
             (c\<lparr>m_iiodOps := {}, m_doc := None, m_ctx_xml := Null_text\<rparr>))"

section \<open>Communication\<close>

definition readData ::
  "env \<Rightarrow> xml_context \<Rightarrow> io \<Rightarrow> char list \<Rightarrow> nat \<Rightarrow> (xml_context \<times> io \<times> char list \<times> int) result" where
  "readData E c io buf len =
     (case m_current_socket c of
        None \<Rightarrow> Inl NullDeref
      | Some s \<Rightarrow>
          bindr (socket_read E (io_recv io) s buf len) (\<lambda>(s, buf, n, os).
            Inr (c\<lparr>m_current_socket := Some s\<rparr>, io\<lparr>io_recv := os\<rparr>, buf, n)))"

definition writeData ::
  "xml_context \<Rightarrow> io \<Rightarrow> char list \<Rightarrow> nat \<Rightarrow> (xml_context \<times> io \<times> int) result" where
  "writeData c io buf len =
     (case m_current_socket c of
        None \<Rightarrow> Inl NullDeref
      | Some s \<Rightarrow>
          bindr (socket_write (io_send io) s buf len) (\<lambda>(s, os).
            Inr (c\<lparr>m_current_socket := Some s\<rparr>, io\<lparr>io_send := os\<rparr>, 0)))"

definition readLine :: "char list \<Rightarrow> nat \<Rightarrow> int" where
  "readLine buf len = - ENOENT"

definition openInstance :: int where
  "openInstance = - ENOENT"

definition closeInstance :: int where
  "closeInstance = - ENOENT"

definition setCurrentSocket :: "xml_context \<Rightarrow> socket \<Rightarrow> xml_context" where
  "setCurrentSocket c s = c\<lparr>m_current_socket := Some s\<rparr>"

definition socketDisconnected :: "xml_context \<Rightarrow> int \<Rightarrow> xml_context" where
  "socketDisconnected c fd =
     (case getDevice_fd c fd of
        None \<Rightarrow> c
      | Some i \<Rightarrow> set_device c i (fst (cancel_buffer (m_devices c ! i))))"

section \<open>Attributes\<close>

definition readAttr ::
  "env \<Rightarrow> xml_context \<Rightarrow> string \<Rightarrow> string \<Rightarrow> char list \<Rightarrow> nat \<Rightarrow> iio_attr_type \<Rightarrow> (char list \<times> int) result" where
  "readAttr E c device_id attr buf len type = read_device_attr (env_xml E) (m_doc c) device_id attr buf len type"

definition writeAttr ::
  "env \<Rightarrow> xml_context \<Rightarrow> string \<Rightarrow> string \<Rightarrow> char list \<Rightarrow> nat \<Rightarrow> iio_attr_type \<Rightarrow> (xml_context \<times> int) result" where
  "writeAttr E c device_id attr buf len type =
     bindr (write_dev_attr (env_xml E) (m_doc c) device_id attr buf len type) (\<lambda>(doc, r).
       Inr (c\<lparr>m_doc := doc\<rparr>, r))"

definition chReadAttr ::
  "env \<Rightarrow> xml_context \<Rightarrow> string \<Rightarrow> string \<Rightarrow> bool \<Rightarrow> string \<Rightarrow> char list \<Rightarrow> nat \<Rightarrow> (char list \<times> int) result" where
  "chReadAttr E c device_id channel ch_out attr buf len =
     read_channel_attr (env_xml E) (m_doc c) device_id channel ch_out attr buf len"

definition generic_chWriteAttr ::
  "env \<Rightarrow> xml_context \<Rightarrow> string \<Rightarrow> string \<Rightarrow> bool \<Rightarrow> string \<Rightarrow> char list \<Rightarrow> nat \<Rightarrow> (xml_context \<times> int) result" where
  "generic_chWriteAttr E c device_id channel ch_out attr buf len =
     bindr (write_channel_attr (env_xml E) (m_doc c) device_id channel ch_out attr buf len) (\<lambda>(doc, r).
       Inr (c\<lparr>m_doc := doc\<rparr>, r))"

section \<open>Device operations\<close>

definition openDev ::
  "env \<Rightarrow> xml_context \<Rightarrow> string \<Rightarrow> nat \<Rightarrow> 32 word \<Rightarrow> bool \<Rightarrow> (xml_context \<times> int) result" where
  "openDev E c device sample_size msk cyclic =
     bindr (getDevice c device) (\<lambda>found.
       case found of
         None \<Rightarrow> Inr (c, - ENOENT)
       | Some i \<Rightarrow>
           (case m_current_socket c of
              None \<Rightarrow> Inl NullDeref
            | Some s \<Rightarrow>
                bindr (open_dev E (m_doc c) (dev_setDescriptor (socket_getDescriptor s) (m_devices c ! i))
                         sample_size msk cyclic) (\<lambda>(dev, r). Inr (set_device c i dev, r))))"

definition closeDev :: "xml_context \<Rightarrow> string \<Rightarrow> (xml_context \<times> int) result" where
  "closeDev c device =
     bindr (getDevice c device) (\<lambda>found.
       case found of
         None \<Rightarrow> Inr (c, - ENOENT)
       | Some i \<Rightarrow> (let (dev, r) = close_dev (m_devices c ! i) in Inr (set_device c i dev, r)))"

definition transferDevToMem :: "xml_context \<Rightarrow> string \<Rightarrow> nat \<Rightarrow> (xml_context \<times> int) result" where
  "transferDevToMem c device bytes_count =
     bindr (getDevice c device) (\<lambda>found.
       case found of
         None \<Rightarrow> Inr (c, - ENOENT)
       | Some i \<Rightarrow>
           if is_device_in (m_devices c ! i)
           then bindr (transfer_dev_to_mem (m_devices c ! i) bytes_count) (\<lambda>(dev, r). Inr (set_device c i dev, r))
           else Inr (c, - ENOENT))"

definition readDev ::
  "env \<Rightarrow> xml_context \<Rightarrow> io \<Rightarrow> string \<Rightarrow> byte list \<Rightarrow> nat \<Rightarrow> nat \<Rightarrow>
     (xml_context \<times> io \<times> byte list \<times> int) result" where
  "readDev E c io device pbuf offset bytes_count =
     bindr (getDevice c device) (\<lambda>found.
       case found of
         None \<Rightarrow> Inr (c, io, pbuf, - ENOENT)
       | Some i \<Rightarrow>
           if is_device_in (m_devices c ! i)
           then bindr (read_dev E (m_doc c) i pbuf offset bytes_count (m_devices c) (io_fs io))
                  (\<lambda>(devs, fs, pbuf, r). Inr (c\<lparr>m_devices := devs\<rparr>, io\<lparr>io_fs := fs\<rparr>, pbuf, r))
           else Inr (c, io, pbuf, - ENOENT))"

definition transferMemToDev :: "env \<Rightarrow> xml_context \<Rightarrow> string \<Rightarrow> nat \<Rightarrow> (xml_context \<times> int) result" where
  "transferMemToDev E c device bytes_count =
     bindr (getDevice c device) (\<lambda>found.
       case found of
         None \<Rightarrow> Inr (c, - ENOENT)
       | Some i \<Rightarrow>
           if is_device_out (m_devices c ! i)
           then bindr (transfer_mem_to_dev E (m_doc c) (m_devices c ! i) bytes_count) (\<lambda>(dev, r).
                  Inr (set_device c i dev, r))
           else Inr (c, - ENOENT))"

definition writeDev ::
  "xml_context \<Rightarrow> io \<Rightarrow> string \<Rightarrow> byte list \<Rightarrow> nat \<Rightarrow> nat \<Rightarrow> (xml_context \<times> io \<times> int) result" where
  "writeDev c io device buf offset bytes_count =
     bindr (getDevice c device) (\<lambda>found.
       case found of
         None \<Rightarrow> Inr (c, io, - ENOENT)
       | Some i \<Rightarrow>
           if is_device_out (m_devices c ! i)
           then bindr (write_dev (m_devices c ! i) buf offset bytes_count (io_fs io)) (\<lambda>(dev, fs, r).
                  Inr (set_device c i dev, io\<lparr>io_fs := fs\<rparr>, r))
           else Inr (c, io, - ENOENT))"

definition getMask :: "xml_context \<Rightarrow> string \<Rightarrow> 32 word \<Rightarrow> (32 word \<times> int) result" where
  "getMask c device msk =
     bindr (getDevice c device) (\<lambda>found.
       case found of
         None \<Rightarrow> Inr (msk, - ENOENT)
       | Some i \<Rightarrow> Inr (get_mask (m_devices c ! i) msk))"

definition setBuffersCount :: "xml_context \<Rightarrow> string \<Rightarrow> 32 word \<Rightarrow> (xml_context \<times> int) result" where
  "setBuffersCount c device buffers_count =
     bindr (getDevice c device) (\<lambda>found.
       case found of
         None \<Rightarrow> Inr (c, - ENOENT)
       | Some i \<Rightarrow> (let (dev, r) = set_buffers_count (m_devices c ! i) buffers_count in Inr (set_device c i dev, r)))"

definition setTimeout :: "32 word \<Rightarrow> int" where
  "setTimeout timeout = - ENOENT"

definition getTrigger :: "string \<Rightarrow> char list \<Rightarrow> nat \<Rightarrow> int" where
  "getTrigger device trigger len = - ENOENT"

definition setTrigger :: "string \<Rightarrow> char list \<Rightarrow> nat \<Rightarrow> int" where
  "setTrigger device trigger len = - ENOENT"

text \<open>\<open>*outxml\<close> and the result; \<open>have_outxml\<close> tells whether the pointer is not null.\<close>

definition getXml_op :: "xml_context \<Rightarrow> bool \<Rightarrow> text_ptr option \<times> int" where
  "getXml_op c have_outxml = (if \<not> have_outxml then (None, - 1) else (Some (m_ctx_xml c), m_xml_size c))"

section \<open>What every operation keeps\<close>

text \<open>
  An operation on a context keeps the classes, ids and connections of the
  devices, the assigned operations and the text for clients; the current
  socket may disconnect but stays the same socket.
\<close>

definition socket_next :: "socket option \<Rightarrow> socket option \<Rightarrow> bool" where
  "socket_next a b \<longleftrightarrow>
     (case a of
        None \<Rightarrow> b = None
      | Some s \<Rightarrow> \<exists>t. b = Some t \<and> s_fd t = s_fd s \<and> (socket_ok s \<longrightarrow> socket_ok t))"

definition keeps :: "xml_context \<Rightarrow> xml_context \<Rightarrow> bool" where
  "keeps c c' \<longleftrightarrow> map dev_shape (m_devices c') = map dev_shape (m_devices c) \<and>
     m_iiodOps c' = m_iiodOps c \<and> m_ctx_xml c' = m_ctx_xml c \<and> m_xml_size c' = m_xml_size c \<and>
     m_freed c' = m_freed c \<and> (m_adalm c' = None \<longleftrightarrow> m_adalm c = None) \<and>
     socket_next (m_current_socket c) (m_current_socket c')"

named_theorems keeps_rules \<open>operations keep the shape of the context\<close>

lemma socket_next_refl: "socket_next a a"
  by (auto simp: socket_next_def split: option.splits)

lemma socket_next_trans: "socket_next a b \<Longrightarrow> socket_next b c \<Longrightarrow> socket_next a c"
  by (auto simp: socket_next_def split: option.splits)

lemma keeps_refl [simp]: "keeps c c"
  by (simp add: keeps_def socket_next_refl)

lemma keeps_trans: "keeps a b \<Longrightarrow> keeps b c \<Longrightarrow> keeps a c"
  unfolding keeps_def using socket_next_trans by metis

lemma keeps_doc [simp]: "keeps c (c\<lparr>m_doc := doc\<rparr>)"
  by (simp add: keeps_def socket_next_refl)

lemma keeps_device: "dev_shape d = dev_shape (m_devices c ! i) \<Longrightarrow> keeps c (set_device c i d)"
  by (simp add: keeps_def set_device_def socket_next_refl shapes_update)

lemma readData_keeps [keeps_rules]: "readData E c io buf len = Inr (c', io', buf', r) \<Longrightarrow> keeps c c'"
  by (auto simp: readData_def keeps_def bindr_eq_Inr_iff socket_next_def disconnect_def
      dest!: socket_read_socket split: option.splits intro: socket_ok_disconnect [unfolded disconnect_def])

lemma writeData_keeps [keeps_rules]: "writeData c io buf len = Inr (c', io', r) \<Longrightarrow> keeps c c'"
  by (auto simp: writeData_def keeps_def bindr_eq_Inr_iff socket_next_def disconnect_def
      dest!: write_socket split: option.splits intro: socket_ok_disconnect [unfolded disconnect_def])

lemma writeAttr_keeps [keeps_rules]: "writeAttr E c dev attr buf len type = Inr (c', r) \<Longrightarrow> keeps c c'"
  by (auto simp: writeAttr_def bindr_eq_Inr_iff)

lemma generic_chWriteAttr_keeps [keeps_rules]:
  "generic_chWriteAttr E c dev chn out attr buf len = Inr (c', r) \<Longrightarrow> keeps c c'"
  by (auto simp: generic_chWriteAttr_def bindr_eq_Inr_iff)

text \<open>The operations on devices share their beginning.\<close>

lemma found_device:
  assumes "bindr (getDevice c dev) (\<lambda>found. case found of None \<Rightarrow> Inr x0 | Some i \<Rightarrow> f i) = Inr x"
  obtains "x = x0" | i where "f i = Inr x"
  using assms by (auto simp: bindr_eq_Inr_iff split: option.split_asm)

lemma openDev_keeps [keeps_rules]:
  assumes "openDev E c dev n msk cyclic = Inr (c', r)"
  shows "keeps c c'"
  using assms unfolding openDev_def
  by (rule found_device) (auto simp: bindr_eq_Inr_iff shape_simps split: option.split_asm
      intro!: keeps_device dest!: open_dev_shape)

lemma closeDev_keeps [keeps_rules]:
  assumes "closeDev c dev = Inr (c', r)"
  shows "keeps c c'"
  using assms unfolding closeDev_def
  by (rule found_device) (auto split: prod.split_asm intro!: keeps_device dest!: close_dev_shape)

lemma transferDevToMem_keeps [keeps_rules]:
  assumes "transferDevToMem c dev n = Inr (c', r)"
  shows "keeps c c'"
  using assms unfolding transferDevToMem_def
  by (rule found_device) (auto simp: bindr_eq_Inr_iff split: if_split_asm
      intro!: keeps_device dest!: transfer_dev_to_mem_shape)

lemma transferMemToDev_keeps [keeps_rules]:
  assumes "transferMemToDev E c dev n = Inr (c', r)"
  shows "keeps c c'"
  using assms unfolding transferMemToDev_def
  by (rule found_device) (auto simp: bindr_eq_Inr_iff split: if_split_asm
      intro!: keeps_device dest!: transfer_mem_to_dev_shape)

lemma readDev_keeps [keeps_rules]:
  assumes "readDev E c io dev buf off n = Inr (c', io', buf', r)"
  shows "keeps c c'"
  using assms unfolding readDev_def
  by (rule found_device) (auto simp: bindr_eq_Inr_iff keeps_def socket_next_refl split: if_split_asm
      dest!: read_dev_shape)

lemma writeDev_keeps [keeps_rules]:
  assumes "writeDev c io dev buf off n = Inr (c', io', r)"
  shows "keeps c c'"
  using assms unfolding writeDev_def
  by (rule found_device) (auto simp: bindr_eq_Inr_iff split: if_split_asm
      intro!: keeps_device dest!: write_dev_shape)

lemma setBuffersCount_keeps [keeps_rules]:
  assumes "setBuffersCount c dev n = Inr (c', r)"
  shows "keeps c c'"
  using assms unfolding setBuffersCount_def
  by (rule found_device) (auto split: prod.split_asm intro!: keeps_device dest!: set_buffers_count_shape)

lemma socketDisconnected_keeps [keeps_rules]: "keeps c (socketDisconnected c fd)"
  by (auto simp: socketDisconnected_def shape_simps intro!: keeps_device split: option.splits)

section \<open>Finding a device\<close>

lemma find_device_range: "find_device devs i = Inr (Some k) \<Longrightarrow> k < length devs"
  by (induction devs arbitrary: k) (auto simp: bindr_eq_Inr_iff split: if_split_asm)

lemma find_device_ids:
  "map getDeviceId devs' = map getDeviceId devs \<Longrightarrow> find_device devs' i = find_device devs i"
proof (induction devs arbitrary: devs')
  case (Cons d devs)
  then obtain e es where "devs' = e # es" "getDeviceId e = getDeviceId d" "map getDeviceId es = map getDeviceId devs"
    by auto
  moreover from this have "find_device es i = find_device devs i" by (intro Cons.IH)
  ultimately show ?case by (simp cong: if_cong)
qed simp

text \<open>The shape of a device decides its id and its class.\<close>

lemma shape_determines:
  assumes "map dev_shape devs' = map dev_shape devs"
  shows "map getDeviceId devs' = map getDeviceId devs" "map is_device_in devs' = map is_device_in devs"
    "map is_device_out devs' = map is_device_out devs"
proof -
  have *: "getDeviceId d = fst (snd (dev_shape d))" "is_device_in d = (fst (dev_shape d) \<in> {0, 2, 4})"
    "is_device_out d = (fst (dev_shape d) \<in> {1, 3, 5})" for d
    by (cases d; simp)+
  have "map f (map dev_shape devs') = map f (map dev_shape devs)" for f :: "_ \<Rightarrow> 'x"
    using assms by simp
  from this [of "\<lambda>s. fst (snd s)"] this [of "\<lambda>s. fst s \<in> {0, 2, 4}"] this [of "\<lambda>s. fst s \<in> {1, 3, 5}"]
  show "map getDeviceId devs' = map getDeviceId devs" "map is_device_in devs' = map is_device_in devs"
    "map is_device_out devs' = map is_device_out devs"
    unfolding * map_map comp_def .
qed

lemma keeps_getDevice: "keeps c c' \<Longrightarrow> getDevice c' i = getDevice c i"
  unfolding keeps_def getDevice_def by (intro find_device_ids shape_determines(1)) simp

section \<open>Properties\<close>

text \<open>
  The ids as the clients use them: every device's id is a C string, and no two
  devices share one.
\<close>

definition id_block :: "string \<Rightarrow> char list \<Rightarrow> bool" where
  "id_block i b \<longleftrightarrow> NUL \<notin> set i \<and> b = i @ [NUL]"

lemma find_device_index:
  assumes "list_all2 (\<lambda>i d. id_block i (getDeviceId d)) ids devs" "NUL \<notin> set i"
  shows "find_device devs i = Inr (first_index (\<lambda>j. j = i) ids)"
  using assms
proof (induction ids devs rule: list_all2_induct)
  case (Cons j ids d devs)
  have "strcmp_eq (getDeviceId d) i = Inr (j = i)"
    using Cons strcmp_eq_string [of j i "[]"] by (simp add: id_block_def)
  then show ?case using Cons by simp
qed simp

text \<open>
  C40: The constructors of the file devices copy the id without its terminator.
  A context finds such a device exactly if the byte after the id happens to
  be zero; with any other byte there every operation on the device fails with
  \<open>-ENOENT\<close> although it was configured.
\<close>

theorem generic_device_found:
  assumes "NUL \<notin> set i"
  shows "find_device [Dev_GenericTX (GenericTXDevice i path junk fd msk)] i = Inr (if junk = NUL then Some 0 else None) \<and>
    find_device [Dev_GenericRX (GenericRXDevice i path junk fd msk)] i = Inr (if junk = NUL then Some 0 else None)"
  using assms strcmp_eq_unterminated [of junk i] strcmp_eq_string [of i i "[]"]
  by (auto simp: GenericTXDevice_def GenericRXDevice_def)

theorem generic_device_found_witness:
  "find_device [Dev_GenericTX (GenericTXDevice ''iio:device2'' ''data.bin'' CHR ''x'' 0 0)] ''iio:device2'' = Inr None"
  using generic_device_found [of "''iio:device2''" "''data.bin''" "CHR ''x''" 0 0] by (simp add: NUL_def)

text \<open>
  C38: An operation on a device the context does not have, and an input
  operation on an output device or the other way round, returns \<open>-ENOENT\<close>
  and changes nothing.
\<close>

theorem device_ops_refused:
  assumes "getDevice c dev = Inr found"
  shows "(found = None \<longrightarrow>
      openDev E c dev n msk cyclic = Inr (c, - ENOENT) \<and> closeDev c dev = Inr (c, - ENOENT) \<and>
      getMask c dev msk = Inr (msk, - ENOENT) \<and> setBuffersCount c dev msk = Inr (c, - ENOENT)) \<and>
    (found = None \<or> (\<exists>i. found = Some i \<and> \<not> is_device_in (m_devices c ! i)) \<longrightarrow>
      transferDevToMem c dev n = Inr (c, - ENOENT) \<and> readDev E c io dev buf off n = Inr (c, io, buf, - ENOENT)) \<and>
    (found = None \<or> (\<exists>i. found = Some i \<and> \<not> is_device_out (m_devices c ! i)) \<longrightarrow>
      transferMemToDev E c dev n = Inr (c, - ENOENT) \<and> writeDev c io dev buf off n = Inr (c, io, - ENOENT))"
  using assms
  by (auto simp: openDev_def closeDev_def getMask_def setBuffersCount_def transferDevToMem_def readDev_def
      transferMemToDev_def writeDev_def)

definition one_device :: "device \<Rightarrow> xml_context" where
  "one_device d = \<lparr>m_doc = None, m_current_socket = None, m_devices = [d], m_freed = {}, m_ctx_xml = Unset_text,
     m_xml_size = 0, m_iiodOps = {}, m_adalm = None\<rparr>"

definition no_io :: io where
  "no_io = \<lparr>io_fs = one_file [] [], io_recv = ([], []), io_send = []\<rparr>"

theorem device_ops_refused_witness:
  "writeDev (one_device (Dev_M2kADC scope)) no_io ''iio:device0'' [1] 0 1
     = Inr (one_device (Dev_M2kADC scope), no_io, - ENOENT) \<and>
   closeDev (one_device (Dev_M2kADC scope)) ''iio:device1'' = Inr (one_device (Dev_M2kADC scope), - ENOENT)"
proof -
  define c where "c = one_device (Dev_M2kADC scope)"
  have "getDevice c ''iio:device0'' = Inr (Some 0)" "getDevice c ''iio:device1'' = Inr None"
    "\<not> is_device_out (m_devices c ! 0)"
    by (simp_all add: c_def getDevice_def one_device_def scope_def M2kADC_def NUL_def)
  then show ?thesis
    using device_ops_refused [of c "''iio:device0''" "Some 0" _ 1 0 False no_io "[1]" 0]
      device_ops_refused [of c "''iio:device1''" None] by (simp add: c_def)
qed

text \<open>
  A disconnected client gives up one device only: the first one opened
  through its descriptor has its buffer cancelled, all other devices keep
  theirs, also those the same client had open.
\<close>

theorem disconnect_cancels_first:
  "m_devices (socketDisconnected c fd) =
    (case first_index (\<lambda>d. dev_getDescriptor d = fd) (m_devices c) of
       None \<Rightarrow> m_devices c
     | Some i \<Rightarrow> (m_devices c)[i := fst (cancel_buffer (m_devices c ! i))])"
proof -
  have "find_descriptor devs fd = first_index (\<lambda>d. dev_getDescriptor d = fd) devs" for devs
    by (induction devs) simp_all
  then show ?thesis
    by (simp add: socketDisconnected_def getDevice_fd_def set_device_def split: option.split)
qed

end
