(* ===== verification/Adalm2000_Context.thy ===== *)
theory Adalm2000_Context
  imports Generic_Context
begin

text \<open>
  iiod/context/adalm2000/adalm2000_context.cpp: the context of the emulated
  ADALM2000.  It adds five connected devices to the generic context and
  overrides the channel write, through which the two power supplies feed
  back into the read channels of \<open>iio:device13\<close>.
\<close>

section \<open>Calibration of the power supplies\<close>

definition DAC_OFFSET_POS :: nat where "DAC_OFFSET_POS = 0"
definition DAC_GAIN_POS :: nat where "DAC_GAIN_POS = 1"
definition ADC_OFFSET_POS :: nat where "ADC_OFFSET_POS = 2"
definition ADC_GAIN_POS :: nat where "ADC_GAIN_POS = 3"
definition DAC_OFFSET_NEG :: nat where "DAC_OFFSET_NEG = 4"
definition DAC_GAIN_NEG :: nat where "DAC_GAIN_NEG = 5"
definition ADC_OFFSET_NEG :: nat where "ADC_OFFSET_NEG = 6"
definition ADC_GAIN_NEG :: nat where "ADC_GAIN_NEG = 7"

definition calibAttrs :: "string list" where
  "calibAttrs =
     [''cal,offset_pos_dac'', ''cal,gain_pos_dac'', ''cal,offset_pos_adc'', ''cal,gain_pos_adc'',
      ''cal,offset_neg_dac'', ''cal,gain_neg_dac'', ''cal,offset_neg_adc'', ''cal,gain_neg_adc'']"

text \<open>The loop reads every attribute into the same buffer.\<close>

fun load_coefficients ::
  "env \<Rightarrow> xdoc option \<Rightarrow> string list \<Rightarrow> char list \<Rightarrow> double list result" where
  "load_coefficients E doc [] buf = Inr []"
| "load_coefficients E doc (attrName # attrNames) buf =
     bindr (read_context_attr (env_xml E) doc attrName buf (IIOD_BUFFER_SIZE E)) (\<lambda>(buf, ret).
     bindr (cstr buf) (\<lambda>s.
     bindr (load_coefficients E doc attrNames buf) (\<lambda>vs. Inr (safe_stod s # vs))))"

definition loadPSCalibCoef :: "env \<Rightarrow> xdoc option \<Rightarrow> power_supply \<Rightarrow> power_supply result" where
  "loadPSCalibCoef E doc ps =
     bindr (load_coefficients E doc calibAttrs (stack_junk E)) (\<lambda>vs.
       Inr (ps\<lparr>m_ps_calib_coefficients := vs\<rparr>))"

definition convertPSDACRawToVolts :: "power_supply \<Rightarrow> nat \<Rightarrow> int \<Rightarrow> double result" where
  "convertPSDACRawToVolts ps channel value =
     bindr (vec_at (m_ps_calib_coefficients ps) (if channel = 0 then DAC_OFFSET_POS else DAC_OFFSET_NEG)) (\<lambda>offset.
     bindr (vec_at (m_ps_calib_coefficients ps) (if channel = 0 then DAC_GAIN_POS else DAC_GAIN_NEG)) (\<lambda>gain.
     bindr (vec_at (m_ps_write_coefficients ps) channel) (\<lambda>coefficient.
       Inr (div_d (sub_d (div_d (of_int_d value) gain) offset) coefficient))))"

definition convertPSADCVoltsToRaw :: "power_supply \<Rightarrow> nat \<Rightarrow> double \<Rightarrow> int result" where
  "convertPSADCVoltsToRaw ps channel value =
     bindr (vec_at (m_ps_calib_coefficients ps) (if channel = 0 then ADC_OFFSET_POS else ADC_OFFSET_NEG)) (\<lambda>offset.
     bindr (vec_at (m_ps_calib_coefficients ps) (if channel = 0 then ADC_GAIN_POS else ADC_GAIN_NEG)) (\<lambda>gain.
     bindr (vec_at (m_ps_read_coefficients ps) channel) (\<lambda>coefficient.
       cast_i32 (div_d (sub_d (div_d value gain) offset) coefficient))))"

section \<open>Construction and destruction\<close>

text \<open>What the device constructors leave uninitialised.\<close>

record adalm_junk =
  junk_fd :: int
  junk_rate :: double
  junk_ratio :: nat
  junk_cyclic :: bool
  junk_enable :: bool

definition adalm_devices :: "env \<Rightarrow> adalm_junk \<Rightarrow> device list" where
  "adalm_devices E j =
     [Dev_M2kADC (M2kADC E ''iio:device0'' (junk_fd j) (junk_rate j) (junk_ratio j)),
      Dev_M2kDAC (M2kDAC ''iio:device6'' (junk_fd j) (junk_cyclic j) (junk_enable j) (junk_rate j) (junk_ratio j)),
      Dev_M2kDAC (M2kDAC ''iio:device7'' (junk_fd j) (junk_cyclic j) (junk_enable j) (junk_rate j) (junk_ratio j)),
      Dev_M2kLogicRX (M2kLogicRX ''iio:device10'' (junk_fd j) (junk_rate j)),
      Dev_M2kLogicTX (M2kLogicTX ''iio:device9'' (junk_fd j) (junk_rate j))]"

text \<open>One call \<open>in->connectDevice(channel, out, 0)\<close> on the devices of a context.\<close>

definition connect :: "nat \<Rightarrow> nat \<Rightarrow> nat \<Rightarrow> xml_context \<Rightarrow> xml_context result" where
  "connect dev_in channel dev_out c =
     bindr (connectDevice (m_devices c ! dev_in) channel dev_out 0) (\<lambda>d. Inr (set_device c dev_in d))"

definition initial_power_supply :: power_supply where
  "initial_power_supply =
     \<lparr>m_ps_calib_coefficients = [], m_ps_write_coefficients = [], m_ps_read_coefficients = [],
      m_ps_current_values = []\<rparr>"

text \<open>\<open>adalm2000_xml\<close> is generated at build time from adalm2000.xml.\<close>

definition Adalm2000Context :: "env \<Rightarrow> string \<Rightarrow> adalm_junk \<Rightarrow> xml_context result" where
  "Adalm2000Context E adalm2000_xml j =
     (let c = GenericXmlContext_file (env_xml E) adalm2000_xml;
          c = foldl addDevice c (adalm_devices E j)
      in bindr (connect 0 0 1 c) (\<lambda>c.
         bindr (connect 0 1 2 c) (\<lambda>c.
         bindr (connect 3 0 4 c) (\<lambda>c.
         let c = assignBasicOps c in
         bindr (loadPSCalibCoef E (m_doc c) initial_power_supply) (\<lambda>ps.
           Inr (c\<lparr>m_adalm := Some (ps\<lparr>
               m_ps_write_coefficients :=
                 [div_d (fl 4095) (mul_d (fl (502 / 100)) (fl (12 / 10))),
                  div_d (fl 4095) (mul_d (neg_d (fl (51 / 10))) (fl (12 / 10)))],
               m_ps_read_coefficients :=
                 [div_d (fl (64 / 10)) (fl 4095), div_d (neg_d (fl (64 / 10))) (fl 4095)],
               m_ps_current_values := [[], []]\<rparr>)\<rparr>))))))"

text \<open>The destructor frees everything itself, and then the one of the base class runs.\<close>

definition delete_Adalm2000Context :: "xml_context \<Rightarrow> xml_context result" where
  "delete_Adalm2000Context c =
     (if m_ctx_xml c = Unset_text then Inl OutOfBounds
      else bindr (foldr_result delete_device [0..<length (m_devices c)]
                    (c\<lparr>m_iiodOps := {}, m_doc := None, m_ctx_xml := Null_text\<rparr>))
             delete_GenericXmlContext)"

section \<open>Writing a channel attribute\<close>

text \<open>The channel of the supply written, and the channel it is read back from.\<close>

definition supply_channel :: "string \<Rightarrow> nat \<times> string" where
  "supply_channel channel =
     (if strncmp_eq channel ''voltage0'' 8 then (0, ''voltage2'') else (1, ''voltage1''))"

definition supply_update :: "power_supply \<Rightarrow> nat \<Rightarrow> string \<Rightarrow> char list \<Rightarrow> power_supply result" where
  "supply_update ps channelIdx attr buf =
     (if strncmp_eq attr ''raw'' 3 then
        bindr (cstr buf) (\<lambda>s.
        bindr (stoi s) (\<lambda>raw.
        bindr (convertPSDACRawToVolts ps channelIdx raw) (\<lambda>voltage.
        bindr (convertPSADCVoltsToRaw ps channelIdx voltage) (\<lambda>res.
          if channelIdx < length (m_ps_current_values ps)
          then Inr (ps\<lparr>m_ps_current_values := (m_ps_current_values ps)[channelIdx := to_string res]\<rparr>)
          else Inl OutOfRange))))
      else Inr ps)"

definition adalm_chWriteAttr ::
  "env \<Rightarrow> power_supply \<Rightarrow> xml_context \<Rightarrow> string \<Rightarrow> string \<Rightarrow> bool \<Rightarrow> string \<Rightarrow> char list \<Rightarrow> nat \<Rightarrow>
     (xml_context \<times> int) result" where
  "adalm_chWriteAttr E ps c device_id channel ch_out attr buf len =
     bindr (generic_chWriteAttr E c device_id channel ch_out attr buf len) (\<lambda>(c, ret).
       if \<not> strncmp_eq device_id ''iio:device3'' 11 then Inr (c, ret)
       else
         let (channelIdx, channelRead) = supply_channel channel in
         bindr (supply_update ps channelIdx attr buf) (\<lambda>ps.
         bindr (chn_attr E (m_doc c) device_id channel ch_out ''powerdown'' (stack_junk E)) (\<lambda>buffer.
         bindr (strncmp_mem buffer ''1'') (\<lambda>down.
         bindr (if down
                then generic_chWriteAttr E c ''iio:device13'' channelRead False ''raw'' (''0'' @ [NUL]) 1
                else bindr (vec_at (m_ps_current_values ps) channelIdx) (\<lambda>v.
                  generic_chWriteAttr E c ''iio:device13'' channelRead False ''raw'' (v @ [NUL]) (length v)))
           (\<lambda>(c, _). Inr (c\<lparr>m_adalm := Some ps\<rparr>, ret))))))"

section \<open>The virtual functions that differ\<close>

definition chWriteAttr ::
  "env \<Rightarrow> xml_context \<Rightarrow> string \<Rightarrow> string \<Rightarrow> bool \<Rightarrow> string \<Rightarrow> char list \<Rightarrow> nat \<Rightarrow> (xml_context \<times> int) result" where
  "chWriteAttr E c device_id channel ch_out attr buf len =
     (case m_adalm c of
        None \<Rightarrow> generic_chWriteAttr E c device_id channel ch_out attr buf len
      | Some ps \<Rightarrow> adalm_chWriteAttr E ps c device_id channel ch_out attr buf len)"

definition delete_context :: "xml_context \<Rightarrow> xml_context result" where
  "delete_context c = (if m_adalm c = None then delete_GenericXmlContext c else delete_Adalm2000Context c)"

lemma adalm_chWriteAttr_keeps:
  assumes "adalm_chWriteAttr E ps c dev chn out attr buf len = Inr (c', r)" "m_adalm c \<noteq> None"
  shows "keeps c c'"
proof -
  obtain c1 where c1: "generic_chWriteAttr E c dev chn out attr buf len = Inr (c1, r)"
    and rest: "c' = c1 \<or> (\<exists>c2 dev' chn' out' attr' buf' len' r' ps'.
       generic_chWriteAttr E c1 dev' chn' out' attr' buf' len' = Inr (c2, r') \<and> c' = c2\<lparr>m_adalm := Some ps'\<rparr>)"
    using assms(1) unfolding adalm_chWriteAttr_def
    by (fastforce simp: bindr_eq_Inr_iff split: if_splits prod.splits)
  have k1: "keeps c c1" using c1 by (rule generic_chWriteAttr_keeps)
  from rest show ?thesis
  proof (elim disjE exE conjE)
    fix c2 dev' chn' out' attr' buf' len' r' and ps' :: power_supply
    assume "generic_chWriteAttr E c1 dev' chn' out' attr' buf' len' = Inr (c2, r')" "c' = c2\<lparr>m_adalm := Some ps'\<rparr>"
    then have "keeps c c2" and "c' = c2\<lparr>m_adalm := Some ps'\<rparr>"
      using k1 keeps_trans generic_chWriteAttr_keeps by blast+
    then show ?thesis using assms(2) by (simp add: keeps_def)
  qed (use k1 in simp)
qed

lemma chWriteAttr_keeps [keeps_rules]:
  "chWriteAttr E c dev chn out attr buf len = Inr (c', r) \<Longrightarrow> keeps c c'"
  by (auto simp: chWriteAttr_def split: option.splits intro: generic_chWriteAttr_keeps adalm_chWriteAttr_keeps)

section \<open>The constructed context\<close>

lemma Adalm2000Context_devices:
  assumes "Adalm2000Context E file j = Inr c"
  shows "m_devices c =
     [Dev_M2kADC ((M2kADC E ''iio:device0'' (junk_fd j) (junk_rate j) (junk_ratio j))
        \<lparr>adc_connections := [(Some 1, 0), (Some 2, 0)]\<rparr>),
      Dev_M2kDAC (M2kDAC ''iio:device6'' (junk_fd j) (junk_cyclic j) (junk_enable j) (junk_rate j) (junk_ratio j)),
      Dev_M2kDAC (M2kDAC ''iio:device7'' (junk_fd j) (junk_cyclic j) (junk_enable j) (junk_rate j) (junk_ratio j)),
      Dev_M2kLogicRX ((M2kLogicRX ''iio:device10'' (junk_fd j) (junk_rate j))\<lparr>lrx_connections := [(Some 4, 0)]\<rparr>),
      Dev_M2kLogicTX (M2kLogicTX ''iio:device9'' (junk_fd j) (junk_rate j))]"
    and "m_freed c = {}" "m_adalm c \<noteq> None" "m_current_socket c = None"
  using assms
  by (auto simp: Adalm2000Context_def GenericXmlContext_file_def new_context_def adalm_devices_def addDevice_def
      connect_def set_device_def adc_connectDevice_def lrx_connectDevice_def M2kADC_def M2kLogicRX_def
      M2K_ADC_CHANNELS_def assignBasicOps_def bindr_eq_Inr_iff Let_def numeral_2_eq_2 split: prod.split_asm)

text \<open>A loop over devices none of which has been deleted deletes each of them.\<close>

lemma delete_devices_freed:
  "distinct is \<Longrightarrow> set is \<inter> m_freed c = {} \<Longrightarrow>
    foldr_result delete_device is c = Inr (c\<lparr>m_freed := set is \<union> m_freed c\<rparr>)"
  by (induction "is" arbitrary: c) (auto simp: delete_device_def)

lemma delete_all_devices:
  "m_freed c = {} \<Longrightarrow>
    foldr_result delete_device [0..<length (m_devices c)] c = Inr (c\<lparr>m_freed := {..<length (m_devices c)}\<rparr>)"
  using delete_devices_freed [of "[0..<length (m_devices c)]" c] by (auto simp: lessThan_atLeast0)

text \<open>The calibration values of a description, as strings, and the coefficients loaded from them.\<close>

definition context_value :: "env \<Rightarrow> xdoc option \<Rightarrow> string \<Rightarrow> string \<Rightarrow> bool" where
  "context_value E doc attr v =
     (case xmlDocGetRootElement doc of
        None \<Rightarrow> False
      | Some r \<Rightarrow>
          (case getNode r ''context-attribute'' ''name'' attr of
             Inr (Some i) \<Rightarrow> xmlGetProp (env_xml E) (nchildren r ! i) ''value'' = Some v \<and>
               NUL \<notin> set v \<and> length v < IIOD_BUFFER_SIZE E
           | _ \<Rightarrow> False))"

lemma load_coefficients_values:
  assumes "list_all2 (context_value E doc) attrs vs" "length buf = IIOD_BUFFER_SIZE E"
  shows "load_coefficients E doc attrs buf = Inr (map safe_stod vs)"
  using assms
proof (induction attrs vs arbitrary: buf rule: list_all2_induct)
  case (Cons attr attrs v vs)
  let ?buf = "v @ NUL # drop (Suc (length v)) buf"
  have v: "NUL \<notin> set v" "length v < IIOD_BUFFER_SIZE E" and
    "read_context_attr (env_xml E) doc attr buf (IIOD_BUFFER_SIZE E) = Inr (?buf, int (length v) + 1)"
    using Cons.hyps(1) Cons.prems
    by (auto simp: context_value_def read_context_attr_def copy_value_fits xmlDocGetRootElement_def
        split: option.split_asm sum.split_asm)
  moreover have "length ?buf = IIOD_BUFFER_SIZE E" using v Cons.prems by simp
  ultimately show ?case using Cons.IH [of ?buf] by (simp add: cstr_append)
qed simp

section \<open>A write to a supply\<close>

lemma generic_chWriteAttr_search:
  assumes "setprop_ok (env_xml E)" "generic_chWriteAttr E c dev chn out attr buf len = Inr (c', r)"
  shows "getChannelAttr (m_doc c') chn' dev' attr' out' = getChannelAttr (m_doc c) chn' dev' attr' out'"
proof -
  obtain doc where w: "write_channel_attr (env_xml E) (m_doc c) dev chn out attr buf len = Inr (doc, r)"
    and c': "c' = c\<lparr>m_doc := doc\<rparr>"
    using assms(2) by (auto simp: generic_chWriteAttr_def bindr_eq_Inr_iff)
  have "doc = m_doc c \<or> (\<exists>p v. doc = set_value (env_xml E) (m_doc c) p v)"
    using w unfolding write_channel_attr_def
    by (auto simp: bindr_eq_Inr_iff split: if_split_asm option.split_asm)
  then show ?thesis using getChannelAttr_update [OF assms(1)] by (auto simp: c')
qed

lemma generic_chWriteAttr_value:
  assumes "setprop_ok (env_xml E)" "getChannelAttr (m_doc c) chn dev attr out = Inr (Some p)" "NUL \<notin> set v"
    and "generic_chWriteAttr E c dev chn out attr (v @ [NUL]) n = Inr (c', r)"
    and "length v < len" "len \<le> length buf"
  shows "read_channel_attr (env_xml E) (m_doc c') dev chn out attr buf len =
    Inr (v @ NUL # drop (Suc (length v)) buf, int (length v) + 1)"
proof -
  obtain d where d: "m_doc c = Some d" using getChannelAttr_doc [OF assms(2)] by blast
  have c': "m_doc c' = set_value (env_xml E) (m_doc c) p v"
    using assms(2-4) d cstr_append [of v "[]"]
    by (auto simp: generic_chWriteAttr_def write_channel_attr_def bindr_eq_Inr_iff)
  obtain q where q: "xmlDocGetRootElement (m_doc c) = Some q" "valid_ptr p q"
    by (rule getChannelAttr_valid [OF assms(2)])
  have "getChannelAttr (m_doc c') chn dev attr out = Inr (Some p)"
    using assms(2) getChannelAttr_update [OF assms(1)] by (simp add: c')
  then show ?thesis using set_value_written [OF assms(1) q, of v] assms(3,5,6)
    by (simp add: read_channel_attr_found c' copy_value_fits)
qed

lemma supply_update_texts:
  assumes "supply_update ps i attr buf = Inr ps'" "\<forall>v \<in> set (m_ps_current_values ps). NUL \<notin> set v"
  shows "\<forall>v \<in> set (m_ps_current_values ps'). NUL \<notin> set v"
  using assms to_string_no_NUL
  by (fastforce simp: supply_update_def bindr_eq_Inr_iff split: if_split_asm dest!: set_update_subset_insert [THEN subsetD])

section \<open>Properties\<close>

lemma adalm2000_wired:
  assumes "Adalm2000Context E file j = Inr c"
  shows "(\<forall>i < 5. getDevice c ([''iio:device0'', ''iio:device6'', ''iio:device7'', ''iio:device10'', ''iio:device9''] ! i)
        = Inr (Some i)) \<and>
    map is_device_in (m_devices c) = [True, False, False, True, False] \<and>
    map is_device_out (m_devices c) = [False, True, True, False, True] \<and>
    (\<exists>d. m_devices c ! 0 = Dev_M2kADC d \<and> adc_connections d = [(Some 1, 0), (Some 2, 0)]) \<and>
    (\<exists>d. m_devices c ! 3 = Dev_M2kLogicRX d \<and> lrx_connections d = [(Some 4, 0)])"
proof -
  let ?ids = "[''iio:device0'', ''iio:device6'', ''iio:device7'', ''iio:device10'', ''iio:device9'']"
  note d = Adalm2000Context_devices(1) [OF assms]
  have ids: "list_all2 (\<lambda>i d. id_block i (getDeviceId d)) ?ids (m_devices c)"
    unfolding d by (simp add: id_block_def M2kADC_def M2kDAC_def M2kLogicRX_def M2kLogicTX_def NUL_def)
  have "NUL \<notin> set (?ids ! i) \<and> first_index (\<lambda>j. j = ?ids ! i) ?ids = Some i" if "i < 5" for i
    using that by (simp add: less_Suc_eq eval_nat_numeral NUL_def) auto
  then have "\<forall>i < 5. getDevice c (?ids ! i) = Inr (Some i)"
    using find_device_index [OF ids] by (simp add: getDevice_def)
  moreover have "map is_device_in (m_devices c) = [True, False, False, True, False] \<and>
    map is_device_out (m_devices c) = [False, True, True, False, True] \<and>
    (\<exists>d. m_devices c ! 0 = Dev_M2kADC d \<and> adc_connections d = [(Some 1, 0), (Some 2, 0)]) \<and>
    (\<exists>d. m_devices c ! 3 = Dev_M2kLogicRX d \<and> lrx_connections d = [(Some 4, 0)])"
    unfolding d by (simp add: numeral_3_eq_3)
  ultimately show ?thesis by blast
qed

text \<open>
  C28: A constructed ADALM2000 has its five devices in place, an oscilloscope,
  two signal generators, a logic analyser and a pattern generator, each found
  under its id, with both channels of the oscilloscope connected to the two
  signal generators and the logic analyser to the pattern generator.
\<close>

theorem adalm2000_connected:
  assumes "Adalm2000Context E file j = Inr c"
  shows "(\<forall>i < 5. getDevice c ([''iio:device0'', ''iio:device6'', ''iio:device7'', ''iio:device10'', ''iio:device9''] ! i)
        = Inr (Some i)) \<and>
    (\<exists>scope gen1 gen2 analyser pattern.
       m_devices c = [Dev_M2kADC scope, Dev_M2kDAC gen1, Dev_M2kDAC gen2, Dev_M2kLogicRX analyser, Dev_M2kLogicTX pattern] \<and>
       adc_connections scope = [(Some 1, 0), (Some 2, 0)] \<and> lrx_connections analyser = [(Some 4, 0)])"
  using adalm2000_wired [OF assms] Adalm2000Context_devices(1) [OF assms] by auto

definition no_junk :: adalm_junk where
  "no_junk = \<lparr>junk_fd = 0, junk_rate = Zero False, junk_ratio = 0, junk_cyclic = False, junk_enable = False\<rparr>"

lemma m2k_coefficients:
  "load_coefficients m2k_env m2k_doc calibAttrs (stack_junk m2k_env) = Inr (map safe_stod
     [''0.018'', ''0.998048'', ''0.000730159'', ''0.995132'', ''0.0017'', ''0.996722'', ''-0.00167558'', ''1.00724''])"
proof (rule load_coefficients_values)
  have "IIOD_BUFFER_SIZE m2k_env = 16" by code_simp
  then show "length (stack_junk m2k_env) = IIOD_BUFFER_SIZE m2k_env"
    by (simp add: IIOD_BUFFER_SIZE_def)
  show "list_all2 (context_value m2k_env m2k_doc) calibAttrs
     [''0.018'', ''0.998048'', ''0.000730159'', ''0.995132'', ''0.0017'', ''0.996722'', ''-0.00167558'', ''1.00724'']"
    by code_simp
qed

lemma adalm2000_built_ok:
  assumes "xmlReadMemory (env_xml E) (Some file) = doc" "load_coefficients E doc calibAttrs (stack_junk E) = Inr vs"
  shows "\<exists>c. Adalm2000Context E file j = Inr c \<and> m_doc c = doc \<and>
    (\<exists>ps. m_adalm c = Some ps \<and> m_ps_calib_coefficients ps = vs \<and> m_ps_current_values ps = [[], []])"
  using assms
  by (auto simp: Adalm2000Context_def GenericXmlContext_file_def new_context_def adalm_devices_def addDevice_def
      connect_def set_device_def adc_connectDevice_def lrx_connectDevice_def M2kADC_def M2kLogicRX_def
      M2K_ADC_CHANNELS_def assignBasicOps_def loadPSCalibCoef_def numeral_2_eq_2 split: prod.split)

text \<open>The context built from the description above.\<close>

definition m2k :: xml_context where
  "m2k = projr (Adalm2000Context m2k_env [] no_junk)"

lemma m2k_built:
  "Adalm2000Context m2k_env [] no_junk = Inr m2k" "m_doc m2k = m2k_doc"
  "\<exists>ps. m_adalm m2k = Some ps \<and> m_ps_current_values ps = [[], []]"
proof -
  have "xmlReadMemory (env_xml m2k_env) (Some []) = m2k_doc"
    by (simp add: m2k_env_def libxml_lists_def)
  from adalm2000_built_ok [OF this m2k_coefficients, of no_junk]
  show "Adalm2000Context m2k_env [] no_junk = Inr m2k" "m_doc m2k = m2k_doc"
    "\<exists>ps. m_adalm m2k = Some ps \<and> m_ps_current_values ps = [[], []]"
    by (auto simp: m2k_def)
qed

theorem adalm2000_connected_witness:
  "getDevice m2k ''iio:device9'' = Inr (Some 4)"
proof -
  have "(4 :: nat) < 5" by simp
  with adalm2000_connected [OF m2k_built(1)]
  have "getDevice m2k ([''iio:device0'', ''iio:device6'', ''iio:device7'', ''iio:device10'', ''iio:device9''] ! 4) = Inr (Some 4)"
    by blast
  then show ?thesis by (simp add: eval_nat_numeral)
qed

text \<open>
  C39: Destroying an ADALM2000 context deletes its devices twice, once in its
  own destructor and once in the inherited one, which finds the pointers
  still in the list; destroying a generic context deletes each device once.
\<close>

theorem adalm2000_deleted_twice:
  "(Adalm2000Context E file j = Inr c \<longrightarrow> delete_context c = Inl OutOfBounds) \<and>
   (m_adalm g = None \<and> m_freed g = {} \<and> m_ctx_xml g \<noteq> Unset_text \<longrightarrow>
     (\<exists>g'. delete_context g = Inr g' \<and> m_freed g' = {..<length (m_devices g)}))"
proof (intro conjI impI)
  assume a: "Adalm2000Context E file j = Inr c"
  define c0 where "c0 = c\<lparr>m_iiodOps := {}, m_doc := None, m_ctx_xml := Null_text\<rparr>"
  have dev: "m_devices c0 \<noteq> []" "m_freed c0 = {}" "m_adalm c \<noteq> None" "length (m_devices c) = length (m_devices c0)"
    using Adalm2000Context_devices [OF a] by (simp_all add: c0_def)
  obtain c1 where c1: "foldr_result delete_device [0..<length (m_devices c0)] c0 = Inr c1"
    and f: "m_freed c1 = {..<length (m_devices c0)}" "m_devices c1 = m_devices c0" "m_ctx_xml c1 = Null_text"
    using delete_all_devices [of c0] dev(2) by (auto simp: c0_def)
  have "delete_GenericXmlContext c1 = Inl OutOfBounds"
    using dev(1) f by (auto simp: delete_GenericXmlContext_def upt_conv_Cons delete_device_def)
  then show "delete_context c = Inl OutOfBounds"
    using c1 dev(3,4) by (cases "m_adalm c") (simp_all add: delete_context_def delete_Adalm2000Context_def c0_def [symmetric])
next
  assume "m_adalm g = None \<and> m_freed g = {} \<and> m_ctx_xml g \<noteq> Unset_text"
  then show "\<exists>g'. delete_context g = Inr g' \<and> m_freed g' = {..<length (m_devices g)}"
    using delete_all_devices [of "g\<lparr>m_iiodOps := {}, m_doc := None, m_ctx_xml := Null_text\<rparr>"]
    by (auto simp: delete_context_def delete_GenericXmlContext_def)
qed

theorem adalm2000_deleted_twice_witness:
  "delete_context m2k = Inl OutOfBounds \<and>
   (\<exists>g'. delete_context (GenericXmlContext_file (env_xml m2k_env) []) = Inr g' \<and> m_freed g' = {})"
proof -
  define g where "g = GenericXmlContext_file (env_xml m2k_env) []"
  have g: "m_adalm g = None" "m_freed g = {}" "m_devices g = []"
    by (simp_all add: g_def GenericXmlContext_file_def new_context_def split: prod.split)
  have "m_ctx_xml g \<noteq> Unset_text" unfolding g_def by code_simp
  then show ?thesis
    using adalm2000_deleted_twice [of m2k_env "[]" no_junk m2k g] m2k_built(1) g unfolding g_def [symmetric] by auto
qed

text \<open>
  C15: A write to a power supply is what the host reads back from the
  measuring channel of that supply: \<open>0\<close> if the supply's powerdown attribute
  starts with 1 after the write, and the last value computed for the supply
  otherwise, which a write to \<open>raw\<close> has just replaced.
\<close>

theorem supply_write_effect:
  assumes "setprop_ok (env_xml E)" "m_adalm c = Some ps" "\<forall>v \<in> set (m_ps_current_values ps). NUL \<notin> set v"
    and "supply_channel chn = (i, back)"
    and "getChannelAttr (m_doc c) back ''iio:device13'' ''raw'' False = Inr (Some p)"
    and "chWriteAttr E c ''iio:device3'' chn out attr buf n = Inr (c', r)"
  shows "\<exists>c1 ps' b v. generic_chWriteAttr E c ''iio:device3'' chn out attr buf n = Inr (c1, r) \<and>
    supply_update ps i attr buf = Inr ps' \<and> m_adalm c' = Some ps' \<and>
    chn_attr E (m_doc c1) ''iio:device3'' chn out ''powerdown'' (stack_junk E) = Inr b \<and>
    v = (if take 1 b = ''1'' then ''0'' else m_ps_current_values ps' ! i) \<and>
    (\<forall>mem len. length v < len \<and> len \<le> length mem \<longrightarrow>
      chReadAttr E c' ''iio:device13'' back False ''raw'' mem len =
        Inr (v @ NUL # drop (Suc (length v)) mem, int (length v) + 1))"
proof -
  obtain c1 ps' b down c2 r2 where c1: "generic_chWriteAttr E c ''iio:device3'' chn out attr buf n = Inr (c1, r)"
    and ps': "supply_update ps i attr buf = Inr ps'"
    and b: "chn_attr E (m_doc c1) ''iio:device3'' chn out ''powerdown'' (stack_junk E) = Inr b"
    and down: "strncmp_mem b ''1'' = Inr down"
    and c2: "(if down
                then generic_chWriteAttr E c1 ''iio:device13'' back False ''raw'' (''0'' @ [NUL]) 1
                else bindr (vec_at (m_ps_current_values ps') i) (\<lambda>v.
                  generic_chWriteAttr E c1 ''iio:device13'' back False ''raw'' (v @ [NUL]) (length v))) = Inr (c2, r2)"
    and c': "c' = c2\<lparr>m_adalm := Some ps'\<rparr>"
    using assms(2,4,6)
    by (auto simp: chWriteAttr_def adalm_chWriteAttr_def strncmp_eq_def bindr_eq_Inr_iff split: prod.split_asm)
  define v where "v = (if down then ''0'' else m_ps_current_values ps' ! i)"
  have down_eq: "down = (take 1 b = ''1'')"
    using down by (cases b) (auto split: if_split_asm)
  have "(\<exists>k. generic_chWriteAttr E c1 ''iio:device13'' back False ''raw'' (v @ [NUL]) k = Inr (c2, r2)) \<and> NUL \<notin> set v"
    using c2 supply_update_texts [OF ps' assms(3)]
    by (auto simp: v_def NUL_def vec_at_def bindr_eq_Inr_iff split: if_split_asm)
  then obtain k where k: "generic_chWriteAttr E c1 ''iio:device13'' back False ''raw'' (v @ [NUL]) k = Inr (c2, r2)"
    and "NUL \<notin> set v" by blast
  have "getChannelAttr (m_doc c1) back ''iio:device13'' ''raw'' False = Inr (Some p)"
    using assms(5) generic_chWriteAttr_search [OF assms(1) c1] by simp
  note read = generic_chWriteAttr_value [OF assms(1) this \<open>NUL \<notin> set v\<close> k]
  have "\<forall>mem len. length v < len \<and> len \<le> length mem \<longrightarrow>
      chReadAttr E c' ''iio:device13'' back False ''raw'' mem len =
        Inr (v @ NUL # drop (Suc (length v)) mem, int (length v) + 1)"
    using read by (simp add: chReadAttr_def c')
  then show ?thesis using c1 ps' b c' down_eq v_def by auto
qed

theorem supply_write_effect_witness:
  "\<exists>c' r. chWriteAttr m2k_env m2k ''iio:device3'' ''voltage0'' True ''powerdown'' (''1'' @ [NUL]) 1 = Inr (c', r) \<and>
     chReadAttr m2k_env c' ''iio:device13'' ''voltage2'' False ''raw'' (replicate 4 (CHR ''#'')) 4 =
       Inr (''0'' @ [NUL, CHR ''#'', CHR ''#''], 2)"
proof -
  define L where "L = env_xml m2k_env"
  define doc where "doc = fst (projr (write_channel_attr L m2k_doc ''iio:device3'' ''voltage0'' True ''powerdown'' (''1'' @ [NUL]) 1))"
  obtain r where w: "write_channel_attr L m2k_doc ''iio:device3'' ''voltage0'' True ''powerdown'' (''1'' @ [NUL]) 1 = Inr (doc, r)"
  proof -
    have "\<not> isl (write_channel_attr L m2k_doc ''iio:device3'' ''voltage0'' True ''powerdown'' (''1'' @ [NUL]) 1)"
      unfolding L_def by code_simp
    then show thesis using that by (cases "write_channel_attr L m2k_doc ''iio:device3'' ''voltage0'' True ''powerdown'' (''1'' @ [NUL]) 1")
        (auto simp: doc_def)
  qed
  have b: "chn_attr m2k_env doc ''iio:device3'' ''voltage0'' True ''powerdown'' (stack_junk m2k_env) =
      Inr (''1'' @ NUL # replicate 14 (CHR ''#''))"
    unfolding doc_def L_def by code_simp
  have "\<not> isl (write_channel_attr L doc ''iio:device13'' ''voltage2'' False ''raw'' (''0'' @ [NUL]) 1)"
    unfolding doc_def L_def by code_simp
  then obtain doc2 r2 where w2: "write_channel_attr L doc ''iio:device13'' ''voltage2'' False ''raw'' (''0'' @ [NUL]) 1 = Inr (doc2, r2)"
    by (cases "write_channel_attr L doc ''iio:device13'' ''voltage2'' False ''raw'' (''0'' @ [NUL]) 1") auto
  obtain ps where ps: "m_adalm m2k = Some ps" "m_ps_current_values ps = [[], []]"
    using m2k_built(3) by blast
  have ch: "supply_channel ''voltage0'' = (0, ''voltage2'')" by code_simp
  define c' where "c' = m2k\<lparr>m_doc := doc2, m_adalm := Some ps\<rparr>"
  have wr: "chWriteAttr m2k_env m2k ''iio:device3'' ''voltage0'' True ''powerdown'' (''1'' @ [NUL]) 1 = Inr (c', r)"
    using w w2 ch b m2k_built(2) ps(1)
    by (simp add: chWriteAttr_def adalm_chWriteAttr_def generic_chWriteAttr_def supply_update_def strncmp_eq_def
        c'_def L_def)
  have "\<exists>p. getChannelAttr (m_doc m2k) ''voltage2'' ''iio:device13'' ''raw'' False = Inr (Some p)"
    unfolding m2k_built(2) by (rule exI [of _ "[11, 0, 0]"]) code_simp
  then obtain p where p: "getChannelAttr (m_doc m2k) ''voltage2'' ''iio:device13'' ''raw'' False = Inr (Some p)" ..
  have "setprop_ok (env_xml m2k_env)" by (simp add: m2k_env_def libxml_lists_ok)
  note effect = supply_write_effect [OF this ps(1) _ ch p wr]
  have "\<forall>v \<in> set (m_ps_current_values ps). NUL \<notin> set v" by (simp add: ps(2))
  from effect [OF this] obtain c1 ps' b' v where
    c1: "generic_chWriteAttr m2k_env m2k ''iio:device3'' ''voltage0'' True ''powerdown'' (''1'' @ [NUL]) 1 = Inr (c1, r)"
    and b': "chn_attr m2k_env (m_doc c1) ''iio:device3'' ''voltage0'' True ''powerdown'' (stack_junk m2k_env) = Inr b'"
    and "m_adalm c' = Some ps'"
    and vb: "v = (if take 1 b' = ''1'' then ''0'' else m_ps_current_values ps' ! 0)"
    and v: "\<forall>mem len. length v < len \<and> len \<le> length mem \<longrightarrow>
      chReadAttr m2k_env c' ''iio:device13'' ''voltage2'' False ''raw'' mem len =
        Inr (v @ NUL # drop (Suc (length v)) mem, int (length v) + 1)"
    by (elim exE conjE) (rule that)
  have "m_doc c1 = doc" using c1 w m2k_built(2) by (auto simp: generic_chWriteAttr_def L_def)
  then have "take 1 b' = ''1''" using b b' by auto
  then have "v = ''0''" using vb by simp
  with v have "chReadAttr m2k_env c' ''iio:device13'' ''voltage2'' False ''raw'' (replicate 4 (CHR ''#'')) 4 =
      Inr (''0'' @ NUL # drop 2 (replicate 4 (CHR ''#'')), 2)"
    by (simp add: numeral_2_eq_2)
  then show ?thesis using wr by (auto simp: numeral_eq_Suc)
qed

end
