(* ===== verification/Ops_Wrapper.thy ===== *)
theory Ops_Wrapper
  imports Adalm2000_Context Logger
begin

text \<open>
  iiod/ops: the factory that builds a context, and the C functions of
  tinyiiod_ops_wrapper.cpp through which libtinyiiod reaches it by way of
  the global \<open>g_ops\<close>.  The log calls the wrappers make have no effect on the
  state and are left out (see \<open>Logger\<close>).
\<close>

section \<open>The factory\<close>

text \<open>
  What the constructors read from uninitialised memory, and the generated
  description of the ADALM2000.
\<close>

record surroundings =
  s_env :: env
  s_generic_junk :: "(char \<times> int \<times> 32 word) list"
  s_adalm_xml :: string
  s_adalm_junk :: adalm_junk

definition buildOps :: "surroundings \<Rightarrow> string \<Rightarrow> string list \<Rightarrow> xml_context option result" where
  "buildOps S type args =
     (if strncmp_eq type ''generic'' 7 then
        (if args = [] then Inr None
         else bindr (GenericXmlContext_args (env_xml (s_env S)) args (s_generic_junk S)) (\<lambda>c. Inr (Some c)))
      else if strncmp_eq type ''adalm2000'' 9 then
        bindr (Adalm2000Context (s_env S) (s_adalm_xml S) (s_adalm_junk S)) (\<lambda>c. Inr (Some c))
      else Inr None)"

section \<open>The wrappers\<close>

text \<open>
  The global pointer and the outside.  The server holds the same object
  under \<open>m_ops\<close>, so the context is kept here only.
\<close>

record world =
  g_ops :: "xml_context option"
  w_io :: io

definition set_ops :: "xml_context option \<Rightarrow> world \<Rightarrow> world" where
  "set_ops ops w = w\<lparr>g_ops := ops\<rparr>"

text \<open>What a call hands back besides its result: a buffer filled, a mask, the text.\<close>

datatype payload =
    No_payload
  | Chars "char list"
  | Bytes "byte list"
  | Mask "32 word"
  | Xml "text_ptr option"

text \<open>The shapes of the calls: reading the context, changing it, and reaching outside.\<close>

definition ops_query :: "(xml_context \<Rightarrow> (payload \<times> int) result) \<Rightarrow> world \<Rightarrow> (world \<times> payload \<times> int) result" where
  "ops_query f w =
     (case g_ops w of
        None \<Rightarrow> Inr (w, No_payload, - ENOENT)
      | Some c \<Rightarrow> bindr (f c) (\<lambda>r. Inr (w, r)))"

definition ops_update :: "(xml_context \<Rightarrow> (xml_context \<times> int) result) \<Rightarrow> world \<Rightarrow> (world \<times> payload \<times> int) result" where
  "ops_update f w =
     (case g_ops w of
        None \<Rightarrow> Inr (w, No_payload, - ENOENT)
      | Some c \<Rightarrow> bindr (f c) (\<lambda>(c, r). Inr (w\<lparr>g_ops := Some c\<rparr>, No_payload, r)))"

definition ops_io ::
  "(xml_context \<Rightarrow> io \<Rightarrow> (xml_context \<times> io \<times> payload \<times> int) result) \<Rightarrow> world \<Rightarrow> (world \<times> payload \<times> int) result" where
  "ops_io f w =
     (case g_ops w of
        None \<Rightarrow> Inr (w, No_payload, - ENOENT)
      | Some c \<Rightarrow> bindr (f c (w_io w)) (\<lambda>(c, io, r). Inr (w\<lparr>g_ops := Some c, w_io := io\<rparr>, r)))"

definition iiod_read :: "env \<Rightarrow> char list \<Rightarrow> nat \<Rightarrow> world \<Rightarrow> (world \<times> payload \<times> int) result" where
  "iiod_read E buf len = ops_io (\<lambda>c io.
     bindr (readData E c io buf len) (\<lambda>(c, io, buf, r). Inr (c, io, Chars buf, r)))"

definition iiod_write :: "char list \<Rightarrow> nat \<Rightarrow> world \<Rightarrow> (world \<times> payload \<times> int) result" where
  "iiod_write buf len = ops_io (\<lambda>c io.
     bindr (writeData c io buf len) (\<lambda>(c, io, r). Inr (c, io, No_payload, r)))"

definition iiod_read_line :: "char list \<Rightarrow> nat \<Rightarrow> world \<Rightarrow> (world \<times> payload \<times> int) result" where
  "iiod_read_line buf len = ops_query (\<lambda>c. Inr (No_payload, readLine buf len))"

definition iiod_open_instance :: "world \<Rightarrow> (world \<times> payload \<times> int) result" where
  "iiod_open_instance = ops_query (\<lambda>c. Inr (No_payload, openInstance))"

definition iiod_close_instance :: "world \<Rightarrow> (world \<times> payload \<times> int) result" where
  "iiod_close_instance = ops_query (\<lambda>c. Inr (No_payload, closeInstance))"

definition iiod_read_attr ::
  "env \<Rightarrow> string \<Rightarrow> string \<Rightarrow> char list \<Rightarrow> nat \<Rightarrow> iio_attr_type \<Rightarrow> world \<Rightarrow> (world \<times> payload \<times> int) result" where
  "iiod_read_attr E device_id attr buf len type = ops_query (\<lambda>c.
     bindr (readAttr E c device_id attr buf len type) (\<lambda>(buf, r). Inr (Chars buf, r)))"

definition iiod_write_attr ::
  "env \<Rightarrow> string \<Rightarrow> string \<Rightarrow> char list \<Rightarrow> nat \<Rightarrow> iio_attr_type \<Rightarrow> world \<Rightarrow> (world \<times> payload \<times> int) result" where
  "iiod_write_attr E device_id attr buf len type = ops_update (\<lambda>c. writeAttr E c device_id attr buf len type)"

definition iiod_ch_read_attr ::
  "env \<Rightarrow> string \<Rightarrow> string \<Rightarrow> bool \<Rightarrow> string \<Rightarrow> char list \<Rightarrow> nat \<Rightarrow> world \<Rightarrow> (world \<times> payload \<times> int) result" where
  "iiod_ch_read_attr E device_id channel ch_out attr buf len = ops_query (\<lambda>c.
     bindr (chReadAttr E c device_id channel ch_out attr buf len) (\<lambda>(buf, r). Inr (Chars buf, r)))"

definition iiod_ch_write_attr ::
  "env \<Rightarrow> string \<Rightarrow> string \<Rightarrow> bool \<Rightarrow> string \<Rightarrow> char list \<Rightarrow> nat \<Rightarrow> world \<Rightarrow> (world \<times> payload \<times> int) result" where
  "iiod_ch_write_attr E device_id channel ch_out attr buf len =
     ops_update (\<lambda>c. chWriteAttr E c device_id channel ch_out attr buf len)"

definition iiod_open ::
  "env \<Rightarrow> string \<Rightarrow> nat \<Rightarrow> 32 word \<Rightarrow> bool \<Rightarrow> world \<Rightarrow> (world \<times> payload \<times> int) result" where
  "iiod_open E device sample_size msk cyclic = ops_update (\<lambda>c. openDev E c device sample_size msk cyclic)"

definition iiod_close :: "string \<Rightarrow> world \<Rightarrow> (world \<times> payload \<times> int) result" where
  "iiod_close device = ops_update (\<lambda>c. closeDev c device)"

definition iiod_transfer_dev_to_mem :: "string \<Rightarrow> nat \<Rightarrow> world \<Rightarrow> (world \<times> payload \<times> int) result" where
  "iiod_transfer_dev_to_mem device bytes_count = ops_update (\<lambda>c. transferDevToMem c device bytes_count)"

definition iiod_read_data ::
  "env \<Rightarrow> string \<Rightarrow> byte list \<Rightarrow> nat \<Rightarrow> nat \<Rightarrow> world \<Rightarrow> (world \<times> payload \<times> int) result" where
  "iiod_read_data E device pbuf offset bytes_count = ops_io (\<lambda>c io.
     bindr (readDev E c io device pbuf offset bytes_count) (\<lambda>(c, io, pbuf, r). Inr (c, io, Bytes pbuf, r)))"

definition iiod_transfer_mem_to_dev :: "env \<Rightarrow> string \<Rightarrow> nat \<Rightarrow> world \<Rightarrow> (world \<times> payload \<times> int) result" where
  "iiod_transfer_mem_to_dev E device bytes_count = ops_update (\<lambda>c. transferMemToDev E c device bytes_count)"

definition iiod_write_data ::
  "string \<Rightarrow> byte list \<Rightarrow> nat \<Rightarrow> nat \<Rightarrow> world \<Rightarrow> (world \<times> payload \<times> int) result" where
  "iiod_write_data device buf offset bytes_count = ops_io (\<lambda>c io.
     bindr (writeDev c io device buf offset bytes_count) (\<lambda>(c, io, r). Inr (c, io, No_payload, r)))"

definition iiod_get_mask :: "string \<Rightarrow> 32 word \<Rightarrow> world \<Rightarrow> (world \<times> payload \<times> int) result" where
  "iiod_get_mask device msk = ops_query (\<lambda>c. bindr (getMask c device msk) (\<lambda>(m, r). Inr (Mask m, r)))"

definition iiod_set_timeout :: "32 word \<Rightarrow> world \<Rightarrow> (world \<times> payload \<times> int) result" where
  "iiod_set_timeout timeout = ops_query (\<lambda>c. Inr (No_payload, setTimeout timeout))"

definition iiod_get_trigger :: "string \<Rightarrow> char list \<Rightarrow> nat \<Rightarrow> world \<Rightarrow> (world \<times> payload \<times> int) result" where
  "iiod_get_trigger device trigger len = ops_query (\<lambda>c. Inr (No_payload, getTrigger device trigger len))"

definition iiod_set_trigger :: "string \<Rightarrow> char list \<Rightarrow> nat \<Rightarrow> world \<Rightarrow> (world \<times> payload \<times> int) result" where
  "iiod_set_trigger device trigger len = ops_query (\<lambda>c. Inr (No_payload, setTrigger device trigger len))"

definition iiod_set_buffers_count :: "string \<Rightarrow> 32 word \<Rightarrow> world \<Rightarrow> (world \<times> payload \<times> int) result" where
  "iiod_set_buffers_count device buffers_count = ops_update (\<lambda>c. setBuffersCount c device buffers_count)"

definition iiod_get_xml :: "bool \<Rightarrow> world \<Rightarrow> (world \<times> payload \<times> int) result" where
  "iiod_get_xml have_outxml = ops_query (\<lambda>c. Inr (let (p, r) = getXml_op c have_outxml in (Xml p, r)))"

section \<open>Calls\<close>

text \<open>
  The operations of \<open>AbstractOps\<close> as values: libtinyiiod serves a client by
  making a finite sequence of such calls.
\<close>

datatype ops_call =
    Read "char list" nat
  | Write "char list" nat
  | Read_line "char list" nat
  | Open_instance
  | Close_instance
  | Read_attr string string "char list" nat iio_attr_type
  | Write_attr string string "char list" nat iio_attr_type
  | Ch_read_attr string string bool string "char list" nat
  | Ch_write_attr string string bool string "char list" nat
  | Open string nat "32 word" bool
  | Close string
  | Transfer_dev_to_mem string nat
  | Read_data string "byte list" nat nat
  | Transfer_mem_to_dev string nat
  | Write_data string "byte list" nat nat
  | Get_mask string "32 word"
  | Set_timeout "32 word"
  | Get_trigger string "char list" nat
  | Set_trigger string "char list" nat
  | Set_buffers_count string "32 word"
  | Get_xml bool

fun perform :: "env \<Rightarrow> ops_call \<Rightarrow> world \<Rightarrow> (world \<times> payload \<times> int) result" where
  "perform E (Read buf len) w = iiod_read E buf len w"
| "perform E (Write buf len) w = iiod_write buf len w"
| "perform E (Read_line buf len) w = iiod_read_line buf len w"
| "perform E Open_instance w = iiod_open_instance w"
| "perform E Close_instance w = iiod_close_instance w"
| "perform E (Read_attr dev attr buf len t) w = iiod_read_attr E dev attr buf len t w"
| "perform E (Write_attr dev attr buf len t) w = iiod_write_attr E dev attr buf len t w"
| "perform E (Ch_read_attr dev chn out attr buf len) w = iiod_ch_read_attr E dev chn out attr buf len w"
| "perform E (Ch_write_attr dev chn out attr buf len) w = iiod_ch_write_attr E dev chn out attr buf len w"
| "perform E (Open dev n msk cyclic) w = iiod_open E dev n msk cyclic w"
| "perform E (Close dev) w = iiod_close dev w"
| "perform E (Transfer_dev_to_mem dev n) w = iiod_transfer_dev_to_mem dev n w"
| "perform E (Read_data dev buf off n) w = iiod_read_data E dev buf off n w"
| "perform E (Transfer_mem_to_dev dev n) w = iiod_transfer_mem_to_dev E dev n w"
| "perform E (Write_data dev buf off n) w = iiod_write_data dev buf off n w"
| "perform E (Get_mask dev msk) w = iiod_get_mask dev msk w"
| "perform E (Set_timeout t) w = iiod_set_timeout t w"
| "perform E (Get_trigger dev tr len) w = iiod_get_trigger dev tr len w"
| "perform E (Set_trigger dev tr len) w = iiod_set_trigger dev tr len w"
| "perform E (Set_buffers_count dev n) w = iiod_set_buffers_count dev n w"
| "perform E (Get_xml b) w = iiod_get_xml b w"

text \<open>Which operation a call needs libtinyiiod to have been given.\<close>

fun needs :: "ops_call \<Rightarrow> iiod_op" where
  "needs (Read buf len) = Op_read"
| "needs (Write buf len) = Op_write"
| "needs (Read_line buf len) = Op_read_line"
| "needs Open_instance = Op_open_instance"
| "needs Close_instance = Op_close_instance"
| "needs (Read_attr dev attr buf len t) = Op_read_attr"
| "needs (Write_attr dev attr buf len t) = Op_write_attr"
| "needs (Ch_read_attr dev chn out attr buf len) = Op_ch_read_attr"
| "needs (Ch_write_attr dev chn out attr buf len) = Op_ch_write_attr"
| "needs (Open dev n msk cyclic) = Op_open"
| "needs (Close dev) = Op_close"
| "needs (Transfer_dev_to_mem dev n) = Op_transfer_dev_to_mem"
| "needs (Read_data dev buf off n) = Op_read_data"
| "needs (Transfer_mem_to_dev dev n) = Op_transfer_mem_to_dev"
| "needs (Write_data dev buf off n) = Op_write_data"
| "needs (Get_mask dev msk) = Op_get_mask"
| "needs (Set_timeout t) = Op_set_timeout"
| "needs (Get_trigger dev tr len) = Op_get_trigger"
| "needs (Set_trigger dev tr len) = Op_set_trigger"
| "needs (Set_buffers_count dev n) = Op_set_buffers_count"
| "needs (Get_xml b) = Op_get_xml"

text \<open>A sequence of calls, the results discarded.\<close>

definition perform_all :: "env \<Rightarrow> ops_call list \<Rightarrow> world \<Rightarrow> world result" where
  "perform_all E calls w = foldr_result (\<lambda>call w. bindr (perform E call w) (\<lambda>r. Inr (fst r))) calls w"

section \<open>Calls keep the context\<close>

definition world_keeps :: "world \<Rightarrow> world \<Rightarrow> bool" where
  "world_keeps w w' \<longleftrightarrow>
     (case g_ops w of
        None \<Rightarrow> w' = w
      | Some c \<Rightarrow> \<exists>c'. g_ops w' = Some c' \<and> keeps c c')"

lemma world_keeps_refl: "world_keeps w w"
  by (auto simp: world_keeps_def split: option.splits)

lemma world_keeps_trans: "world_keeps a b \<Longrightarrow> world_keeps b c \<Longrightarrow> world_keeps a c"
  unfolding world_keeps_def using keeps_trans by (fastforce split: option.splits)

lemma ops_query_keeps: "ops_query f w = Inr (w', r) \<Longrightarrow> world_keeps w w'"
  by (auto simp: ops_query_def world_keeps_def bindr_eq_Inr_iff split: option.splits)

lemma ops_update_keeps:
  "ops_update f w = Inr (w', r) \<Longrightarrow> (\<And>c c' r. f c = Inr (c', r) \<Longrightarrow> keeps c c') \<Longrightarrow> world_keeps w w'"
  by (auto simp: ops_update_def world_keeps_def bindr_eq_Inr_iff split: option.splits)

lemma ops_io_keeps:
  "ops_io f w = Inr (w', r) \<Longrightarrow> (\<And>c io c' io' r. f c io = Inr (c', io', r) \<Longrightarrow> keeps c c') \<Longrightarrow> world_keeps w w'"
  by (auto simp: ops_io_def world_keeps_def bindr_eq_Inr_iff split: option.splits)

lemmas iiod_defs =
  iiod_read_def iiod_write_def iiod_read_line_def iiod_open_instance_def iiod_close_instance_def
  iiod_read_attr_def iiod_write_attr_def iiod_ch_read_attr_def iiod_ch_write_attr_def iiod_open_def
  iiod_close_def iiod_transfer_dev_to_mem_def iiod_read_data_def iiod_transfer_mem_to_dev_def
  iiod_write_data_def iiod_get_mask_def iiod_set_timeout_def iiod_get_trigger_def iiod_set_trigger_def
  iiod_set_buffers_count_def iiod_get_xml_def

lemma perform_keeps:
  assumes "perform E call w = Inr (w', p, r)"
  shows "world_keeps w w'"
proof (cases call)
  case (Read buf len)
  then show ?thesis using assms
    by (auto simp: iiod_defs bindr_eq_Inr_iff elim!: ops_io_keeps intro: keeps_rules)
next
  case (Write buf len)
  then show ?thesis using assms
    by (auto simp: iiod_defs bindr_eq_Inr_iff elim!: ops_io_keeps intro: keeps_rules)
next
  case (Read_data dev buf off n)
  then show ?thesis using assms
    by (auto simp: iiod_defs bindr_eq_Inr_iff elim!: ops_io_keeps intro: keeps_rules)
next
  case (Write_data dev buf off n)
  then show ?thesis using assms
    by (auto simp: iiod_defs bindr_eq_Inr_iff elim!: ops_io_keeps intro: keeps_rules)
qed (use assms in \<open>auto simp: iiod_defs elim!: ops_query_keeps ops_update_keeps intro: keeps_rules\<close>)

lemma perform_all_keeps:
  assumes "perform_all E calls w = Inr w'"
  shows "world_keeps w w'"
proof -
  have "world_keeps w w'" if "foldr_result (\<lambda>call w. bindr (perform E call w) (\<lambda>r. Inr (fst r))) calls w = Inr w'"
    using world_keeps_refl [of w] that
  proof (rule foldr_result_invariant [where P = "world_keeps w", rotated])
    fix call s s'
    assume "world_keeps w s" "bindr (perform E call s) (\<lambda>r. Inr (fst r)) = Inr s'"
    then show "world_keeps w s'"
      by (auto simp: bindr_eq_Inr_iff intro: world_keeps_trans perform_keeps)
  qed
  then show ?thesis using assms by (simp add: perform_all_def)
qed

section \<open>Only attribute writes change the document\<close>

fun writes_doc :: "ops_call \<Rightarrow> bool" where
  "writes_doc (Write_attr dev attr buf len t) = True"
| "writes_doc (Ch_write_attr dev chn out attr buf len) = True"
| "writes_doc _ = False"

lemma openDev_doc: "openDev E c dev n msk cyclic = Inr (c', r) \<Longrightarrow> m_doc c' = m_doc c"
  unfolding openDev_def
  by (erule found_device) (auto simp: bindr_eq_Inr_iff set_device_def split: option.split_asm)

lemma closeDev_doc: "closeDev c dev = Inr (c', r) \<Longrightarrow> m_doc c' = m_doc c"
  unfolding closeDev_def by (erule found_device) (auto simp: set_device_def split: prod.split_asm)

lemma transferDevToMem_doc: "transferDevToMem c dev n = Inr (c', r) \<Longrightarrow> m_doc c' = m_doc c"
  unfolding transferDevToMem_def
  by (erule found_device) (auto simp: bindr_eq_Inr_iff set_device_def split: if_split_asm)

lemma transferMemToDev_doc: "transferMemToDev E c dev n = Inr (c', r) \<Longrightarrow> m_doc c' = m_doc c"
  unfolding transferMemToDev_def
  by (erule found_device) (auto simp: bindr_eq_Inr_iff set_device_def split: if_split_asm)

lemma readDev_doc: "readDev E c io dev buf off n = Inr (c', io', buf', r) \<Longrightarrow> m_doc c' = m_doc c"
  unfolding readDev_def by (erule found_device) (auto simp: bindr_eq_Inr_iff split: if_split_asm)

lemma writeDev_doc: "writeDev c io dev buf off n = Inr (c', io', r) \<Longrightarrow> m_doc c' = m_doc c"
  unfolding writeDev_def
  by (erule found_device) (auto simp: bindr_eq_Inr_iff set_device_def split: if_split_asm)

lemma setBuffersCount_doc: "setBuffersCount c dev n = Inr (c', r) \<Longrightarrow> m_doc c' = m_doc c"
  unfolding setBuffersCount_def by (erule found_device) (auto simp: set_device_def split: prod.split_asm)

lemma readData_doc: "readData E c io buf len = Inr (c', io', buf', r) \<Longrightarrow> m_doc c' = m_doc c"
  by (auto simp: readData_def bindr_eq_Inr_iff split: option.split_asm)

lemma writeData_doc: "writeData c io buf len = Inr (c', io', r) \<Longrightarrow> m_doc c' = m_doc c"
  by (auto simp: writeData_def bindr_eq_Inr_iff split: option.split_asm)

lemmas doc_rules = openDev_doc closeDev_doc transferDevToMem_doc transferMemToDev_doc readDev_doc writeDev_doc
  setBuffersCount_doc readData_doc writeData_doc

definition world_doc :: "world \<Rightarrow> xdoc option option" where
  "world_doc w = map_option m_doc (g_ops w)"

lemma ops_query_doc: "ops_query f w = Inr (w', r) \<Longrightarrow> world_doc w' = world_doc w"
  by (auto simp: ops_query_def bindr_eq_Inr_iff split: option.splits)

lemma ops_update_doc:
  "ops_update f w = Inr (w', r) \<Longrightarrow> (\<And>c c' r. f c = Inr (c', r) \<Longrightarrow> m_doc c' = m_doc c) \<Longrightarrow> world_doc w' = world_doc w"
  by (auto simp: ops_update_def world_doc_def bindr_eq_Inr_iff split: option.splits)

lemma ops_io_doc:
  "ops_io f w = Inr (w', r) \<Longrightarrow> (\<And>c io c' io' r. f c io = Inr (c', io', r) \<Longrightarrow> m_doc c' = m_doc c) \<Longrightarrow>
    world_doc w' = world_doc w"
  by (auto simp: ops_io_def world_doc_def bindr_eq_Inr_iff split: option.splits)

lemma perform_doc:
  assumes "perform E call w = Inr (w', p, r)" "\<not> writes_doc call"
  shows "world_doc w' = world_doc w"
  using assms
  by (cases call) (auto simp: iiod_defs bindr_eq_Inr_iff
      elim!: ops_query_doc ops_update_doc ops_io_doc dest: doc_rules)

lemma perform_all_doc:
  "perform_all E calls w = Inr w' \<Longrightarrow> \<forall>call \<in> set calls. \<not> writes_doc call \<Longrightarrow> world_doc w' = world_doc w"
  unfolding perform_all_def
proof (induction calls arbitrary: w)
  case (Cons call calls)
  then obtain w1 where "world_doc w1 = world_doc w"
    "foldr_result (\<lambda>call w. bindr (perform E call w) (\<lambda>r. Inr (fst r))) calls w1 = Inr w'"
    by (auto simp: bindr_eq_Inr_iff dest!: perform_doc)
  then show ?case using Cons by simp
qed simp

section \<open>Properties\<close>

text \<open>
  Without a context every call is answered with \<open>-ENOENT\<close> and does
  nothing; with one, the calls the context does not announce to libtinyiiod,
  and the two trigger operations, are answered the same way.
\<close>

theorem calls_refused:
  "perform E call (w\<lparr>g_ops := None\<rparr>) = Inr (w\<lparr>g_ops := None\<rparr>, No_payload, - ENOENT) \<and>
   (needs call \<notin> m_iiodOps (assignBasicOps c) \<or> needs call \<in> {Op_get_trigger, Op_set_trigger} \<longrightarrow>
     perform E call w = Inr (w, No_payload, - ENOENT))"
proof (cases "g_ops w")
  case None
  then show ?thesis
    by (cases call) (simp_all add: iiod_defs ops_query_def ops_update_def ops_io_def)
next
  case (Some ctx)
  then show ?thesis
    by (cases call) (simp_all add: iiod_defs ops_query_def ops_update_def ops_io_def assignBasicOps_def
        readLine_def openInstance_def closeInstance_def setTimeout_def getTrigger_def setTrigger_def)
qed

theorem calls_refused_witness:
  "perform m2k_env (Set_timeout 5) \<lparr>g_ops = Some m2k, w_io = no_io\<rparr> =
     Inr (\<lparr>g_ops = Some m2k, w_io = no_io\<rparr>, No_payload, - 2)"
  using calls_refused [of m2k_env "Set_timeout 5" "\<lparr>g_ops = Some m2k, w_io = no_io\<rparr>" "one_device (Dev_M2kADC scope)"]
  by (simp add: assignBasicOps_def one_device_def ENOENT_def)

text \<open>
  C8: Whatever calls libtinyiiod makes for a client, in any order, the context
  keeps its devices: their classes, ids, connections and files, so every id
  finds the device it found before; the announced operations, the text for
  clients and the current connection stay as they are.
\<close>

theorem calls_keep_context:
  assumes "perform_all E calls w = Inr w'" "g_ops w = Some c"
  shows "\<exists>c'. g_ops w' = Some c' \<and> map dev_shape (m_devices c') = map dev_shape (m_devices c) \<and>
    (\<forall>i. getDevice c' i = getDevice c i) \<and> m_iiodOps c' = m_iiodOps c \<and> m_ctx_xml c' = m_ctx_xml c \<and>
    m_xml_size c' = m_xml_size c \<and> map_option s_fd (m_current_socket c') = map_option s_fd (m_current_socket c)"
proof -
  obtain c' where c': "g_ops w' = Some c'" "keeps c c'"
    using perform_all_keeps [OF assms(1)] assms(2) by (auto simp: world_keeps_def)
  then have "\<forall>i. getDevice c' i = getDevice c i" using keeps_getDevice by blast
  with c' show ?thesis by (auto simp: keeps_def socket_next_def split: option.splits)
qed

definition m2k_world :: world where
  "m2k_world = \<lparr>g_ops = Some m2k, w_io = no_io\<rparr>"

text \<open>A sequence of calls on the ADALM2000 of the sample description.\<close>

lemma m2k_calls:
  "perform_all m2k_env [Set_timeout 5, Open_instance, Get_xml True, Set_trigger ''iio:device0'' [] 0] m2k_world = Inr m2k_world"
  by (simp add: perform_all_def iiod_defs ops_query_def m2k_world_def split: prod.split)

theorem calls_keep_context_witness:
  "\<exists>w' c'. perform_all m2k_env
       [Write_attr ''iio:device9'' ''sampling_frequency'' (''1000000'' @ [NUL]) 7 IIO_ATTR_TYPE_DEVICE, Set_timeout 5]
       m2k_world = Inr w' \<and>
     g_ops w' = Some c' \<and> map dev_shape (m_devices c') = map dev_shape (m_devices m2k)"
proof -
  let ?written = "write_dev_attr (env_xml m2k_env) m2k_doc ''iio:device9'' ''sampling_frequency'' (''1000000'' @ [NUL]) 7 IIO_ATTR_TYPE_DEVICE"
  have "\<not> isl ?written" by code_simp
  then obtain doc r where "?written = Inr (doc, r)" by (cases ?written) auto
  then have "writeAttr m2k_env m2k ''iio:device9'' ''sampling_frequency'' (''1000000'' @ [NUL]) 7 IIO_ATTR_TYPE_DEVICE
      = Inr (m2k\<lparr>m_doc := doc\<rparr>, r)"
    by (simp add: writeAttr_def m2k_built(2))
  then have "perform_all m2k_env
       [Write_attr ''iio:device9'' ''sampling_frequency'' (''1000000'' @ [NUL]) 7 IIO_ATTR_TYPE_DEVICE, Set_timeout 5]
       m2k_world = Inr (m2k_world\<lparr>g_ops := Some (m2k\<lparr>m_doc := doc\<rparr>)\<rparr>)"
    by (simp add: perform_all_def iiod_write_attr_def iiod_set_timeout_def ops_update_def ops_query_def m2k_world_def)
  moreover have "g_ops m2k_world = Some m2k" by (simp add: m2k_world_def)
  ultimately show ?thesis by (meson calls_keep_context)
qed

text \<open>
  The document changes only by the two attribute writes: any other
  sequence of calls leaves it as it was.
\<close>

theorem document_frame:
  assumes "perform_all E calls w = Inr w'" "g_ops w = Some c" "\<forall>call \<in> set calls. \<not> writes_doc call"
  shows "\<exists>c'. g_ops w' = Some c' \<and> m_doc c' = m_doc c"
  using perform_all_doc [OF assms(1,3)] assms(2) by (auto simp: world_doc_def)

theorem document_frame_witness:
  "\<exists>c'. g_ops m2k_world = Some c' \<and> m_doc c' = m2k_doc"
proof -
  have "g_ops m2k_world = Some m2k" by (simp add: m2k_world_def)
  from document_frame [OF m2k_calls this] show ?thesis by (simp add: m2k_built(2))
qed

end
