(* ===== verification/Tcp_Server.thy ===== *)
theory Tcp_Server
  imports Network Ops_Wrapper
begin

text \<open>
  networking/tcp_server.cpp, of either build: construction, the start of the
  listening socket and the serving loop.  One turn of the loop is a step of
  a transition relation: the environment chooses what the kernel reports and
  which operations libtinyiiod calls for each client, among those the
  context assigned.  A signal may end the loop before any turn.  A turn that
  runs into undefined behaviour or waits forever has no step.
\<close>

section \<open>Construction\<close>

text \<open>The constructor exits with status 1 when there is no such device.\<close>

definition TcpServer :: "surroundings \<Rightarrow> string \<Rightarrow> string list \<Rightarrow> io \<Rightarrow> (int + world) result" where
  "TcpServer S type args io0 =
     bindr (buildOps S type args) (\<lambda>ops.
       case ops of
         None \<Rightarrow> Inr (Inl 1)
       | Some c \<Rightarrow> Inr (Inr (set_ops (Some c) \<lparr>g_ops = None, w_io = io0\<rparr>)))"

definition delete_TcpServer :: "world \<Rightarrow> xml_context result" where
  "delete_TcpServer w = (case g_ops w of None \<Rightarrow> Inl NullDeref | Some c \<Rightarrow> delete_context c)"

section \<open>State\<close>

text \<open>
  The loop is serving, or \<open>start\<close> has returned a value.  The ghost field
  \<open>srv_open\<close> is the set of client descriptors that are open.
\<close>

datatype phase = Serving | Returned bool

record server =
  srv_net :: network
  srv_world :: world
  srv_open :: "int set"
  srv_phase :: phase

definition BACKLOG :: int where
  "BACKLOG = 64"

text \<open>\<open>P\<close> is the build, which selects the classes of the network and of the sockets.\<close>

definition server_start :: "build \<Rightarrow> start_env \<Rightarrow> u16 \<Rightarrow> world \<Rightarrow> server" where
  "server_start P e p w =
     (let failed = (\<lambda>n. \<lparr>srv_net = n, srv_world = w, srv_open = {}, srv_phase = Returned False\<rparr>);
          (n, ret) = net_open P e (net_new P (st_junk e))
      in if ret < 0 then failed n
         else let (n, ret) = net_bind P (st_bind e) p n
           in if ret < 0 then failed n
              else let (n, ret) = net_listen P (st_listen e) n
                in if ret < 0 then failed n
                   else \<lparr>srv_net = n, srv_world = w, srv_open = {}, srv_phase = Serving\<rparr>)"

section \<open>One turn of the loop\<close>

text \<open>
  One active client: a new socket object becomes current, libtinyiiod makes
  its calls, and a socket found disconnected is taken off the devices and
  the list.  The descriptors the socket closed are no longer open.
\<close>

fun new_socket :: "build \<Rightarrow> int \<Rightarrow> socket" where
  "new_socket Unix client = SocketUnix client"
| "new_socket Windows client = SocketWin client"

definition serve_client ::
  "build \<Rightarrow> env \<Rightarrow> int \<times> ops_call list \<Rightarrow> network \<times> world \<times> int set \<Rightarrow> (network \<times> world \<times> int set) result" where
  "serve_client P E cc st =
     (case (cc, st) of ((client, calls), (n, w, opened)) \<Rightarrow>
      (case g_ops w of
         None \<Rightarrow> Inl NullDeref
       | Some c \<Rightarrow>
           bindr (perform_all E calls (w\<lparr>g_ops := Some (setCurrentSocket c (new_socket P client))\<rparr>)) (\<lambda>w.
             case g_ops w of
               None \<Rightarrow> Inl NullDeref
             | Some c \<Rightarrow>
                 (case m_current_socket c of
                    None \<Rightarrow> Inl NullDeref
                  | Some s \<Rightarrow>
                      let opened = opened - set (s_closed s) in
                      if disconnected s
                      then Inr (net_disconnect P client n,
                                w\<lparr>g_ops := Some (socketDisconnected c client)\<rparr>, opened)
                      else Inr (n, w, opened)))))"

definition serve_clients ::
  "build \<Rightarrow> env \<Rightarrow> (int \<times> ops_call list) list \<Rightarrow> network \<times> world \<times> int set \<Rightarrow> (network \<times> world \<times> int set) result" where
  "serve_clients P E = foldr_result (serve_client P E)"

text \<open>A turn; \<open>calls\<close> gives the calls made for each client.\<close>

definition server_turn :: "build \<Rightarrow> env \<Rightarrow> select_env \<Rightarrow> (int \<Rightarrow> ops_call list) \<Rightarrow> server \<Rightarrow> server result" where
  "server_turn P E e calls s =
     bindr (net_check P e (srv_net s)) (\<lambda>(n, ret).
       let accepted = set (drop (length (n_accepted (srv_net s))) (n_accepted n));
           gone = set (drop (length (n_closed (srv_net s))) (n_closed n));
           opened = srv_open s \<union> accepted - gone
       in if ret < 0 then Inr (s\<lparr>srv_net := n, srv_open := opened, srv_phase := Returned False\<rparr>)
          else
            bindr (serve_clients P E (map (\<lambda>client. (client, calls client)) (net_active P n))
                     (n, srv_world s, opened)) (\<lambda>(n, w, opened).
              Inr (s\<lparr>srv_net := n, srv_world := w, srv_open := opened\<rparr>)))"

text \<open>What the kernel guarantees: an accepted descriptor is not in use.\<close>

definition kernel_ok :: "select_env \<Rightarrow> server \<Rightarrow> bool" where
  "kernel_ok e s \<longleftrightarrow> acc_fd (sel_accept e) \<notin> insert (n_listenSocket (srv_net s)) (srv_open s)"

text \<open>libtinyiiod calls only operations it has been given.\<close>

definition calls_ok :: "(int \<Rightarrow> ops_call list) \<Rightarrow> server \<Rightarrow> bool" where
  "calls_ok calls s \<longleftrightarrow>
     (case g_ops (srv_world s) of
        None \<Rightarrow> True
      | Some c \<Rightarrow> \<forall>client. \<forall>call \<in> set (calls client). needs call \<in> m_iiodOps c)"

inductive server_step :: "build \<Rightarrow> env \<Rightarrow> server \<Rightarrow> server \<Rightarrow> bool" for P :: build and E :: env where
  turn: "srv_phase s = Serving \<Longrightarrow> kernel_ok e s \<Longrightarrow> calls_ok calls s \<Longrightarrow> server_turn P E e calls s = Inr s' \<Longrightarrow>
    server_step P E s s'"
| signal: "srv_phase s = Serving \<Longrightarrow>
    server_step P E s (s\<lparr>srv_net := fst (net_close P (srv_net s)), srv_phase := Returned True\<rparr>)"

inductive_cases server_stepE [elim]: "server_step P E s s'"

inductive server_run :: "build \<Rightarrow> env \<Rightarrow> world \<Rightarrow> server \<Rightarrow> bool" for P :: build and E :: env and w :: world where
  start: "server_run P E w (server_start P e p w)"
| step: "server_run P E w s \<Longrightarrow> server_step P E s s' \<Longrightarrow> server_run P E w s'"

section \<open>Invariants\<close>

text \<open>The clients on the list are the open ones, each once.\<close>

definition clients_ok :: "network \<Rightarrow> int set \<Rightarrow> bool" where
  "clients_ok n opened \<longleftrightarrow> distinct (n_clients n) \<and> set (n_clients n) = opened"

lemma new_socket_ok: "socket_ok (new_socket P fd)" "s_fd (new_socket P fd) = fd"
  by (cases P, simp_all add: socket_ok_new) (cases P, simp_all add: SocketUnix_def SocketWin_def)

lemma serve_client_obtain:
  assumes "serve_client P E (client, calls) (n, w, opened) = Inr r"
  obtains c w1 c1 s where "g_ops w = Some c"
    "perform_all E calls (w\<lparr>g_ops := Some (setCurrentSocket c (new_socket P client))\<rparr>) = Inr w1"
    "g_ops w1 = Some c1" "m_current_socket c1 = Some s"
    "(if disconnected s
      then Inr (net_disconnect P client n, w1\<lparr>g_ops := Some (socketDisconnected c1 client)\<rparr>, opened - set (s_closed s))
      else Inr (n, w1, opened - set (s_closed s))) = (Inr r :: (network \<times> world \<times> int set) result)"
  using assms unfolding serve_client_def
  by (auto simp: bindr_eq_Inr_iff Let_def split: option.split_asm)

lemma serve_client_ok:
  assumes "serve_client P E (client, calls) (n, w, opened) = Inr (n', w', opened')"
    and "clients_ok n opened"
  shows "clients_ok n' opened' \<and> n_listenSocket n' = n_listenSocket n \<and> n_closed n' = n_closed n \<and>
    opened' \<subseteq> opened \<and>
    (\<exists>c c'. g_ops w = Some c \<and> g_ops w' = Some c' \<and> map dev_shape (m_devices c') = map dev_shape (m_devices c) \<and>
       m_iiodOps c' = m_iiodOps c)"
proof -
  obtain c w1 c1 s where c: "g_ops w = Some c"
    and p: "perform_all E calls (w\<lparr>g_ops := Some (setCurrentSocket c (new_socket P client))\<rparr>) = Inr w1"
    and c1: "g_ops w1 = Some c1" and s: "m_current_socket c1 = Some s"
    and r: "(if disconnected s
        then Inr (net_disconnect P client n, w1\<lparr>g_ops := Some (socketDisconnected c1 client)\<rparr>, opened - set (s_closed s))
        else Inr (n, w1, opened - set (s_closed s))) = (Inr (n', w', opened') :: (network \<times> world \<times> int set) result)"
    using assms(1) by (rule serve_client_obtain)
  have k: "keeps (setCurrentSocket c (new_socket P client)) c1"
    using perform_all_keeps [OF p] c1 by (simp add: world_keeps_def)
  then have "s_fd s = client" "socket_ok s"
    using s new_socket_ok [of P client] by (auto simp: keeps_def socket_next_def setCurrentSocket_def)
  then have closed: "set (s_closed s) = (if disconnected s then {client} else {})"
    by (auto simp: socket_ok_def disconnected_def split: if_split_asm)
  have shapes: "map dev_shape (m_devices c1) = map dev_shape (m_devices c)" "m_iiodOps c1 = m_iiodOps c"
    using k by (simp_all add: keeps_def setCurrentSocket_def)
  show ?thesis
  proof (cases "disconnected s")
    case True
    then have "n' = net_disconnect P client n" "g_ops w' = Some (socketDisconnected c1 client)" "opened' = opened - {client}"
      using r closed by auto
    moreover have "keeps c1 (socketDisconnected c1 client)" by (rule socketDisconnected_keeps)
    moreover have "clients_ok (net_disconnect P client n) (opened - {client})"
      using assms(2) net.drop_clients [of P client n] by (auto simp: clients_ok_def)
    ultimately show ?thesis using shapes c net.drop_frame [of P client n] by (simp add: keeps_def)
  next
    case False
    then show ?thesis using r closed shapes c c1 assms(2) by simp
  qed
qed

lemma serve_clients_ok:
  assumes "serve_clients P E ccs (n, w, opened) = Inr (n', w', opened')" "clients_ok n opened"
  shows "clients_ok n' opened' \<and> n_listenSocket n' = n_listenSocket n \<and> n_closed n' = n_closed n \<and>
    opened' \<subseteq> opened \<and>
    (ccs \<noteq> [] \<longrightarrow> (\<exists>c c'. g_ops w = Some c \<and> g_ops w' = Some c' \<and>
       map dev_shape (m_devices c') = map dev_shape (m_devices c) \<and> m_iiodOps c' = m_iiodOps c)) \<and>
    (ccs = [] \<longrightarrow> w' = w)"
  using assms
proof (induction ccs arbitrary: n w opened)
  case Nil
  then show ?case by (simp add: serve_clients_def)
next
  case (Cons cc ccs)
  obtain client calls where cc: "cc = (client, calls)" by (cases cc)
  obtain n1 w1 o1 where 1: "serve_client P E (client, calls) (n, w, opened) = Inr (n1, w1, o1)"
    and 2: "serve_clients P E ccs (n1, w1, o1) = Inr (n', w', opened')"
    using Cons.prems(1) by (auto simp: serve_clients_def cc bindr_eq_Inr_iff)
  note s = serve_client_ok [OF 1 Cons.prems(2)]
  then have "clients_ok n1 o1" by simp
  note Cons.IH [OF 2 this]
  then show ?case using s by (cases "ccs = []") auto
qed

text \<open>
  The state of the loop: the listening socket is usable and not closed while
  the server is serving, and the clients listed are the open ones.  When
  \<open>start\<close> has returned, the listening socket has been closed if there was one;
  on Windows a failed check may have closed it a second time, or an accepted
  socket before it.
\<close>

fun stopped_ok :: "build \<Rightarrow> network \<Rightarrow> bool" where
  "stopped_ok Unix n \<longleftrightarrow> n_closed n = (if 0 < n_listenSocket n then [n_listenSocket n] else [])"
| "stopped_ok Windows n \<longleftrightarrow> n_closed n = [] \<or> closed_by_check Windows n"

definition server_ok :: "build \<Rightarrow> server \<Rightarrow> bool" where
  "server_ok P s \<longleftrightarrow>
     (case srv_phase s of
        Serving \<Rightarrow> usable P (n_listenSocket (srv_net s)) \<and> n_closed (srv_net s) = [] \<and>
          clients_ok (srv_net s) (srv_open s) \<and> n_listenSocket (srv_net s) \<notin> srv_open s
      | Returned r \<Rightarrow> stopped_ok P (srv_net s))"

lemma closed_stopped: "usable P (n_listenSocket n) \<Longrightarrow> closed_by_check P n \<Longrightarrow> stopped_ok P n"
  by (cases P) simp_all

lemma net_close_stopped: "usable P (n_listenSocket n) \<Longrightarrow> n_closed n = [] \<Longrightarrow> stopped_ok P (fst (net_close P n))"
  by (cases P) (simp_all add: nu_close_def nw_close_def)

lemma server_start_ok: "server_ok P (server_start P e p w)"
  by (cases P)
    (auto simp: server_start_def server_ok_def clients_ok_def nu_open_def nu_bind_def nu_listen_def nu_close_def NetworkUnix_def
      nw_open_def nw_bind_def nw_listen_def nw_close_def NetworkWin_def Let_def split: prod.splits if_split_asm)

text \<open>The clients a check leaves, and those that are open then.\<close>

definition opened_by :: "server \<Rightarrow> network \<Rightarrow> int set" where
  "opened_by s n = srv_open s \<union> set (drop (length (n_accepted (srv_net s))) (n_accepted n)) -
     set (drop (length (n_closed (srv_net s))) (n_closed n))"

lemma server_turn_cases:
  assumes "server_turn P E e calls s = Inr s'"
  obtains (failed) n ret where "net_check P e (srv_net s) = Inr (n, ret)" "ret < 0"
      "s' = s\<lparr>srv_net := n, srv_open := opened_by s n, srv_phase := Returned False\<rparr>"
    | (served) n ret n' w' o' where "net_check P e (srv_net s) = Inr (n, ret)" "0 \<le> ret"
      "serve_clients P E (map (\<lambda>cl. (cl, calls cl)) (net_active P n)) (n, srv_world s, opened_by s n) = Inr (n', w', o')"
      "s' = s\<lparr>srv_net := n', srv_world := w', srv_open := o'\<rparr>"
proof -
  obtain n ret where ch: "net_check P e (srv_net s) = Inr (n, ret)"
    using assms by (auto simp: server_turn_def bindr_eq_Inr_iff)
  show ?thesis
  proof (cases "ret < 0")
    case True
    then show ?thesis using assms ch by (intro failed [of n ret]) (auto simp: server_turn_def opened_by_def Let_def)
  next
    case False
    then obtain n' w' o' where "serve_clients P E (map (\<lambda>cl. (cl, calls cl)) (net_active P n))
        (n, srv_world s, opened_by s n) = Inr (n', w', o')" "s' = s\<lparr>srv_net := n', srv_world := w', srv_open := o'\<rparr>"
      using assms ch by (auto simp: server_turn_def opened_by_def Let_def bindr_eq_Inr_iff)
    then show ?thesis using ch False by (intro served [of n ret n' w' o']) simp_all
  qed
qed

lemma check_opened:
  assumes "net_check P e (srv_net s) = Inr (n, ret)" "0 \<le> ret" "kernel_ok e s"
    and "clients_ok (srv_net s) (srv_open s)" "n_listenSocket (srv_net s) \<notin> srv_open s" "n_closed (srv_net s) = []"
  shows "clients_ok n (opened_by s n) \<and> n_listenSocket n \<notin> opened_by s n \<and> n_closed n = [] \<and>
    n_listenSocket n = n_listenSocket (srv_net s)"
proof -
  have n: "n_listenSocket n = n_listenSocket (srv_net s)" "n_closed n = []"
    using net.check_clients [OF assms(1,2)] assms(6) by simp_all
  let ?fd = "acc_fd (sel_accept e)"
  have fresh: "?fd \<notin> srv_open s" "?fd \<noteq> n_listenSocket (srv_net s)" using assms(3) by (simp_all add: kernel_ok_def)
  consider "n_clients n = n_clients (srv_net s)" "n_accepted n = n_accepted (srv_net s)"
    | "n_clients n = n_clients (srv_net s) @ [?fd]" "n_accepted n = n_accepted (srv_net s) @ [?fd]"
    using net.check_clients [OF assms(1,2)] by blast
  then show ?thesis
    by cases (use n fresh assms(4,5) in \<open>simp_all add: clients_ok_def opened_by_def\<close>)
qed

lemma server_turn_ok:
  assumes "server_turn P E e calls s = Inr s'" "srv_phase s = Serving" "kernel_ok e s" "server_ok P s"
  shows "server_ok P s'"
proof -
  have ok: "usable P (n_listenSocket (srv_net s))" "n_closed (srv_net s) = []" "clients_ok (srv_net s) (srv_open s)"
    "n_listenSocket (srv_net s) \<notin> srv_open s"
    using assms(2,4) by (simp_all add: server_ok_def)
  from assms(1) show ?thesis
  proof (cases rule: server_turn_cases)
    case (failed n ret)
    from net_check_failed [OF failed(1,2) ok(1,2)] have "stopped_ok P n" using ok(1) by (auto intro: closed_stopped)
    then show ?thesis by (simp add: failed(3) server_ok_def)
  next
    case (served n ret n' w' o')
    note c = check_opened [OF served(1,2) assms(3) ok(3,4,2)]
    then have "clients_ok n' o' \<and> n_listenSocket n' = n_listenSocket n \<and> n_closed n' = [] \<and> n_listenSocket n \<notin> o'"
      using serve_clients_ok [OF served(3)] by auto
    then show ?thesis using c ok assms(2) by (simp add: served(4) server_ok_def)
  qed
qed

lemma server_step_ok: "server_step P E s s' \<Longrightarrow> server_ok P s \<Longrightarrow> server_ok P s'"
proof (erule server_stepE)
  assume "server_ok P s" "srv_phase s = Serving"
    "s' = s\<lparr>srv_net := fst (net_close P (srv_net s)), srv_phase := Returned True\<rparr>"
  then show "server_ok P s'" by (simp add: server_ok_def net_close_stopped)
qed (rule server_turn_ok)

lemma server_run_ok: "server_run P E w s \<Longrightarrow> server_ok P s"
  by (induction rule: server_run.induct) (auto intro: server_start_ok server_step_ok)

text \<open>The devices of the context a turn leaves are those it found.\<close>

definition same_devices :: "world \<Rightarrow> world \<Rightarrow> bool" where
  "same_devices w w' \<longleftrightarrow>
     (case g_ops w of
        None \<Rightarrow> True
      | Some c \<Rightarrow> \<exists>c'. g_ops w' = Some c' \<and> map dev_shape (m_devices c') = map dev_shape (m_devices c) \<and>
          m_iiodOps c' = m_iiodOps c)"

lemma same_devices_refl: "same_devices w w"
  by (auto simp: same_devices_def split: option.split)

lemma same_devices_trans: "same_devices a b \<Longrightarrow> same_devices b c \<Longrightarrow> same_devices a c"
  by (auto simp: same_devices_def split: option.splits)

lemma server_turn_devices:
  assumes "server_turn P E e calls s = Inr s'" "srv_phase s = Serving" "kernel_ok e s" "server_ok P s"
  shows "same_devices (srv_world s) (srv_world s')"
  using assms(1)
proof (cases rule: server_turn_cases)
  case (failed n ret)
  then show ?thesis by (simp add: same_devices_refl)
next
  case (served n ret n' w' o')
  have "clients_ok n (opened_by s n)"
    using check_opened [OF served(1,2) assms(3)] assms(2,4) by (simp add: server_ok_def)
  from serve_clients_ok [OF served(3) this] show ?thesis
    by (cases "net_active P n = []") (auto simp: served(4) same_devices_def split: option.split)
qed

lemma server_step_devices: "server_step P E s s' \<Longrightarrow> server_ok P s \<Longrightarrow> same_devices (srv_world s) (srv_world s')"
  by (erule server_stepE) (auto intro: server_turn_devices simp: same_devices_refl)

lemma server_start_world: "srv_world (server_start P e p w) = w"
  by (simp add: server_start_def Let_def split: prod.split)

lemma server_run_devices: "server_run P E w s \<Longrightarrow> same_devices w (srv_world s)"
proof (induction rule: server_run.induct)
  case (step s s')
  then show ?case using server_step_devices server_run_ok same_devices_trans by blast
qed (simp add: server_start_world same_devices_refl)

section \<open>Properties\<close>

text \<open>
  The constructor ends the program with status 1 exactly for the generic
  type without arguments and for a type that begins with neither of the two
  names; a longer name that begins with one of them is accepted.
\<close>

theorem TcpServer_exits:
  "TcpServer S type args io0 = Inr (Inl code) \<longleftrightarrow>
    code = 1 \<and> (if strncmp_eq type ''generic'' 7 then args = [] else \<not> strncmp_eq type ''adalm2000'' 9)"
  by (auto simp: TcpServer_def buildOps_def bindr_eq_Inr_iff)

text \<open>
  C4: While the server is serving, its list of clients holds each open client
  connection exactly once and no other, and the listening socket is open:
  no connection is leaked or served after it was closed.
\<close>

theorem serving_clients_open:
  assumes "server_run P E w s" "srv_phase s = Serving"
  shows "distinct (n_clients (srv_net s)) \<and> set (n_clients (srv_net s)) = srv_open s \<and>
    usable P (n_listenSocket (srv_net s)) \<and> n_closed (srv_net s) = [] \<and> n_listenSocket (srv_net s) \<notin> srv_open s"
  using server_run_ok [OF assms(1)] assms(2) by (simp add: server_ok_def clients_ok_def)

text \<open>A server that has started, one connection accepted on it, and the signal that stops it.\<close>

definition sample_start :: start_env where
  "sample_start = \<lparr>st_junk = 0, st_wsa = 0, st_socket = 3, st_fcntl = 0, st_sockopt = 0, st_ioctl = 0, st_bind = 0, st_listen = 0\<rparr>"

definition sample_select :: select_env where
  "sample_select = \<lparr>sel_total = 1, sel_errno = 0, sel_ready = {3}, sel_left = {},
     sel_accept = \<lparr>acc_fd = 5, acc_keepalive = 0, acc_keepcnt = 0, acc_keepintvl = 0, acc_nodelay = 0\<rparr>\<rparr>"

definition sample_server :: server where
  "sample_server =
     \<lparr>srv_net = \<lparr>n_fd_set = {3}, n_listenSocket = 3, n_clients = [5], n_port = 30431, n_closed = [], n_accepted = [5]\<rparr>,
      srv_world = m2k_world, srv_open = {5}, srv_phase = Serving\<rparr>"

lemma sample_step: "server_step P m2k_env (server_start P sample_start 30431 m2k_world) sample_server"
proof -
  define s where "s = server_start P sample_start 30431 m2k_world"
  have s: "s = \<lparr>srv_net = \<lparr>n_fd_set = {}, n_listenSocket = 3, n_clients = [], n_port = 30431, n_closed = [], n_accepted = []\<rparr>,
      srv_world = m2k_world, srv_open = {}, srv_phase = Serving\<rparr>"
    by (cases P) (simp_all add: s_def server_start_def sample_start_def nu_open_def nu_bind_def nu_listen_def NetworkUnix_def
        nw_open_def nw_bind_def nw_listen_def NetworkWin_def INVALID_SOCKET_def)
  have three: "{a :: int. (a < 4 \<longrightarrow> a = 3) \<and> a < 4} = {3}" by auto
  have ch: "net_check P sample_select (srv_net s) = Inr (srv_net sample_server, 0)"
    by (cases P) (simp_all add: s sample_select_def sample_server_def nu_checkForNewConnections_def FD_SET_def FD_SETSIZE_def
        nu_accept_def EAGAIN_def nw_checkForNewConnections_def nw_accept_def INVALID_SOCKET_def maxFd_def fd_select_def
        WIN_FD_SETSIZE_def Let_def three)
  have "net_active P (srv_net sample_server) = []"
    by (cases P) (simp_all add: nu_getActiveConnections_def nw_getActiveConnections_def sample_server_def)
  then have "server_turn P m2k_env sample_select (\<lambda>_. []) s = Inr sample_server"
    using ch by (simp add: s server_turn_def serve_clients_def sample_server_def)
  moreover have "kernel_ok sample_select s" "calls_ok (\<lambda>_. []) s" "srv_phase s = Serving"
    by (cases P; simp add: s kernel_ok_def sample_select_def WIN_FD_SETSIZE_def calls_ok_def split: option.split)+
  ultimately show ?thesis unfolding s_def [symmetric]
    by (intro server_step.turn [of s sample_select "\<lambda>_. []"])
qed

lemma sample_run:
  "server_run P m2k_env m2k_world sample_server"
  "server_run P m2k_env m2k_world
     (sample_server\<lparr>srv_net := fst (net_close P (srv_net sample_server)), srv_phase := Returned True\<rparr>)"
proof -
  show run: "server_run P m2k_env m2k_world sample_server"
    by (rule server_run.step [OF server_run.start sample_step])
  show "server_run P m2k_env m2k_world
     (sample_server\<lparr>srv_net := fst (net_close P (srv_net sample_server)), srv_phase := Returned True\<rparr>)"
    by (rule server_run.step [OF run], rule server_step.signal) (simp add: sample_server_def)
qed

theorem serving_clients_open_witness:
  "distinct (n_clients (srv_net sample_server)) \<and> set (n_clients (srv_net sample_server)) = {5}"
  using serving_clients_open [OF sample_run(1) [of Unix]] by (simp add: sample_server_def)

text \<open>
  C22: When \<open>start\<close> returns, by a signal, a failed check or a failed start, the
  listening socket has been closed exactly once on Unix if there was one; on
  Windows nothing else is closed besides an accepted socket that could not be
  set up, but a failed check may close the listening socket twice.
\<close>

theorem listener_closed_once:
  assumes "server_run P E w s" "srv_phase s = Returned r"
  defines "n \<equiv> srv_net s"
  shows "case P of
      Unix \<Rightarrow> n_closed n = (if 0 < n_listenSocket n then [n_listenSocket n] else [])
    | Windows \<Rightarrow> n_closed n \<in> {[], [n_listenSocket n], [n_listenSocket n, n_listenSocket n]} \<or>
        (\<exists>fd \<in> set (n_accepted n). n_closed n = [fd, n_listenSocket n])"
  using server_run_ok [OF assms(1)] assms(2) by (cases P) (auto simp: server_ok_def n_def)

theorem listener_closed_once_witness:
  "n_closed (fst (nu_close (srv_net sample_server))) = [3]"
  using listener_closed_once [OF sample_run(2) [of Unix]] by (simp add: sample_server_def nu_close_def)

text \<open>The second time: \<open>accept\<close> closes the socket and so does its caller.\<close>

theorem win_accept_closes_twice:
  assumes "n_listenSocket n \<noteq> INVALID_SOCKET" "sel_total e \<noteq> - 1" "n_listenSocket n \<in> sel_ready e"
    and "acc_fd (sel_accept e) = INVALID_SOCKET"
  shows "\<exists>n'. nw_checkForNewConnections e n = (n', - 1) \<and> n_closed n' = n_closed n @ [n_listenSocket n, n_listenSocket n]"
  using assms by (simp add: nw_checkForNewConnections_def nw_accept_def nw_close_def EAGAIN_def WIN_FD_SETSIZE_def Let_def)

lemma server_keeps_devices:
  assumes "server_run P E w s" "g_ops w = Some c"
  shows "\<exists>c'. g_ops (srv_world s) = Some c' \<and> (\<forall>i. getDevice c' i = getDevice c i) \<and>
    map dev_shape (m_devices c') = map dev_shape (m_devices c) \<and>
    map is_device_in (m_devices c') = map is_device_in (m_devices c) \<and>
    map is_device_out (m_devices c') = map is_device_out (m_devices c) \<and> m_iiodOps c' = m_iiodOps c"
proof -
  obtain c' where c': "g_ops (srv_world s) = Some c'" "map dev_shape (m_devices c') = map dev_shape (m_devices c)"
    "m_iiodOps c' = m_iiodOps c"
    using server_run_devices [OF assms(1)] assms(2) by (auto simp: same_devices_def)
  moreover have "\<forall>i. getDevice c' i = getDevice c i"
    unfolding getDevice_def by (intro allI find_device_ids shape_determines(1) c'(2))
  ultimately show ?thesis using shape_determines [OF c'(2)] by blast
qed

text \<open>
  C7: Serving any number of clients, with any calls they make, keeps the
  devices of the context: at every moment each id finds the device it found
  at the start, the device at each place of the list has the class, the id,
  the connections and the file it had (\<open>dev_shape\<close>), and the announced
  operations are the same.
\<close>

theorem serving_keeps_devices:
  assumes "server_run P E w s" "g_ops w = Some c"
  shows "\<exists>c'. g_ops (srv_world s) = Some c' \<and> (\<forall>i. getDevice c' i = getDevice c i) \<and>
    map dev_shape (m_devices c') = map dev_shape (m_devices c) \<and> m_iiodOps c' = m_iiodOps c"
  using server_keeps_devices [OF assms] by blast

theorem serving_keeps_devices_witness:
  "\<exists>c'. g_ops (srv_world sample_server) = Some c' \<and> getDevice c' ''iio:device9'' = getDevice m2k ''iio:device9''"
proof -
  have "g_ops m2k_world = Some m2k" by (simp add: m2k_world_def)
  from serving_keeps_devices [OF sample_run(1) [of Unix] this] show ?thesis by blast
qed



end
