(* ===== verification/Genxml.thy ===== *)
theory Genxml
  imports Conversions Xml_Utils
begin

text \<open>
  tools/genxml.c: the command line tool that prints the description of a
  context, in the format the emulator reads.  The text is assembled bottom
  up: each function computes the length of its text, allocates that much and
  one byte more, fills the block piece by piece and gives up with a null
  pointer unless exactly the terminator's byte is left.

  What libiio reports of the context is data here; the allocator and
  libxml2's \<open>xmlEncodeEntitiesReentrant\<close> are parameters, whose calls are
  numbered, so that each of them can fail by itself.  A null pointer is
  \<open>None\<close>.  Of freeing memory the loops at the error labels that walk back
  over an array of pointers are modelled, for the pointers they read.
\<close>

section \<open>The platform\<close>

text \<open>
  An allocation yields a block with any contents, or none.  The first number
  given to \<open>p_malloc\<close> and \<open>p_encode\<close> is that of the call: the functions
  below take the number of their first call to the platform and return, with
  what they make, that of the first call after them.
\<close>

record platform =
  p_malloc :: "nat \<Rightarrow> nat \<Rightarrow> char list option"
  p_encode :: "nat \<Rightarrow> string \<Rightarrow> string option"
  NAME_MAX :: nat
  PAGESIZE :: nat

type_synonym made = "((char list \<times> nat) \<times> nat) option result"

definition ATTR_BUF_SIZE :: nat where
  "ATTR_BUF_SIZE = 100"

definition bindo :: "'a option result \<Rightarrow> ('a \<Rightarrow> 'b option result) \<Rightarrow> 'b option result" where
  "bindo m f = bindr m (\<lambda>x. case x of None \<Rightarrow> Inr None | Some y \<Rightarrow> f y)"

lemma bindo_simps [simp]: "bindo (Inr None) f = Inr None" "bindo (Inr (Some x)) f = f x" "bindo (Inl e) f = Inl e"
  by (simp_all add: bindo_def)

section \<open>What libiio reports\<close>

text \<open>A value read is the block filled by libiio, or none after an error.\<close>

record channel_attribute =
  ca_name :: string
  ca_filename :: "string option"
  ca_read :: "char list option"

record data_format =
  is_fully_defined :: bool
  is_be :: bool
  is_signed :: bool
  fmt_bits :: nat
  fmt_length :: nat
  fmt_repeat :: nat
  fmt_shift :: nat
  with_scale :: bool
  fmt_scale :: double

record iio_channel =
  c_id :: string
  c_name :: "string option"
  c_output :: bool
  c_scan :: bool
  c_index :: int
  c_format :: data_format
  c_attrs :: "channel_attribute list"

record iio_device =
  d_id :: string
  d_name :: "string option"
  d_attrs :: "(string \<times> char list option) list"
  d_channels :: "iio_channel list"
  d_buffer_attrs :: "(string \<times> char list option) list"
  d_debug_attrs :: "(string \<times> char list option) list"

record iio_context =
  x_name :: string
  x_description :: "string option"
  x_attrs :: "(string \<times> string) list"
  x_devices :: "iio_device list"

section \<open>Writing into blocks\<close>

definition snprintf :: "char list \<Rightarrow> nat \<Rightarrow> string \<Rightarrow> (char list \<times> nat) result" where
  "snprintf dst n txt =
     (if n = 0 then Inr (dst, length txt)
      else bindr (memcpy dst (take (n - 1) txt @ [NUL])) (\<lambda>dst. Inr (dst, length txt)))"

text \<open>The loop of \<open>iio_strlcpy\<close>; the number is \<open>nleft\<close> after it was decremented.\<close>

fun strlcpy_loop :: "nat \<Rightarrow> char list \<Rightarrow> string \<Rightarrow> char list result" where
  "strlcpy_loop nleft [] src = Inl OutOfBounds"
| "strlcpy_loop 0 (d # dst) src = Inr (NUL # dst)"
| "strlcpy_loop (Suc nleft) (d # dst) [] = Inr (NUL # dst)"
| "strlcpy_loop (Suc nleft) (d # dst) (c # src) = bindr (strlcpy_loop nleft dst src) (\<lambda>dst. Inr (c # dst))"

definition iio_strlcpy :: "char list \<Rightarrow> string \<Rightarrow> nat \<Rightarrow> (char list \<times> nat) result" where
  "iio_strlcpy dst src dsize =
     (if dsize = 0 then Inr (dst, length src)
      else bindr (strlcpy_loop (dsize - 1) dst src) (\<lambda>dst. Inr (dst, length src)))"

text \<open>
  A block with the position \<open>ptr\<close> in it, which a truncated piece may move
  past the end; \<open>len\<close> of the code is the distance to the end.
\<close>

type_synonym writer = "char list \<times> nat"

definition append_with :: "(char list \<Rightarrow> nat \<Rightarrow> (char list \<times> nat) result) \<Rightarrow> writer \<Rightarrow> writer result" where
  "append_with f = (\<lambda>(str, ptr).
     if ptr < length str
     then bindr (f (drop ptr str) (length str - ptr)) (\<lambda>(b, n). Inr (take ptr str @ b, ptr + n))
     else Inr (str, ptr))"

definition emit :: "string \<Rightarrow> writer \<Rightarrow> writer result" where
  "emit txt = append_with (\<lambda>b n. snprintf b n txt)"

definition emit_close :: "string \<Rightarrow> writer \<Rightarrow> writer result" where
  "emit_close txt = append_with (\<lambda>b n. iio_strlcpy b txt n)"

definition emit_copy :: "char list \<times> nat \<Rightarrow> writer \<Rightarrow> writer result" where
  "emit_copy xml st =
     (case (xml, st) of ((block, n), (str, ptr)) \<Rightarrow>
        if n < length str - ptr
        then bindr (read_mem block n) (\<lambda>src.
             bindr (memcpy (drop ptr str) src) (\<lambda>b. Inr (take ptr str @ b, ptr + n)))
        else Inr (str, ptr))"

definition run_steps :: "(writer \<Rightarrow> writer result) list \<Rightarrow> writer \<Rightarrow> writer result" where
  "run_steps steps = foldr_result (\<lambda>step. step) steps"

text \<open>
  Allocate \<open>len + 1\<close> bytes, fill them, and keep the result only if one is left.
  Without the block the function leaves at one of its labels.
\<close>

definition fill :: "platform \<Rightarrow> made \<Rightarrow> nat \<Rightarrow> (writer \<Rightarrow> writer result) list \<Rightarrow> nat \<Rightarrow> made" where
  "fill P unallocated len steps t =
     (case p_malloc P t (len + 1) of
        None \<Rightarrow> unallocated
      | Some str \<Rightarrow>
          bindr (run_steps steps (str, 0)) (\<lambda>(str, ptr).
            if int (length str) - int ptr \<noteq> 1 then Inr None else Inr (Some ((str, ptr), Suc t))))"

text \<open>
  The loop over the elements of a list that makes the text of each: the texts
  made, whether it got to the end, and the number of the next call.
\<close>

fun xml_each :: "('a \<Rightarrow> nat \<Rightarrow> made) \<Rightarrow> 'a list \<Rightarrow> nat \<Rightarrow> ((char list \<times> nat) list \<times> bool \<times> nat) result" where
  "xml_each f [] t = Inr ([], True, t)"
| "xml_each f (x # xs) t = bindr (f x t) (\<lambda>r. case r of
     None \<Rightarrow> Inr ([], False, t)
   | Some (y, t) \<Rightarrow> bindr (xml_each f xs t) (\<lambda>(ys, all, t). Inr (y # ys, all, t)))"

text \<open>
  Before the loop the two arrays for the texts, of lengths and of pointers,
  are allocated, with eight bytes per element.  A function leaves at a label
  without one of them, and at another one, with the number of the texts made,
  when a text cannot be made.
\<close>

definition xml_all ::
  "platform \<Rightarrow> ('a \<Rightarrow> nat \<Rightarrow> made) \<Rightarrow> 'a list \<Rightarrow> made \<Rightarrow> (32 word \<Rightarrow> made) \<Rightarrow>
   ((char list \<times> nat) list \<Rightarrow> nat \<Rightarrow> made) \<Rightarrow> nat \<Rightarrow> made" where
  "xml_all P f xs unallocated failed k t =
     (if p_malloc P t (8 * length xs) = None \<or> p_malloc P (Suc t) (8 * length xs) = None then unallocated
      else bindr (xml_each f xs (Suc (Suc t))) (\<lambda>(ys, all, t).
        if all then k ys t else failed (of_nat (length ys))))"

text \<open>
  The loop \<open>while (k--) free(array[k])\<close> over an array with \<open>n\<close> places: the
  value of \<open>k\<close> after it, or the error of a place that is not there.
\<close>

function free_loop :: "32 word \<Rightarrow> nat \<Rightarrow> (32 word) result" where
  "free_loop k n =
     (if k = 0 then Inr (k - 1)
      else if unat (k - 1) < n then free_loop (k - 1) n
      else Inl OutOfBounds)"
  by pat_completeness auto
termination
  by (relation "measure (\<lambda>(k, n). unat k)") (auto simp: unat_minus_one unat_gt_0)

declare free_loop.simps [simp del]

definition total_len :: "(char list \<times> nat) list \<Rightarrow> nat" where
  "total_len xs = sum_list (map snd xs)"

definition strnlen_str :: "string \<Rightarrow> nat \<Rightarrow> nat" where
  "strnlen_str s n = min (length s) n"

section \<open>Attributes\<close>

definition read_value :: "char list \<Rightarrow> char list option \<Rightarrow> char list result" where
  "read_value value reading =
     (case reading of None \<Rightarrow> memcpy value (''ERROR'' @ [NUL]) | Some b \<Rightarrow> memcpy value b)"

fun attr_open :: "iio_attr_type \<Rightarrow> string" where
  "attr_open IIO_ATTR_TYPE_DEVICE = ''<attribute name=\"''"
| "attr_open IIO_ATTR_TYPE_DEBUG = ''<debug-attribute name=\"''"
| "attr_open IIO_ATTR_TYPE_BUFFER = ''<buffer-attribute name=\"''"

fun type_len :: "iio_attr_type \<Rightarrow> nat" where
  "type_len IIO_ATTR_TYPE_DEVICE = 0"
| "type_len IIO_ATTR_TYPE_DEBUG = length ''debug-''"
| "type_len IIO_ATTR_TYPE_BUFFER = length ''buffer-''"

definition get_attr_xml2 :: "platform \<Rightarrow> iio_attr_type \<Rightarrow> string \<times> char list option \<Rightarrow> nat \<Rightarrow> made" where
  "get_attr_xml2 P type a t =
     (case p_malloc P t ATTR_BUF_SIZE of
        None \<Rightarrow> Inl NullDeref
      | Some value \<Rightarrow>
          bindr (read_value value (snd a)) (\<lambda>value.
          bindr (strnlen value (NAME_MAX P)) (\<lambda>vlen.
          bindr (cstr value) (\<lambda>v.
            let len = length ''<attribute name=\"\" />'' + strnlen_str (fst a) (NAME_MAX P) + type_len type
                      + length '' value=\"\"'' + vlen
            in case p_malloc P (Suc t) (len + 1) of
                 None \<Rightarrow> Inr None
               | Some str \<Rightarrow>
                   bindr (snprintf str (len + 1) (attr_open type @ fst a @ ''\" value=\"'' @ v @ ''\" />''))
                     (\<lambda>(str, n). Inr (Some ((str, len), Suc (Suc t))))))))"

definition filename_xml :: "string option \<Rightarrow> string" where
  "filename_xml f = (case f of None \<Rightarrow> [] | Some s \<Rightarrow> '' filename=\"'' @ s @ ''\"'')"

definition get_attr_xml :: "platform \<Rightarrow> channel_attribute \<Rightarrow> nat \<Rightarrow> made" where
  "get_attr_xml P a t =
     (let len = strnlen_str (ca_name a) (NAME_MAX P) + length ''<attribute name=\"\" />''
                + (case ca_filename a of
                     None \<Rightarrow> 0
                   | Some f \<Rightarrow> strnlen_str f (NAME_MAX P) + length '' filename=\"\"'')
                + length '' value=\"\"''
      in case p_malloc P t ATTR_BUF_SIZE of
           None \<Rightarrow> Inl NullDeref
         | Some value \<Rightarrow>
             bindr (read_value value (ca_read a)) (\<lambda>value.
             bindr (strnlen value (NAME_MAX P)) (\<lambda>vlen.
             bindr (cstr value) (\<lambda>v.
               case p_malloc P (Suc t) (len + vlen + 1) of
                 None \<Rightarrow> Inr None
               | Some str \<Rightarrow>
                   bindr (snprintf str (len + vlen + 1)
                            (''<attribute name=\"'' @ ca_name a @ ''\"'' @ filename_xml (ca_filename a) @
                             '' value=\"'' @ v @ ''\" />''))
                     (\<lambda>(str, n). Inr (Some ((str, len + vlen), Suc (Suc t))))))))"

section \<open>Scan elements\<close>

text \<open>\<open>%f\<close>: six digits after the point, rounded to the nearest, ties to even.\<close>

definition show_micro :: "int \<Rightarrow> string" where
  "show_micro m =
     (let frac = show_nat (nat (m mod 1000000))
      in show_nat (nat (m div 1000000)) @ ''.'' @ replicate (6 - length frac) CHR ''0'' @ frac)"

fun show_f :: "double \<Rightarrow> string" where
  "show_f NaN = ''nan''"
| "show_f (Inf s) = (if s then ''-inf'' else ''inf'')"
| "show_f (Zero s) = (if s then ''-0.000000'' else ''0.000000'')"
| "show_f (Fin r) = (if r < 0 then ''-'' else []) @ show_micro (round_even (\<bar>r\<bar> * 1000000))"

definition SCAN_BUF :: nat where
  "SCAN_BUF = 1024"

definition scan_text :: "iio_channel \<Rightarrow> string" where
  "scan_text chn =
     (let format = c_format chn;
          repeat = (if 1 < fmt_repeat format then take 11 (''X'' @ show_nat (fmt_repeat format)) else []);
          buf = take (SCAN_BUF - 1)
            (''<scan-element index=\"'' @ to_string (c_index chn) @ ''\" format=\"'' @
             (if is_be format then ''b'' else ''l'') @ ''e:'' @
             (if is_signed format then (if is_fully_defined format then ''S'' else ''s'')
              else (if is_fully_defined format then ''U'' else ''u'')) @
             show_nat (fmt_bits format) @ ''/'' @ show_nat (fmt_length format) @ repeat @ ''&gt;&gt;'' @
             show_nat (fmt_shift format) @ ''\" />'')
      in if with_scale format
         then take (length buf - 2) buf @
              take (SCAN_BUF - length buf + 1) (''scale=\"'' @ show_f (fmt_scale format) @ ''\" />'')
         else buf)"

definition iio_strdup :: "platform \<Rightarrow> string \<Rightarrow> nat \<Rightarrow> char list option result" where
  "iio_strdup P str t =
     (case p_malloc P t (length str + 1) of
        None \<Rightarrow> Inr None
      | Some buf \<Rightarrow> bindr (memcpy buf (str @ [NUL])) (\<lambda>buf. Inr (Some buf)))"

definition get_scan_element :: "platform \<Rightarrow> iio_channel \<Rightarrow> nat \<Rightarrow> made" where
  "get_scan_element P chn t =
     bindo (iio_strdup P (scan_text chn) t) (\<lambda>str. Inr (Some ((str, length (scan_text chn)), Suc t)))"

section \<open>Channels, devices and contexts\<close>

definition name_xml :: "string option \<Rightarrow> string" where
  "name_xml n = (case n of None \<Rightarrow> [] | Some s \<Rightarrow> '' name=\"'' @ s @ ''\"'')"

definition name_len :: "platform \<Rightarrow> string option \<Rightarrow> nat" where
  "name_len P n = (case n of None \<Rightarrow> 0 | Some s \<Rightarrow> length '' name=\"\"'' + strnlen_str s (NAME_MAX P))"

text \<open>
  The label \<open>err_free_attrs\<close> of the channels and of the devices: \<open>i\<close> texts of an
  array with \<open>n\<close> places are freed.
\<close>

definition err_free_attrs :: "nat \<Rightarrow> 32 word \<Rightarrow> made" where
  "err_free_attrs n i = bindr (free_loop i n) (\<lambda>i. Inr None)"

definition iio_channel_get_xml :: "platform \<Rightarrow> iio_channel \<Rightarrow> nat \<Rightarrow> made" where
  "iio_channel_get_xml P chn = (\<lambda>t.
     bindo (if c_scan chn then get_scan_element P chn t else Inr (Some (([], 0), t))) (\<lambda>(scan_element, t).
     xml_all P (get_attr_xml P) (c_attrs chn) (Inr None) (err_free_attrs (length (c_attrs chn))) (\<lambda>attrs.
       fill P (err_free_attrs (length (c_attrs chn)) (of_nat (length (c_attrs chn))))
         (length ''<channel id=\"\" type=\"\" ></channel>'' + strnlen_str (c_id chn) (NAME_MAX P)
            + (if c_output chn then length ''output'' else length ''input'') + name_len P (c_name chn)
            + snd scan_element + total_len attrs)
         ([emit (''<channel id=\"'' @ c_id chn @ ''\"'')] @
          (case c_name chn of None \<Rightarrow> [] | Some s \<Rightarrow> [emit ('' name=\"'' @ s @ ''\"'')]) @
          [emit ('' type=\"'' @ (if c_output chn then ''output'' else ''input'') @ ''\" >'')] @
          (if c_scan chn then [emit_copy scan_element] else []) @
          map emit_copy attrs @
          [emit_close ''</channel>''])) t))"

text \<open>
  The labels at the end of \<open>iio_device_get_xml\<close>, each of which goes on into the
  next.  Two of the loops have the counter \<open>k\<close> in common, which counts the
  buffer attributes first and the debug attributes after them.
\<close>

definition err_free_channels :: "iio_device \<Rightarrow> 32 word \<Rightarrow> 32 word \<Rightarrow> made" where
  "err_free_channels dev i j =
     bindr (free_loop j (length (d_channels dev))) (\<lambda>j. err_free_attrs (length (d_attrs dev)) i)"

definition err_free_buffer_attrs :: "iio_device \<Rightarrow> 32 word \<Rightarrow> 32 word \<Rightarrow> 32 word \<Rightarrow> made" where
  "err_free_buffer_attrs dev i j k =
     bindr (free_loop k (length (d_buffer_attrs dev))) (\<lambda>k. err_free_channels dev i j)"

definition err_free_debug_attrs :: "iio_device \<Rightarrow> 32 word \<Rightarrow> 32 word \<Rightarrow> 32 word \<Rightarrow> made" where
  "err_free_debug_attrs dev i j k =
     bindr (free_loop k (length (d_debug_attrs dev))) (\<lambda>k. err_free_buffer_attrs dev i j k)"

definition device_len ::
  "platform \<Rightarrow> iio_device \<Rightarrow> (char list \<times> nat) list \<Rightarrow> (char list \<times> nat) list \<Rightarrow>
   (char list \<times> nat) list \<Rightarrow> (char list \<times> nat) list \<Rightarrow> nat" where
  "device_len P dev attrs channels buffer_attrs debug_attrs =
     length ''<device id=\"\" ></device>'' + strnlen_str (d_id dev) (NAME_MAX P) + name_len P (d_name dev)
       + total_len attrs + total_len channels + total_len buffer_attrs + total_len debug_attrs"

definition iio_device_get_xml :: "platform \<Rightarrow> iio_device \<Rightarrow> nat \<Rightarrow> made" where
  "iio_device_get_xml P dev =
     (let i = of_nat (length (d_attrs dev));
          j = of_nat (length (d_channels dev))
      in xml_all P (get_attr_xml2 P IIO_ATTR_TYPE_DEVICE) (d_attrs dev)
           (Inr None) (err_free_attrs (length (d_attrs dev))) (\<lambda>attrs.
         xml_all P (iio_channel_get_xml P) (d_channels dev)
           (err_free_attrs (length (d_attrs dev)) i) (err_free_channels dev i) (\<lambda>channels.
         xml_all P (get_attr_xml2 P IIO_ATTR_TYPE_BUFFER) (d_buffer_attrs dev)
           (err_free_channels dev i j) (err_free_buffer_attrs dev i j) (\<lambda>buffer_attrs.
         xml_all P (get_attr_xml2 P IIO_ATTR_TYPE_DEBUG) (d_debug_attrs dev)
           (err_free_buffer_attrs dev i j (of_nat (length (d_buffer_attrs dev)))) (err_free_debug_attrs dev i j) (\<lambda>debug_attrs.
         fill P (err_free_debug_attrs dev i j (of_nat (length (d_debug_attrs dev))))
           (device_len P dev attrs channels buffer_attrs debug_attrs)
           ([emit (''<device id=\"'' @ d_id dev @ ''\"'')] @
            (case d_name dev of None \<Rightarrow> [] | Some s \<Rightarrow> [emit ('' name=\"'' @ s @ ''\"'')]) @
            [emit_close '' >''] @
            map emit_copy channels @ map emit_copy attrs @ map emit_copy buffer_attrs @ map emit_copy debug_attrs @
            [emit_close ''</device>'']))))))"

definition xml_header :: string where
  "xml_header =
     ''<?xml version=\"1.0\" encoding=\"utf-8\"?>'' @
     ''<!DOCTYPE context ['' @
     ''<!ELEMENT context (device | context-attribute)*>'' @
     ''<!ELEMENT context-attribute EMPTY>'' @
     ''<!ELEMENT device (channel | attribute | debug-attribute | buffer-attribute)*>'' @
     ''<!ELEMENT channel (scan-element?, attribute*)>'' @
     ''<!ELEMENT attribute EMPTY>'' @
     ''<!ELEMENT scan-element EMPTY>'' @
     ''<!ELEMENT debug-attribute EMPTY>'' @
     ''<!ELEMENT buffer-attribute EMPTY>'' @
     ''<!ATTLIST context name CDATA #REQUIRED description CDATA #IMPLIED>'' @
     ''<!ATTLIST context-attribute name CDATA #REQUIRED value CDATA #REQUIRED>'' @
     ''<!ATTLIST device id CDATA #REQUIRED name CDATA #IMPLIED>'' @
     ''<!ATTLIST channel id CDATA #REQUIRED type (input|output) #REQUIRED name CDATA #IMPLIED>'' @
     ''<!ATTLIST scan-element index CDATA #REQUIRED format CDATA #REQUIRED scale CDATA #IMPLIED>'' @
     ''<!ATTLIST attribute name CDATA #REQUIRED filename CDATA #IMPLIED value CDATA #IMPLIED>'' @
     ''<!ATTLIST debug-attribute name CDATA #REQUIRED value CDATA #IMPLIED>'' @
     ''<!ATTLIST buffer-attribute name CDATA #REQUIRED value CDATA #IMPLIED>'' @
     '']>''"

text \<open>
  The names and values of context attributes are encoded, those of all other
  attributes are not.  \<open>calloc\<close> is an allocation here.
\<close>

fun encode_attrs :: "platform \<Rightarrow> (string \<times> string) list \<Rightarrow> nat \<Rightarrow> ((string \<times> string) list \<times> nat) option" where
  "encode_attrs P [] t = Some ([], t)"
| "encode_attrs P ((attr, value) # attrs) t =
     (case (p_encode P t attr, p_encode P (Suc t) value) of
        (Some a, Some v) \<Rightarrow> map_option (\<lambda>(as, t). ((a, v) # as, t)) (encode_attrs P attrs (Suc (Suc t)))
      | _ \<Rightarrow> None)"

definition context_attr_text :: "string \<times> string \<Rightarrow> string" where
  "context_attr_text a = ''<context-attribute name=\"'' @ fst a @ ''\" value=\"'' @ snd a @ ''\" />''"

definition context_open :: "iio_context \<Rightarrow> string" where
  "context_open ctx = xml_header @ ''<context name=\"'' @ x_name ctx @ ''\" '' @
     (case x_description ctx of None \<Rightarrow> [] | Some s \<Rightarrow> ''description=\"'' @ s @ ''\" '') @ ''>''"

text \<open>
  The labels of this function walk forward over arrays that \<open>calloc\<close> filled
  with null pointers, as far as their number of elements goes, so nothing of
  them shows.
\<close>

definition iio_context_create_xml :: "platform \<Rightarrow> iio_context \<Rightarrow> nat \<Rightarrow> made" where
  "iio_context_create_xml P ctx t =
     (if p_malloc P t (8 * length (x_attrs ctx)) = None \<or> p_malloc P (Suc t) (8 * length (x_attrs ctx)) = None
      then Inr None
      else case encode_attrs P (x_attrs ctx) (Suc (Suc t)) of
        None \<Rightarrow> Inr None
      | Some (ctx_attrs, t) \<Rightarrow>
          let all = (\<lambda>devices. fill P (Inr None)
              (length xml_header + strnlen_str (x_name ctx) (NAME_MAX P) + length ''<context name=\"\" ></context>''
                 + (case x_description ctx of
                      None \<Rightarrow> 0
                    | Some s \<Rightarrow> strnlen_str s (NAME_MAX P) + length '' description=\"\"'')
                 + sum_list (map (\<lambda>(a, v). strnlen_str a (NAME_MAX P) + strnlen_str v (PAGESIZE P)
                                  + length ''<context-attribute name=\"\" value=\"\" />'') ctx_attrs)
                 + total_len devices)
              ([emit (context_open ctx)] @ map (\<lambda>a. emit (context_attr_text a)) ctx_attrs @
               map emit_copy devices @ [emit_close ''</context>'']))
          in if x_devices ctx = [] then all [] t
             else xml_all P (iio_device_get_xml P) (x_devices ctx) (Inr None) (\<lambda>i. Inr None) all t)"

text \<open>
  The program: \<open>connect\<close> opens the context of a URI.  The result is the exit
  status and the output; a null pointer is passed to \<open>printf\<close> unchecked.
\<close>

definition genxml_main :: "platform \<Rightarrow> (string \<Rightarrow> iio_context option) \<Rightarrow> string list \<Rightarrow> (int \<times> string) result" where
  "genxml_main P create_context argv =
     (if length argv \<le> 1 then Inr (1, [])
      else case create_context (argv ! 1) of
        None \<Rightarrow> Inr (1, [])
      | Some ctx \<Rightarrow>
          bindr (iio_context_create_xml P ctx 0) (\<lambda>xml.
            case xml of
              None \<Rightarrow> Inl NullDeref
            | Some ((str, n), t) \<Rightarrow> bindr (cstr str) (\<lambda>s. Inr (0, s))))"

end
