(* ===== verification/Genxml_Text.thy ===== *)
theory Genxml_Text
  imports Genxml
begin

text \<open>
  What tools/genxml.c prints: the text of a description as one expression,
  the limits within which the program prints exactly that, and the proof that
  it stays inside its blocks beyond them as well.
\<close>

section \<open>The text a description should have\<close>

definition value_of :: "char list option \<Rightarrow> string" where
  "value_of reading = (case reading of None \<Rightarrow> ''ERROR'' | Some b \<Rightarrow> takeWhile (\<lambda>c. c \<noteq> NUL) b)"

definition attr2_text :: "iio_attr_type \<Rightarrow> string \<times> char list option \<Rightarrow> string" where
  "attr2_text type a = attr_open type @ fst a @ ''\" value=\"'' @ value_of (snd a) @ ''\" />''"

definition attr_text :: "channel_attribute \<Rightarrow> string" where
  "attr_text a = ''<attribute name=\"'' @ ca_name a @ ''\"'' @ filename_xml (ca_filename a) @
     '' value=\"'' @ value_of (ca_read a) @ ''\" />''"

definition channel_text :: "iio_channel \<Rightarrow> string" where
  "channel_text chn =
     ''<channel id=\"'' @ c_id chn @ ''\"'' @ name_xml (c_name chn) @
     '' type=\"'' @ (if c_output chn then ''output'' else ''input'') @ ''\" >'' @
     (if c_scan chn then scan_text chn else []) @ concat (map attr_text (c_attrs chn)) @ ''</channel>''"

definition device_text :: "iio_device \<Rightarrow> string" where
  "device_text dev =
     ''<device id=\"'' @ d_id dev @ ''\"'' @ name_xml (d_name dev) @ '' >'' @
     concat (map channel_text (d_channels dev)) @
     concat (map (attr2_text IIO_ATTR_TYPE_DEVICE) (d_attrs dev)) @
     concat (map (attr2_text IIO_ATTR_TYPE_BUFFER) (d_buffer_attrs dev)) @
     concat (map (attr2_text IIO_ATTR_TYPE_DEBUG) (d_debug_attrs dev)) @ ''</device>''"

definition context_text :: "(string \<Rightarrow> string) \<Rightarrow> iio_context \<Rightarrow> string" where
  "context_text enc ctx =
     context_open ctx @ concat (map (\<lambda>(a, v). context_attr_text (enc a, enc v)) (x_attrs ctx)) @
     concat (map device_text (x_devices ctx)) @ ''</context>''"

text \<open>The limits within which the lengths are computed right.\<close>

definition platform_ok :: "platform \<Rightarrow> bool" where
  "platform_ok P \<longleftrightarrow> (\<forall>t n. \<exists>b. p_malloc P t n = Some b \<and> length b = n) \<and> ATTR_BUF_SIZE \<le> NAME_MAX P"

definition read_ok :: "char list option \<Rightarrow> bool" where
  "read_ok reading = (case reading of None \<Rightarrow> True | Some b \<Rightarrow> NUL \<in> set b \<and> length b \<le> ATTR_BUF_SIZE)"

definition opt_fits :: "platform \<Rightarrow> string option \<Rightarrow> bool" where
  "opt_fits P s = (case s of None \<Rightarrow> True | Some n \<Rightarrow> length n \<le> NAME_MAX P)"

definition attr2_fits :: "platform \<Rightarrow> string \<times> char list option \<Rightarrow> bool" where
  "attr2_fits P a \<longleftrightarrow> length (fst a) \<le> NAME_MAX P \<and> read_ok (snd a)"

definition attr_fits :: "platform \<Rightarrow> channel_attribute \<Rightarrow> bool" where
  "attr_fits P a \<longleftrightarrow> length (ca_name a) \<le> NAME_MAX P \<and> opt_fits P (ca_filename a) \<and> read_ok (ca_read a)"

definition channel_fits :: "platform \<Rightarrow> iio_channel \<Rightarrow> bool" where
  "channel_fits P chn \<longleftrightarrow> length (c_id chn) \<le> NAME_MAX P \<and> opt_fits P (c_name chn) \<and> list_all (attr_fits P) (c_attrs chn)"

definition device_fits :: "platform \<Rightarrow> iio_device \<Rightarrow> bool" where
  "device_fits P dev \<longleftrightarrow> length (d_id dev) \<le> NAME_MAX P \<and> opt_fits P (d_name dev) \<and>
     list_all (channel_fits P) (d_channels dev) \<and> list_all (attr2_fits P) (d_attrs dev) \<and>
     list_all (attr2_fits P) (d_buffer_attrs dev) \<and> list_all (attr2_fits P) (d_debug_attrs dev)"

definition context_fits :: "platform \<Rightarrow> (string \<Rightarrow> string) \<Rightarrow> iio_context \<Rightarrow> bool" where
  "context_fits P enc ctx \<longleftrightarrow> length (x_name ctx) \<le> NAME_MAX P \<and> opt_fits P (x_description ctx) \<and>
     list_all (\<lambda>(a, v). (\<forall>t. p_encode P t a = Some (enc a) \<and> p_encode P t v = Some (enc v)) \<and>
        length (enc a) \<le> NAME_MAX P \<and> length (enc v) \<le> PAGESIZE P) (x_attrs ctx) \<and>
     list_all (device_fits P) (x_devices ctx)"

section \<open>Pieces that fit are written\<close>

definition emits :: "(writer \<Rightarrow> writer result) \<Rightarrow> string \<Rightarrow> bool" where
  "emits f s \<longleftrightarrow> (\<forall>p junk. length s < length junk \<longrightarrow>
     (\<exists>junk'. f (p @ junk, length p) = Inr ((p @ s) @ junk', length (p @ s)) \<and> length junk' = length junk - length s))"

lemma emitsE:
  assumes "emits f s" "length s < length junk"
  obtains junk' where "f (p @ junk, length p) = Inr ((p @ s) @ junk', length (p @ s))" "length junk' = length junk - length s"
  using assms unfolding emits_def by blast

lemma snprintf_fits:
  "length s < n \<Longrightarrow> n \<le> length dst \<Longrightarrow> snprintf dst n s = Inr (s @ NUL # drop (Suc (length s)) dst, length s)"
  by (simp add: snprintf_def memcpy_def)

lemma strlcpy_loop_fits:
  "length s \<le> n \<Longrightarrow> n < length dst \<Longrightarrow> strlcpy_loop n dst s = Inr (s @ NUL # drop (Suc (length s)) dst)"
  by (induction n dst s rule: strlcpy_loop.induct) auto

lemma iio_strlcpy_fits:
  "length s < n \<Longrightarrow> n \<le> length dst \<Longrightarrow> iio_strlcpy dst s n = Inr (s @ NUL # drop (Suc (length s)) dst, length s)"
  using strlcpy_loop_fits [of s "n - 1" dst] by (simp add: iio_strlcpy_def)

lemma emits_emit: "emits (emit s) s"
  by (auto simp: emits_def emit_def append_with_def snprintf_fits)

lemma emits_close: "emits (emit_close s) s"
  by (auto simp: emits_def emit_close_def append_with_def iio_strlcpy_fits)

lemma emits_copy: "emits (emit_copy (t @ [NUL], length t)) t"
  by (auto simp: emits_def emit_copy_def read_mem_def memcpy_def)

lemma emits_steps: "list_all2 emits steps ss \<Longrightarrow> emits (run_steps steps) (concat ss)"
proof (induction steps ss rule: list_all2_induct)
  case Nil
  then show ?case by (simp add: emits_def run_steps_def)
next
  case (Cons f fs s ss)
  show ?case
    unfolding emits_def
  proof (intro allI impI)
    fix p junk :: "char list"
    assume len: "length (concat (s # ss)) < length junk"
    then have "length s < length junk" by simp
    then obtain j where j: "f (p @ junk, length p) = Inr ((p @ s) @ j, length (p @ s))" "length j = length junk - length s"
      by (rule emitsE [OF Cons.hyps(1)])
    have "length (concat ss) < length j" using len j(2) by simp
    then obtain k where "run_steps fs ((p @ s) @ j, length (p @ s)) = Inr (((p @ s) @ concat ss) @ k, length ((p @ s) @ concat ss))"
      "length k = length j - length (concat ss)"
      by (rule emitsE [OF Cons.IH])
    then show "\<exists>junk'. run_steps (f # fs) (p @ junk, length p) =
        Inr ((p @ concat (s # ss)) @ junk', length (p @ concat (s # ss))) \<and> length junk' = length junk - length (concat (s # ss))"
      using j by (auto simp: run_steps_def)
  qed
qed

text \<open>A computation that makes a text whatever the number of its first call is.\<close>

definition makes :: "(nat \<Rightarrow> made) \<Rightarrow> string \<Rightarrow> bool" where
  "makes m s \<longleftrightarrow> (\<forall>t. \<exists>t'. m t = Inr (Some ((s @ [NUL], length s), t')))"

lemma makesI: "(\<And>t. m t = Inr (Some ((s @ [NUL], length s), t' t))) \<Longrightarrow> makes m s"
  by (simp add: makes_def)

lemma makes_after:
  assumes "\<And>t. \<exists>t'. m t = Inr (Some (x, t'))" "makes (k x) s"
  shows "makes (\<lambda>t. bindo (m t) (\<lambda>(y, t). k y t)) s"
  unfolding makes_def
proof
  fix t
  obtain t' where "m t = Inr (Some (x, t'))" using assms(1) by blast
  then show "\<exists>t'. bindo (m t) (\<lambda>(y, t). k y t) = Inr (Some ((s @ [NUL], length s), t'))"
    using assms(2) by (simp add: makes_def)
qed

lemma malloc_ok:
  assumes "platform_ok P"
  obtains b where "p_malloc P t n = Some b" "length b = n"
  using assms unfolding platform_ok_def by blast

text \<open>A block of the right size is filled completely.\<close>

lemma fill_text:
  assumes "platform_ok P" "list_all2 emits steps ss" "len = length (concat ss) + length e"
  shows "makes (fill P u len (steps @ [emit_close e])) (concat ss @ e)"
proof (rule makesI)
  fix t
  obtain b where b: "p_malloc P t (len + 1) = Some b" "length b = len + 1"
    by (rule malloc_ok [OF assms(1)])
  have "length (concat ss) < length b" using b(2) assms(3) by simp
  then obtain j where j: "run_steps steps ([] @ b, length ([] :: string)) = Inr (([] @ concat ss) @ j, length ([] @ concat ss))"
    "length j = length b - length (concat ss)"
    by (rule emitsE [OF emits_steps [OF assms(2)], where p = "[]"])
  have "emit_close e (concat ss @ j, length (concat ss)) = Inr ((concat ss @ e) @ [NUL], length (concat ss @ e))"
    using j(2) b(2) assms(3) by (simp add: emit_close_def append_with_def iio_strlcpy_fits)
  then show "fill P u len (steps @ [emit_close e]) t = Inr (Some (((concat ss @ e) @ [NUL], length (concat ss @ e)), Suc t))"
    using b(1) j(1) by (simp add: fill_def run_steps_def foldr_result_append)
qed

lemma xml_each_texts:
  assumes "\<forall>x \<in> set xs. makes (f x) (txt x)"
  shows "\<exists>t'. xml_each f xs t = Inr (map (\<lambda>x. (txt x @ [NUL], length (txt x))) xs, True, t')"
  using assms
proof (induction xs arbitrary: t)
  case (Cons x xs)
  obtain t' where x: "f x t = Inr (Some ((txt x @ [NUL], length (txt x)), t'))"
    using Cons.prems unfolding makes_def by (meson list.set_intros(1))
  obtain t'' where "xml_each f xs t' = Inr (map (\<lambda>x. (txt x @ [NUL], length (txt x))) xs, True, t'')"
    using Cons.IH [of t'] Cons.prems by auto
  then show ?case using x by simp
qed simp

lemma xml_all_texts:
  assumes "platform_ok P" "\<forall>x \<in> set xs. makes (f x) (txt x)"
    and "makes (k (map (\<lambda>x. (txt x @ [NUL], length (txt x))) xs)) s"
  shows "makes (xml_all P f xs u e k) s"
  unfolding makes_def
proof
  fix t
  have "p_malloc P t n \<noteq> None" for t n using assms(1) by (auto simp: platform_ok_def)
  moreover obtain t' where "xml_each f xs (Suc (Suc t)) = Inr (map (\<lambda>x. (txt x @ [NUL], length (txt x))) xs, True, t')"
    using xml_each_texts [OF assms(2)] by blast
  ultimately show "\<exists>t'. xml_all P f xs u e k t = Inr (Some ((s @ [NUL], length s), t'))"
    using assms(3) by (simp add: xml_all_def makes_def del: not_None_eq)
qed

lemma total_len_texts: "total_len (map (\<lambda>x. (txt x @ [NUL], length (txt x))) xs) = length (concat (map txt xs))"
  by (induction xs) (auto simp: total_len_def)

lemma emits_copies:
  "list_all2 emits (map emit_copy (map (\<lambda>x. (txt x @ [NUL], length (txt x))) xs)) (map txt xs)"
  by (simp add: list_all2_conv_all_nth emits_copy)

section \<open>Each function writes its text\<close>

lemma read_value_ok:
  assumes "read_ok reading" "length block = ATTR_BUF_SIZE" "ATTR_BUF_SIZE \<le> n"
  obtains b where "read_value block reading = Inr b" "cstr b = Inr (value_of reading)"
    "strnlen b n = Inr (length (value_of reading))"
proof -
  obtain v r where "read_value block reading = Inr (v @ NUL # r)" "value_of reading = v" "NUL \<notin> set v"
    "length v < ATTR_BUF_SIZE"
  proof (cases reading)
    case None
    then show thesis using assms(2) that [of "''ERROR''" "drop 6 block"]
      by (simp add: read_value_def value_of_def memcpy_def ATTR_BUF_SIZE_def NUL_def eval_nat_numeral)
  next
    case (Some b)
    then obtain ys zs where b: "b = ys @ NUL # zs" "NUL \<notin> set ys"
      using assms(1) by (auto simp: read_ok_def dest!: split_list_first)
    then have "takeWhile (\<lambda>c. c \<noteq> NUL) b = ys" by (simp add: takeWhile_tail) (metis takeWhile_eq_all_conv)
    then show thesis using assms(1,2) b Some that [of ys "zs @ drop (length b) block"]
      by (simp add: read_value_def value_of_def memcpy_def read_ok_def)
  qed
  then show thesis using assms(3) that by (simp add: cstr_append strnlen_string)
qed

lemma snprintf_exact:
  "length b = length s + 1 \<Longrightarrow> snprintf b (length s + 1) s = Inr (s @ [NUL], length s)"
  by (simp add: snprintf_fits)

lemma get_attr_xml2_text:
  assumes "platform_ok P" "attr2_fits P a"
  shows "makes (get_attr_xml2 P type a) (attr2_text type a)"
proof (rule makesI)
  fix t
  obtain block where block: "p_malloc P t ATTR_BUF_SIZE = Some block" "length block = ATTR_BUF_SIZE"
    by (rule malloc_ok [OF assms(1)])
  obtain b where b: "read_value block (snd a) = Inr b" "cstr b = Inr (value_of (snd a))"
    "strnlen b (NAME_MAX P) = Inr (length (value_of (snd a)))"
    by (rule read_value_ok [OF _ block(2), of "snd a" "NAME_MAX P"])
      (use assms in \<open>simp_all add: attr2_fits_def platform_ok_def\<close>)
  let ?t = "attr2_text type a"
  have len: "length ''<attribute name=\"\" />'' + strnlen_str (fst a) (NAME_MAX P) + type_len type
      + length '' value=\"\"'' + length (value_of (snd a)) = length ?t"
    using assms(2) by (cases type) (simp_all add: attr2_text_def attr2_fits_def strnlen_str_def)
  obtain str where str: "p_malloc P (Suc t) (length ?t + 1) = Some str" "length str = length ?t + 1"
    by (rule malloc_ok [OF assms(1)])
  show "get_attr_xml2 P type a t = Inr (Some ((?t @ [NUL], length ?t), Suc (Suc t)))"
    using block(1) b str(1) snprintf_exact [OF str(2)] unfolding get_attr_xml2_def
    by (simp only: option.case bindr_Inr Let_def len) (simp add: attr2_text_def)
qed

lemma get_attr_xml_text:
  assumes "platform_ok P" "attr_fits P a"
  shows "makes (get_attr_xml P a) (attr_text a)"
proof (rule makesI)
  fix t
  obtain block where block: "p_malloc P t ATTR_BUF_SIZE = Some block" "length block = ATTR_BUF_SIZE"
    by (rule malloc_ok [OF assms(1)])
  obtain b where b: "read_value block (ca_read a) = Inr b" "cstr b = Inr (value_of (ca_read a))"
    "strnlen b (NAME_MAX P) = Inr (length (value_of (ca_read a)))"
    by (rule read_value_ok [OF _ block(2), of "ca_read a" "NAME_MAX P"])
      (use assms in \<open>simp_all add: attr_fits_def platform_ok_def\<close>)
  let ?t = "attr_text a"
  have len: "strnlen_str (ca_name a) (NAME_MAX P) + length ''<attribute name=\"\" />''
                + (case ca_filename a of None \<Rightarrow> 0 | Some f \<Rightarrow> strnlen_str f (NAME_MAX P) + length '' filename=\"\"'')
                + length '' value=\"\"'' + length (value_of (ca_read a)) = length ?t"
    using assms(2) by (simp add: attr_text_def attr_fits_def strnlen_str_def opt_fits_def filename_xml_def split: option.splits)
  obtain str where str: "p_malloc P (Suc t) (length ?t + 1) = Some str" "length str = length ?t + 1"
    by (rule malloc_ok [OF assms(1)])
  show "get_attr_xml P a t = Inr (Some ((?t @ [NUL], length ?t), Suc (Suc t)))"
    using block(1) b str(1) snprintf_exact [OF str(2)] unfolding get_attr_xml_def
    by (simp only: option.case bindr_Inr Let_def len) (simp add: attr_text_def)
qed

lemma get_scan_element_text:
  assumes "platform_ok P"
  shows "get_scan_element P chn t = Inr (Some ((scan_text chn @ [NUL], length (scan_text chn)), Suc t))"
proof -
  obtain str where "p_malloc P t (length (scan_text chn) + 1) = Some str" "length str = length (scan_text chn) + 1"
    by (rule malloc_ok [OF assms])
  then show ?thesis by (simp add: get_scan_element_def iio_strdup_def memcpy_def)
qed

lemma emits_one: "list_all2 emits [emit s] [s]" "list_all2 emits [emit_close s] [s]"
  "list_all2 emits [emit_copy (t @ [NUL], length t)] [t]" "list_all2 emits [] []"
  by (simp_all add: emits_emit emits_close emits_copy)

definition name_pieces :: "string option \<Rightarrow> string list" where
  "name_pieces n = (case n of None \<Rightarrow> [] | Some s \<Rightarrow> ['' name=\"'' @ s @ ''\"''])"

lemma emits_name: "list_all2 emits (case n of None \<Rightarrow> [] | Some s \<Rightarrow> [emit ('' name=\"'' @ s @ ''\"'')]) (name_pieces n)"
  by (cases n) (simp_all only: name_pieces_def option.case emits_one)

lemma name_pieces_text: "concat (name_pieces n) = name_xml n"
  by (cases n) (simp_all add: name_pieces_def name_xml_def)

lemma name_len_text: "opt_fits P n \<Longrightarrow> name_len P n = length (name_xml n)"
  by (cases n) (simp_all add: name_len_def name_xml_def opt_fits_def strnlen_str_def)

lemma channel_xml_text:
  assumes "platform_ok P" "channel_fits P chn"
  shows "makes (iio_channel_get_xml P chn) (channel_text chn)"
proof -
  define scan where "scan = (if c_scan chn then scan_text chn else [])"
  define out where "out = (if c_output chn then ''output'' else ''input'')"
  define pieces where "pieces = [''<channel id=\"'' @ c_id chn @ ''\"''] @ name_pieces (c_name chn) @
    ['' type=\"'' @ out @ ''\" >''] @ (if c_scan chn then [scan_text chn] else []) @ map attr_text (c_attrs chn)"
  let ?el = "if c_scan chn then (scan_text chn @ [NUL], length (scan_text chn)) else ([], 0)"
  have el: "\<exists>t'. (if c_scan chn then get_scan_element P chn t else Inr (Some (([], 0), t))) = Inr (Some (?el, t'))" for t
    using get_scan_element_text [OF assms(1)] by simp
  have attrs: "\<forall>a \<in> set (c_attrs chn). makes (get_attr_xml P a) (attr_text a)"
    using assms(2) by (auto simp: channel_fits_def list_all_iff intro: get_attr_xml_text [OF assms(1)])
  have whole: "channel_text chn = concat pieces @ ''</channel>''"
    by (simp add: channel_text_def pieces_def name_pieces_text out_def)
  have "length (c_id chn) \<le> NAME_MAX P" "opt_fits P (c_name chn)" using assms(2) by (simp_all add: channel_fits_def)
  then have len: "length ''<channel id=\"\" type=\"\" ></channel>'' + strnlen_str (c_id chn) (NAME_MAX P)
      + (if c_output chn then length ''output'' else length ''input'') + name_len P (c_name chn)
      + snd (if c_scan chn then (scan_text chn @ [NUL], length (scan_text chn)) else ([], 0))
      + total_len (map (\<lambda>a. (attr_text a @ [NUL], length (attr_text a))) (c_attrs chn))
    = length (concat pieces) + length ''</channel>''"
    by (simp add: pieces_def name_pieces_text name_len_text strnlen_str_def out_def total_len_texts)
  have steps: "list_all2 emits
     ([emit (''<channel id=\"'' @ c_id chn @ ''\"'')] @
      (case c_name chn of None \<Rightarrow> [] | Some s \<Rightarrow> [emit ('' name=\"'' @ s @ ''\"'')]) @
      [emit ('' type=\"'' @ out @ ''\" >'')] @
      (if c_scan chn then [emit_copy (if c_scan chn then (scan_text chn @ [NUL], length (scan_text chn)) else ([], 0))] else []) @
      map emit_copy (map (\<lambda>a. (attr_text a @ [NUL], length (attr_text a))) (c_attrs chn))) pieces"
    unfolding pieces_def
    by (intro list_all2_appendI emits_one emits_name emits_copies) (simp add: emits_copy)
  show ?thesis
    unfolding iio_channel_get_xml_def
    by (rule makes_after [OF el], rule xml_all_texts [OF assms(1) attrs],
        unfold whole append_assoc append_Cons append_Nil)
      (rule fill_text [OF assms(1) steps len, unfolded out_def append_assoc append_Cons append_Nil])
qed

lemma device_xml_text:
  assumes "platform_ok P" "device_fits P dev"
  shows "makes (iio_device_get_xml P dev) (device_text dev)"
proof -
  let ?attr = "\<lambda>type. (\<lambda>a. (attr2_text type a @ [NUL], length (attr2_text type a)))"
  let ?chn = "\<lambda>c. (channel_text c @ [NUL], length (channel_text c))"
  define pieces where "pieces = [''<device id=\"'' @ d_id dev @ ''\"''] @ name_pieces (d_name dev) @ ['' >''] @
    map channel_text (d_channels dev) @ map (attr2_text IIO_ATTR_TYPE_DEVICE) (d_attrs dev) @
    map (attr2_text IIO_ATTR_TYPE_BUFFER) (d_buffer_attrs dev) @ map (attr2_text IIO_ATTR_TYPE_DEBUG) (d_debug_attrs dev)"
  have fits: "\<forall>a \<in> set (d_attrs dev) \<union> set (d_buffer_attrs dev) \<union> set (d_debug_attrs dev). attr2_fits P a"
    "\<forall>c \<in> set (d_channels dev). channel_fits P c" "length (d_id dev) \<le> NAME_MAX P" "opt_fits P (d_name dev)"
    using assms(2) by (auto simp: device_fits_def list_all_iff)
  have attrs: "\<forall>a \<in> set (d_attrs dev). makes (get_attr_xml2 P type a) (attr2_text type a)"
    "\<forall>a \<in> set (d_buffer_attrs dev). makes (get_attr_xml2 P type a) (attr2_text type a)"
    "\<forall>a \<in> set (d_debug_attrs dev). makes (get_attr_xml2 P type a) (attr2_text type a)" for type
    using fits(1) get_attr_xml2_text [OF assms(1)] by blast+
  have chns: "\<forall>c \<in> set (d_channels dev). makes (iio_channel_get_xml P c) (channel_text c)"
    using fits(2) channel_xml_text [OF assms(1)] by blast
  have whole: "device_text dev = concat pieces @ ''</device>''"
    by (simp add: device_text_def pieces_def name_pieces_text)
  have len: "device_len P dev (map (?attr IIO_ATTR_TYPE_DEVICE) (d_attrs dev)) (map ?chn (d_channels dev))
      (map (?attr IIO_ATTR_TYPE_BUFFER) (d_buffer_attrs dev)) (map (?attr IIO_ATTR_TYPE_DEBUG) (d_debug_attrs dev))
    = length (concat pieces) + length ''</device>''"
    using fits(3,4) unfolding total_len_texts device_len_def
    by (simp add: pieces_def name_pieces_text name_len_text strnlen_str_def)
  have steps: "list_all2 emits
     ([emit (''<device id=\"'' @ d_id dev @ ''\"'')] @
      (case d_name dev of None \<Rightarrow> [] | Some s \<Rightarrow> [emit ('' name=\"'' @ s @ ''\"'')]) @ [emit_close '' >''] @
      map emit_copy (map ?chn (d_channels dev)) @ map emit_copy (map (?attr IIO_ATTR_TYPE_DEVICE) (d_attrs dev)) @
      map emit_copy (map (?attr IIO_ATTR_TYPE_BUFFER) (d_buffer_attrs dev)) @
      map emit_copy (map (?attr IIO_ATTR_TYPE_DEBUG) (d_debug_attrs dev))) pieces"
    unfolding pieces_def by (intro list_all2_appendI emits_one emits_name emits_copies)
  show ?thesis
    unfolding iio_device_get_xml_def Let_def
    by (rule xml_all_texts [OF assms(1) attrs(1)], rule xml_all_texts [OF assms(1) chns],
        rule xml_all_texts [OF assms(1) attrs(2)], rule xml_all_texts [OF assms(1) attrs(3)], unfold whole append_assoc append_Cons append_Nil)
      (rule fill_text [OF assms(1) steps len, unfolded append_assoc append_Cons append_Nil])
qed

lemma encode_attrs_fits:
  "list_all (\<lambda>(a, v). (\<forall>t. p_encode P t a = Some (enc a) \<and> p_encode P t v = Some (enc v)) \<and> Q a v) xs \<Longrightarrow>
    \<exists>t'. encode_attrs P xs t = Some (map (\<lambda>(a, v). (enc a, enc v)) xs, t')"
  by (induction P xs t rule: encode_attrs.induct) fastforce+

lemma context_xml_text:
  assumes "platform_ok P" "context_fits P enc ctx"
  shows "makes (iio_context_create_xml P ctx) (context_text enc ctx)"
proof -
  let ?dev = "\<lambda>d. (device_text d @ [NUL], length (device_text d))"
  define as where "as = map (\<lambda>(a, v). (enc a, enc v)) (x_attrs ctx)"
  define pieces where "pieces = [context_open ctx] @ map context_attr_text as @ map device_text (x_devices ctx)"
  have fits: "length (x_name ctx) \<le> NAME_MAX P" "opt_fits P (x_description ctx)" "\<forall>d \<in> set (x_devices ctx). device_fits P d"
    "list_all (\<lambda>(a, v). (\<forall>t. p_encode P t a = Some (enc a) \<and> p_encode P t v = Some (enc v)) \<and>
        length (enc a) \<le> NAME_MAX P \<and> length (enc v) \<le> PAGESIZE P) (x_attrs ctx)"
    using assms(2) by (simp_all add: context_fits_def list_all_iff)
  have enc: "\<exists>t'. encode_attrs P (x_attrs ctx) t = Some (as, t')" for t
    unfolding as_def by (rule encode_attrs_fits [OF fits(4)])
  have alloc: "p_malloc P t n \<noteq> None" for t n using assms(1) by (auto simp: platform_ok_def)
  have devs: "\<forall>d \<in> set (x_devices ctx). makes (iio_device_get_xml P d) (device_text d)"
    using fits(3) device_xml_text [OF assms(1)] by blast
  have whole: "context_text enc ctx = concat pieces @ ''</context>''"
    by (simp add: context_text_def pieces_def as_def case_prod_unfold comp_def)
  have attrs_len: "sum_list (map (\<lambda>(a, v). strnlen_str a (NAME_MAX P) + strnlen_str v (PAGESIZE P)
        + length ''<context-attribute name=\"\" value=\"\" />'') as) = length (concat (map context_attr_text as))"
  proof -
    have "list_all (\<lambda>(a, v). length a \<le> NAME_MAX P \<and> length v \<le> PAGESIZE P) as"
      using fits(4) by (auto simp: as_def list_all_iff)
    then show ?thesis by (induction as) (auto simp: context_attr_text_def strnlen_str_def)
  qed
  have open_len: "length xml_header + strnlen_str (x_name ctx) (NAME_MAX P) + length ''<context name=\"\" ></context>''
      + (case x_description ctx of None \<Rightarrow> 0 | Some s \<Rightarrow> strnlen_str s (NAME_MAX P) + length '' description=\"\"'')
      = length (context_open ctx) + length ''</context>''"
    using fits(1,2) by (simp add: context_open_def strnlen_str_def opt_fits_def split: option.splits)
  have len: "length xml_header + strnlen_str (x_name ctx) (NAME_MAX P) + length ''<context name=\"\" ></context>''
      + (case x_description ctx of None \<Rightarrow> 0 | Some s \<Rightarrow> strnlen_str s (NAME_MAX P) + length '' description=\"\"'')
      + sum_list (map (\<lambda>(a, v). strnlen_str a (NAME_MAX P) + strnlen_str v (PAGESIZE P)
          + length ''<context-attribute name=\"\" value=\"\" />'') as)
      + total_len (map ?dev (x_devices ctx)) = length (concat pieces) + length ''</context>''"
    unfolding open_len attrs_len total_len_texts by (simp add: pieces_def)
  have "list_all2 emits (map (\<lambda>a. emit (context_attr_text a)) as) (map context_attr_text as)"
    by (simp add: list_all2_conv_all_nth emits_emit)
  then have steps: "list_all2 emits ([emit (context_open ctx)] @ map (\<lambda>a. emit (context_attr_text a)) as @
      map emit_copy (map ?dev (x_devices ctx))) pieces"
    unfolding pieces_def by (intro list_all2_appendI emits_one emits_copies)
  note made = fill_text [OF assms(1) steps len, unfolded append_assoc append_Cons append_Nil]
  show ?thesis
    unfolding makes_def whole
  proof
    fix t
    obtain t' where t: "encode_attrs P (x_attrs ctx) (Suc (Suc t)) = Some (as, t')" using enc by blast
    show "\<exists>t'. iio_context_create_xml P ctx t =
        Inr (Some (((concat pieces @ ''</context>'') @ [NUL], length (concat pieces @ ''</context>'')), t'))"
    proof (cases "x_devices ctx = []")
      case True
      then show ?thesis using alloc made
        unfolding iio_context_create_xml_def t option.case prod.case Let_def makes_def append_assoc append_Cons append_Nil
        by (simp only: if_True if_False list.map simp_thms)
    next
      case False
      have "makes (xml_all P (iio_device_get_xml P) (x_devices ctx) (Inr None) (\<lambda>i. Inr None) (\<lambda>devices. fill P (Inr None)
              (length xml_header + strnlen_str (x_name ctx) (NAME_MAX P) + length ''<context name=\"\" ></context>''
                 + (case x_description ctx of
                      None \<Rightarrow> 0
                    | Some s \<Rightarrow> strnlen_str s (NAME_MAX P) + length '' description=\"\"'')
                 + sum_list (map (\<lambda>(a, v). strnlen_str a (NAME_MAX P) + strnlen_str v (PAGESIZE P)
                                  + length ''<context-attribute name=\"\" value=\"\" />'') as)
                 + total_len devices)
              ([emit (context_open ctx)] @ map (\<lambda>a. emit (context_attr_text a)) as @
               map emit_copy devices @ [emit_close ''</context>'']))) (concat pieces @ ''</context>'')"
        using made unfolding append_assoc append_Cons append_Nil by (rule xml_all_texts [OF assms(1) devs])
      then show ?thesis using alloc False
        unfolding iio_context_create_xml_def t option.case prod.case Let_def makes_def append_assoc append_Cons append_Nil
        by (simp only: if_False simp_thms)
    qed
  qed
qed

section \<open>No piece is written outside its block\<close>

definition safe :: "(writer \<Rightarrow> writer result) \<Rightarrow> bool" where
  "safe f \<longleftrightarrow> (\<forall>st. \<exists>st'. f st = Inr st')"

text \<open>A text that lies in its block, or none; \<open>Q\<close> says which errors may be made instead.\<close>

definition outcome :: "(cpp_error \<Rightarrow> bool) \<Rightarrow> made \<Rightarrow> bool" where
  "outcome Q r = (case r of Inl e \<Rightarrow> Q e | Inr None \<Rightarrow> True | Inr (Some ((b, n), t)) \<Rightarrow> n \<le> length b)"

lemma outcome_simps [simp]:
  "outcome Q (Inl e) = Q e" "outcome Q (Inr None)" "outcome Q (Inr (Some ((b, n), t))) \<longleftrightarrow> n \<le> length b"
  by (simp_all add: outcome_def)

lemma safe_emit: "safe (emit s)"
  by (auto simp: safe_def emit_def append_with_def snprintf_def memcpy_def)

lemma strlcpy_loop_total: "n < length dst \<Longrightarrow> \<exists>b. strlcpy_loop n dst s = Inr b"
  by (induction n dst s rule: strlcpy_loop.induct) (auto simp: bindr_eq_Inr_iff)

lemma safe_close: "safe (emit_close s)"
  unfolding safe_def
proof (intro allI)
  fix st :: writer
  obtain str ptr where st: "st = (str, ptr)" by (cases st)
  show "\<exists>st'. emit_close s st = Inr st'"
  proof (cases "ptr < length str")
    case True
    then obtain b where "strlcpy_loop (length str - ptr - 1) (drop ptr str) s = Inr b"
      using strlcpy_loop_total [of "length str - ptr - 1" "drop ptr str" s] by fastforce
    then show ?thesis using True by (simp add: st emit_close_def append_with_def iio_strlcpy_def)
  qed (simp add: st emit_close_def append_with_def)
qed

lemma safe_copy: "n \<le> length b \<Longrightarrow> safe (emit_copy (b, n))"
  by (auto simp: safe_def emit_copy_def read_mem_def memcpy_def)

lemma safe_steps: "\<forall>f \<in> set fs. safe f \<Longrightarrow> safe (run_steps fs)"
proof (induction fs)
  case (Cons f fs)
  then show ?case unfolding safe_def run_steps_def by simp (metis bindr_Inr)
qed (simp add: safe_def run_steps_def)

lemma fill_outcome:
  assumes "\<forall>f \<in> set fs. safe f" "p_malloc P t (len + 1) = None \<Longrightarrow> outcome Q u"
  shows "outcome Q (fill P u len fs t)"
proof (cases "p_malloc P t (len + 1)")
  case (Some str)
  obtain str' ptr where "run_steps fs (str, 0) = Inr (str', ptr)"
    using safe_steps [OF assms(1)] by (fastforce simp: safe_def)
  then show ?thesis using Some by (simp add: fill_def)
qed (use assms(2) in \<open>simp add: fill_def\<close>)

lemma xml_each_outcome:
  "\<forall>x \<in> set xs. \<forall>t. outcome Q (f x t) \<Longrightarrow>
   (case xml_each f xs t of Inl e \<Rightarrow> Q e
    | Inr (ys, all, t') \<Rightarrow> (\<forall>y \<in> set ys. safe (emit_copy y)) \<and> length ys \<le> length xs)"
proof (induction xs arbitrary: t)
  case (Cons x xs)
  have "outcome Q (f x t)" using Cons.prems by simp
  moreover have IH: "case xml_each f xs t' of Inl e \<Rightarrow> Q e
    | Inr (ys, all, t') \<Rightarrow> (\<forall>y \<in> set ys. safe (emit_copy y)) \<and> length ys \<le> length xs" for t'
    by (rule Cons.IH) (use Cons.prems in simp)
  ultimately show ?case
  proof (cases "f x t")
    case (Inr r)
    show ?thesis
    proof (cases r)
      case (Some z)
      obtain b n t' where z: "z = ((b, n), t')" by (cases z) (auto simp: prod_eq_iff)
      have "safe (emit_copy (b, n))" using \<open>outcome Q (f x t)\<close> Inr Some z safe_copy by simp
      then show ?thesis using IH [of t'] Inr Some z by (cases "xml_each f xs t'") auto
    qed (use Inr in simp)
  qed simp
qed simp

text \<open>The arrays and all the texts of a list, when they can be made.\<close>

definition all_texts ::
  "platform \<Rightarrow> ('a \<Rightarrow> nat \<Rightarrow> made) \<Rightarrow> 'a list \<Rightarrow> nat \<Rightarrow> ((char list \<times> nat) list \<times> nat) option" where
  "all_texts P f xs t =
     (if p_malloc P t (8 * length xs) = None \<or> p_malloc P (Suc t) (8 * length xs) = None then None
      else case xml_each f xs (Suc (Suc t)) of Inr (ys, True, t) \<Rightarrow> Some (ys, t) | _ \<Rightarrow> None)"

lemma xml_all_made: "all_texts P f xs t = Some (ys, t') \<Longrightarrow> xml_all P f xs u e k t = k ys t'"
  by (auto simp: all_texts_def xml_all_def split: if_splits sum.splits bool.splits)

lemma xml_all_outcome:
  assumes "\<forall>x \<in> set xs. \<forall>t. outcome Q (f x t)"
    and "outcome Q u"
    and "\<And>ys t'. p_malloc P t (8 * length xs) \<noteq> None \<Longrightarrow> p_malloc P (Suc t) (8 * length xs) \<noteq> None \<Longrightarrow>
      xml_each f xs (Suc (Suc t)) = Inr (ys, False, t') \<Longrightarrow> length ys \<le> length xs \<Longrightarrow> outcome Q (e (of_nat (length ys)))"
    and "\<And>ys t'. all_texts P f xs t = Some (ys, t') \<Longrightarrow> \<forall>y \<in> set ys. safe (emit_copy y) \<Longrightarrow> outcome Q (k ys t')"
  shows "outcome Q (xml_all P f xs u e k t)"
proof (cases "p_malloc P t (8 * length xs) = None \<or> p_malloc P (Suc t) (8 * length xs) = None")
  case False
  then have m: "p_malloc P t (8 * length xs) \<noteq> None" "p_malloc P (Suc t) (8 * length xs) \<noteq> None" by auto
  have each: "case xml_each f xs (Suc (Suc t)) of Inl e \<Rightarrow> Q e
    | Inr (ys, all, t') \<Rightarrow> (\<forall>y \<in> set ys. safe (emit_copy y)) \<and> length ys \<le> length xs"
    by (rule xml_each_outcome [OF assms(1)])
  show ?thesis
  proof (cases "xml_each f xs (Suc (Suc t))")
    case (Inr r)
    obtain ys all t' where r: "xml_each f xs (Suc (Suc t)) = Inr (ys, all, t')" using Inr by (cases r) simp
    then have ys: "\<forall>y \<in> set ys. safe (emit_copy y)" "length ys \<le> length xs" using each by simp_all
    show ?thesis
    proof (cases all)
      case True
      then have "all_texts P f xs t = Some (ys, t')" using m r by (simp add: all_texts_def del: not_None_eq)
      then show ?thesis using assms(4) ys(1) m True r by (simp add: xml_all_def del: not_None_eq)
    next
      case False
      then show ?thesis using assms(3) ys(2) m r by (simp add: xml_all_def del: not_None_eq)
    qed
  qed (use each m in \<open>simp add: xml_all_def del: not_None_eq\<close>)
qed (use assms(2) in \<open>auto simp: xml_all_def\<close>)

text \<open>
  What the functions need of the platform for that: a block has the size asked
  for.  A value has a block of its own, which the code does not test.
\<close>

definition blocks_ok :: "platform \<Rightarrow> bool" where
  "blocks_ok P \<longleftrightarrow> (\<forall>t n b. p_malloc P t n = Some b \<longrightarrow> length b = n)"

definition no_value :: "platform \<Rightarrow> cpp_error \<Rightarrow> bool" where
  "no_value P e \<longleftrightarrow> e = NullDeref \<and> (\<exists>t. p_malloc P t ATTR_BUF_SIZE = None)"

definition device_reads_ok :: "iio_device \<Rightarrow> bool" where
  "device_reads_ok dev \<longleftrightarrow>
     list_all (\<lambda>chn. list_all (\<lambda>a. read_ok (ca_read a)) (c_attrs chn)) (d_channels dev) \<and>
     list_all (\<lambda>a. read_ok (snd a)) (d_attrs dev @ d_buffer_attrs dev @ d_debug_attrs dev)"

lemma read_value_safe:
  assumes "read_ok reading" "length block = ATTR_BUF_SIZE"
  obtains b v k where "read_value block reading = Inr b" "cstr b = Inr v" "strnlen b n = Inr k"
proof -
  obtain b where b: "read_value block reading = Inr b" "cstr b = Inr (value_of reading)"
    by (rule read_value_ok [OF assms order_refl])
  then obtain r where r: "b = value_of reading @ NUL # r" "NUL \<notin> set (value_of reading)" using cstr_InrD by blast
  have "\<exists>k. strnlen b n = Inr k"
  proof (cases "length (value_of reading) < n")
    case True
    then show ?thesis using r strnlen_string by metis
  next
    case False
    then show ?thesis using r strnlen_prefix by (metis leI)
  qed
  then show thesis using b that by blast
qed

lemma snprintf_safe: "length b = n + 1 \<Longrightarrow> \<exists>b'. snprintf b (n + 1) s = Inr (b', length s) \<and> length b' = n + 1"
  by (auto simp: snprintf_def memcpy_def)

lemma block_outcome:
  assumes "blocks_ok P"
  shows "outcome Q (case p_malloc P t (n + 1) of None \<Rightarrow> Inr None
      | Some str \<Rightarrow> bindr (snprintf str (n + 1) s) (\<lambda>(str, k). Inr (Some ((str, n), t'))))"
proof (cases "p_malloc P t (n + 1)")
  case (Some str)
  then have "length str = n + 1" using assms unfolding blocks_ok_def by blast
  then show ?thesis using snprintf_safe [of str n s] Some by auto
qed simp

lemma get_attr_xml2_outcome:
  assumes "blocks_ok P" "read_ok (snd a)"
  shows "outcome (no_value P) (get_attr_xml2 P type a t)"
proof (cases "p_malloc P t ATTR_BUF_SIZE")
  case None
  then show ?thesis by (auto simp: get_attr_xml2_def no_value_def)
next
  case block: (Some block)
  then have "length block = ATTR_BUF_SIZE" using assms(1) by (simp add: blocks_ok_def)
  then obtain b v k where "read_value block (snd a) = Inr b" "cstr b = Inr v" "strnlen b (NAME_MAX P) = Inr k"
    by (rule read_value_safe [OF assms(2)])
  then show ?thesis unfolding get_attr_xml2_def block option.case
    by (simp only: bindr_Inr Let_def) (rule block_outcome [OF assms(1)])
qed

lemma get_attr_xml_outcome:
  assumes "blocks_ok P" "read_ok (ca_read a)"
  shows "outcome (no_value P) (get_attr_xml P a t)"
proof (cases "p_malloc P t ATTR_BUF_SIZE")
  case None
  then show ?thesis by (auto simp: get_attr_xml_def no_value_def)
next
  case block: (Some block)
  then have "length block = ATTR_BUF_SIZE" using assms(1) by (simp add: blocks_ok_def)
  then obtain b v k where "read_value block (ca_read a) = Inr b" "cstr b = Inr v" "strnlen b (NAME_MAX P) = Inr k"
    by (rule read_value_safe [OF assms(2)])
  then show ?thesis unfolding get_attr_xml_def Let_def block option.case
    by (simp only: bindr_Inr) (rule block_outcome [OF assms(1)])
qed

lemma get_scan_element_outcome: "blocks_ok P \<Longrightarrow> outcome Q (get_scan_element P chn t)"
proof (cases "p_malloc P t (length (scan_text chn) + 1)")
  case (Some str)
  assume "blocks_ok P"
  then have "length str = length (scan_text chn) + 1" using Some unfolding blocks_ok_def by blast
  then show ?thesis using Some by (simp add: get_scan_element_def iio_strdup_def memcpy_def)
qed (simp add: get_scan_element_def iio_strdup_def)

text \<open>
  A loop of the labels that starts with at most the number of places of its
  array stops before the first of them, with its counter wrapped around; one
  that starts with a counter wrapped around reads beyond the array.
\<close>

lemma free_loop_written: "unat k \<le> n \<Longrightarrow> free_loop k n = Inr (- 1)"
proof (induction k n rule: free_loop.induct)
  case (1 k n)
  show ?case
  proof (cases "k = 0")
    case False
    then have "0 < unat k" by (simp add: unat_gt_0)
    then have "unat (k - 1) < n" "unat (k - 1) \<le> n" using 1(2) False by (simp_all add: unat_minus_one)
    then show ?thesis using 1(1) False by (simp add: free_loop.simps [of k])
  qed (simp add: free_loop.simps)
qed

lemma free_loop_wrapped: "n < 2 ^ 32 - 1 \<Longrightarrow> free_loop (- 1) n = Inl OutOfBounds"
  by (simp add: free_loop.simps)

lemma unat_counter: "m \<le> n \<Longrightarrow> unat (of_nat m :: 32 word) \<le> n"
  by (simp add: unat_of_nat)

lemma label_attrs: "unat i \<le> n \<Longrightarrow> err_free_attrs n i = Inr None"
  by (simp add: err_free_attrs_def free_loop_written)

lemma labels_clean:
  assumes "unat i \<le> length (d_attrs dev)"
  shows "unat j \<le> length (d_channels dev) \<Longrightarrow> err_free_channels dev i j = Inr None"
    and "unat j \<le> length (d_channels dev) \<Longrightarrow> unat k \<le> length (d_buffer_attrs dev) \<Longrightarrow>
      err_free_buffer_attrs dev i j k = Inr None"
  using assms by (simp_all add: label_attrs err_free_channels_def err_free_buffer_attrs_def free_loop_written)

lemma label_debug:
  assumes "unat k \<le> length (d_debug_attrs dev)" "length (d_buffer_attrs dev) < 2 ^ 32 - 1"
  shows "err_free_debug_attrs dev i j k = Inl OutOfBounds"
  using assms by (simp add: err_free_debug_attrs_def err_free_buffer_attrs_def free_loop_written free_loop_wrapped)

lemma channel_xml_outcome:
  assumes "blocks_ok P" "list_all (\<lambda>a. read_ok (ca_read a)) (c_attrs chn)"
  shows "outcome (no_value P) (iio_channel_get_xml P chn t)"
proof -
  have el: "outcome (no_value P) (if c_scan chn then get_scan_element P chn t else Inr (Some (([], 0), t)))"
    using get_scan_element_outcome [OF assms(1)] by simp
  have attrs: "\<forall>a \<in> set (c_attrs chn). \<forall>t. outcome (no_value P) (get_attr_xml P a t)"
    using assms by (auto simp: list_all_iff intro: get_attr_xml_outcome)
  have label: "outcome (no_value P) (err_free_attrs (length (c_attrs chn)) (of_nat m))" if "m \<le> length (c_attrs chn)" for m
    using unat_counter [OF that] by (simp add: label_attrs)
  show ?thesis
  proof (cases "if c_scan chn then get_scan_element P chn t else Inr (Some (([], 0), t))")
    case (Inl e)
    then show ?thesis using el by (simp add: iio_channel_get_xml_def)
  next
    case (Inr r)
    show ?thesis
    proof (cases r)
      case (Some x)
      obtain b n u where x: "x = ((b, n), u)" by (cases x) (auto simp: prod_eq_iff)
      have "n \<le> length b" using el unfolding Inr Some x by simp
      then show ?thesis unfolding iio_channel_get_xml_def Inr Some x bindo_simps prod.case using safe_copy
        by (intro xml_all_outcome [OF attrs] fill_outcome label)
          (auto simp: safe_emit safe_close split: option.splits)
    qed (use Inr in \<open>simp add: iio_channel_get_xml_def\<close>)
  qed
qed

text \<open>
  The function has made the texts of the attributes, of the channels and of
  the buffer attributes and the arrays for the debug attributes, and leaves at
  \<open>err_free_debug_attrs\<close>: for the text of a debug attribute that cannot be made, or
  for the block of its own text.
\<close>

definition leaves_at_debug :: "platform \<Rightarrow> iio_device \<Rightarrow> nat \<Rightarrow> bool" where
  "leaves_at_debug P dev t =
     (case all_texts P (get_attr_xml2 P IIO_ATTR_TYPE_DEVICE) (d_attrs dev) t of None \<Rightarrow> False | Some (attrs, t) \<Rightarrow>
      case all_texts P (iio_channel_get_xml P) (d_channels dev) t of None \<Rightarrow> False | Some (channels, t) \<Rightarrow>
      case all_texts P (get_attr_xml2 P IIO_ATTR_TYPE_BUFFER) (d_buffer_attrs dev) t of None \<Rightarrow> False | Some (buffer_attrs, t) \<Rightarrow>
        p_malloc P t (8 * length (d_debug_attrs dev)) \<noteq> None \<and> p_malloc P (Suc t) (8 * length (d_debug_attrs dev)) \<noteq> None \<and>
        (case xml_each (get_attr_xml2 P IIO_ATTR_TYPE_DEBUG) (d_debug_attrs dev) (Suc (Suc t)) of
           Inl e \<Rightarrow> False
         | Inr (debug_attrs, all, t) \<Rightarrow>
             \<not> all \<or> p_malloc P t (device_len P dev attrs channels buffer_attrs debug_attrs + 1) = None))"

lemma device_attrs_outcome:
  assumes "blocks_ok P" "device_reads_ok dev"
  shows "\<forall>a \<in> set (d_attrs dev). \<forall>t. outcome (no_value P) (get_attr_xml2 P type a t)"
    "\<forall>a \<in> set (d_buffer_attrs dev). \<forall>t. outcome (no_value P) (get_attr_xml2 P type a t)"
    "\<forall>a \<in> set (d_debug_attrs dev). \<forall>t. outcome (no_value P) (get_attr_xml2 P type a t)"
    "\<forall>chn \<in> set (d_channels dev). \<forall>t. outcome (no_value P) (iio_channel_get_xml P chn t)"
  using assms by (auto simp: device_reads_ok_def list_all_iff intro: get_attr_xml2_outcome channel_xml_outcome)

lemma device_xml_clean:
  assumes "blocks_ok P" "device_reads_ok dev" "\<not> leaves_at_debug P dev t"
  shows "outcome (no_value P) (iio_device_get_xml P dev t)"
proof -
  note lists = device_attrs_outcome [OF assms(1,2)]
  note counters = unat_counter [OF order_refl] unat_counter
  show ?thesis
    unfolding iio_device_get_xml_def Let_def
  proof (intro xml_all_outcome lists, goal_cases)
    case (8 attrs t1 channels t2 buffer_attrs t3 ys t4)
    then show ?case using assms(3) by (simp add: leaves_at_debug_def del: not_None_eq)
  next
    case (9 attrs t1 channels t2 buffer_attrs t3 debug_attrs t4)
    then show ?case using assms(3)
      by (intro fill_outcome) (auto simp: safe_emit safe_close leaves_at_debug_def all_texts_def
        split: option.splits if_splits sum.splits bool.splits)
  qed (simp_all add: label_attrs labels_clean counters)
qed

lemma device_xml_leaves:
  assumes "blocks_ok P" "device_reads_ok dev" "leaves_at_debug P dev t" "length (d_buffer_attrs dev) < 2 ^ 32 - 1"
  shows "iio_device_get_xml P dev t = Inl OutOfBounds"
proof -
  obtain attrs t1 where a: "all_texts P (get_attr_xml2 P IIO_ATTR_TYPE_DEVICE) (d_attrs dev) t = Some (attrs, t1)"
    using assms(3) by (auto simp: leaves_at_debug_def split: option.splits)
  obtain channels t2 where c: "all_texts P (iio_channel_get_xml P) (d_channels dev) t1 = Some (channels, t2)"
    using assms(3) a by (auto simp: leaves_at_debug_def split: option.splits)
  obtain buffer_attrs t3 where b: "all_texts P (get_attr_xml2 P IIO_ATTR_TYPE_BUFFER) (d_buffer_attrs dev) t2 = Some (buffer_attrs, t3)"
    using assms(3) a c by (auto simp: leaves_at_debug_def split: option.splits)
  obtain debug_attrs all t4 where
    each: "xml_each (get_attr_xml2 P IIO_ATTR_TYPE_DEBUG) (d_debug_attrs dev) (Suc (Suc t3)) = Inr (debug_attrs, all, t4)"
    using assms(3) a c b by (auto simp: leaves_at_debug_def split: sum.splits)
  have arrays: "p_malloc P t3 (8 * length (d_debug_attrs dev)) \<noteq> None"
      "p_malloc P (Suc t3) (8 * length (d_debug_attrs dev)) \<noteq> None"
    and leaves: "\<not> all \<or> p_malloc P t4 (device_len P dev attrs channels buffer_attrs debug_attrs + 1) = None"
    using assms(3) a c b each by (auto simp: leaves_at_debug_def)
  have len: "length debug_attrs \<le> length (d_debug_attrs dev)"
    using xml_each_outcome [OF device_attrs_outcome(3) [OF assms(1,2), of IIO_ATTR_TYPE_DEBUG], where t = "Suc (Suc t3)"] each by simp
  have label: "err_free_debug_attrs dev i j (of_nat m) = Inl OutOfBounds" if "m \<le> length (d_debug_attrs dev)" for i j m
    by (rule label_debug [OF unat_counter [OF that] assms(4)])
  show ?thesis
    unfolding iio_device_get_xml_def Let_def xml_all_made [OF a] xml_all_made [OF c] xml_all_made [OF b]
    using arrays each leaves label [OF len] label [OF order_refl]
    by (auto simp: xml_all_def fill_def)
qed

section \<open>Properties\<close>

text \<open>
  C19: Within the limits the code assumes for names, and with memory available,
  the program prints the complete description: the lengths computed in
  advance are exactly those of the text, at every level, so no text is
  truncated and none is discarded for a wrong length.
\<close>

theorem genxml_prints_description:
  assumes "platform_ok P" "context_fits P enc ctx" "create_context uri = Some ctx" "NUL \<notin> set (context_text enc ctx)"
  shows "genxml_main P create_context (prog # uri # args) = Inr (0, context_text enc ctx)"
proof -
  obtain t' where "iio_context_create_xml P ctx 0 =
      Inr (Some ((context_text enc ctx @ [NUL], length (context_text enc ctx)), t'))"
    using context_xml_text [OF assms(1,2)] by (auto simp: makes_def)
  then show ?thesis using assms(3,4) cstr_append [of "context_text enc ctx" "[]"]
    by (simp add: genxml_main_def)
qed

definition sample_platform :: platform where
  "sample_platform = \<lparr>p_malloc = (\<lambda>t n. Some (replicate n CHR ''#'')), p_encode = (\<lambda>t. Some), NAME_MAX = 256, PAGESIZE = 4096\<rparr>"

definition sample_context :: iio_context where
  "sample_context = \<lparr>x_name = ''xml'', x_description = None, x_attrs = [(''hw_model'', ''M2K'')],
     x_devices = [\<lparr>d_id = ''iio:device0'', d_name = Some ''adc'', d_attrs = [(''rate'', Some (''1000'' @ [NUL]))],
       d_channels = [\<lparr>c_id = ''voltage0'', c_name = None, c_output = False, c_scan = False, c_index = 0,
         c_format = \<lparr>is_fully_defined = False, is_be = False, is_signed = True, fmt_bits = 12, fmt_length = 16,
           fmt_repeat = 1, fmt_shift = 0, with_scale = False, fmt_scale = Zero False\<rparr>,
         c_attrs = [\<lparr>ca_name = ''raw'', ca_filename = None, ca_read = None\<rparr>]\<rparr>],
       d_buffer_attrs = [], d_debug_attrs = []\<rparr>]\<rparr>"

theorem genxml_prints_description_witness:
  "genxml_main sample_platform (\<lambda>uri. Some sample_context) [''genxml'', ''ip:localhost''] =
     Inr (0, xml_header @ ''<context name=\"xml\" ><context-attribute name=\"hw_model\" value=\"M2K\" />'' @
       ''<device id=\"iio:device0\" name=\"adc\" ><channel id=\"voltage0\" type=\"input\" >'' @
       ''<attribute name=\"raw\" value=\"ERROR\" /></channel>'' @
       ''<attribute name=\"rate\" value=\"1000\" /></device></context>'')"
proof -
  have "platform_ok sample_platform" by (simp add: platform_ok_def sample_platform_def ATTR_BUF_SIZE_def)
  moreover have "context_fits sample_platform (\<lambda>s. s) sample_context"
    by (simp add: context_fits_def device_fits_def channel_fits_def attr_fits_def attr2_fits_def opt_fits_def read_ok_def
        sample_platform_def sample_context_def ATTR_BUF_SIZE_def)
  moreover have spelled: "context_text (\<lambda>s. s) sample_context = xml_header @
      ''<context name=\"xml\" ><context-attribute name=\"hw_model\" value=\"M2K\" />'' @
      ''<device id=\"iio:device0\" name=\"adc\" ><channel id=\"voltage0\" type=\"input\" >'' @
      ''<attribute name=\"raw\" value=\"ERROR\" /></channel>'' @
      ''<attribute name=\"rate\" value=\"1000\" /></device></context>''"
    by (simp add: context_text_def device_text_def channel_text_def attr_text_def attr2_text_def value_of_def name_xml_def
        filename_xml_def context_open_def context_attr_text_def sample_context_def NUL_def)
  moreover have "NUL \<notin> set (context_text (\<lambda>s. s) sample_context)"
    unfolding spelled by (simp add: xml_header_def NUL_def)
  ultimately show ?thesis
    using genxml_prints_description [of sample_platform "\<lambda>s. s" sample_context "\<lambda>uri. Some sample_context" "''ip:localhost''"]
    by simp
qed

text \<open>
  C29: Whatever the lengths of the names are, also beyond the limits, and
  whichever allocations fail, no function writes outside a block: the result
  is a text in its block or a null pointer, unless the block for the value of
  an attribute is missing, which the code does not test, or a device leaves at
  the label \<open>err_free_debug_attrs\<close>.  There the loop over the debug attributes
  leaves its counter wrapped around, the next one starts with it, and the
  function always reads the array of the buffer attributes out of bounds; no
  other way out of it does.
\<close>

theorem genxml_memory_safe:
  assumes "blocks_ok P" "\<forall>dev \<in> set (x_devices ctx). device_reads_ok dev \<and> length (d_buffer_attrs dev) < 2 ^ 32 - 1"
  shows "(case iio_context_create_xml P ctx t of
      Inr None \<Rightarrow> True
    | Inr (Some ((b, n), t')) \<Rightarrow> n \<le> length b
    | Inl e \<Rightarrow> e = NullDeref \<and> (\<exists>t. p_malloc P t ATTR_BUF_SIZE = None) \<or>
        e = OutOfBounds \<and> (\<exists>dev \<in> set (x_devices ctx). \<exists>t. leaves_at_debug P dev t)) \<and>
    (\<forall>dev \<in> set (x_devices ctx). \<forall>t. iio_device_get_xml P dev t = Inl OutOfBounds \<longleftrightarrow> leaves_at_debug P dev t)"
proof
  have leaves: "leaves_at_debug P dev t \<Longrightarrow> iio_device_get_xml P dev t = Inl OutOfBounds" if "dev \<in> set (x_devices ctx)" for dev t
    using that assms(2) device_xml_leaves [OF assms(1)] by blast
  have stays: "\<not> leaves_at_debug P dev t \<Longrightarrow> outcome (no_value P) (iio_device_get_xml P dev t)" if "dev \<in> set (x_devices ctx)" for dev t
    using that assms(2) device_xml_clean [OF assms(1)] by blast
  let ?Q = "\<lambda>e. no_value P e \<or> e = OutOfBounds \<and> (\<exists>dev \<in> set (x_devices ctx). \<exists>t. leaves_at_debug P dev t)"
  have devs: "\<forall>dev \<in> set (x_devices ctx). \<forall>t. outcome ?Q (iio_device_get_xml P dev t)"
  proof (intro ballI allI)
    fix dev t assume dev: "dev \<in> set (x_devices ctx)"
    show "outcome ?Q (iio_device_get_xml P dev t)"
      using leaves [OF dev, of t] stays [OF dev, of t] dev
      by (cases "leaves_at_debug P dev t") (auto simp: outcome_def split: sum.splits option.splits)
  qed
  have "outcome ?Q (iio_context_create_xml P ctx t)"
    using xml_all_outcome [OF devs]
    by (auto simp: iio_context_create_xml_def Let_def safe_emit safe_close del: not_None_eq
        intro!: xml_all_outcome [OF devs] fill_outcome split: option.split)
  then show "case iio_context_create_xml P ctx t of
      Inr None \<Rightarrow> True
    | Inr (Some ((b, n), t')) \<Rightarrow> n \<le> length b
    | Inl e \<Rightarrow> e = NullDeref \<and> (\<exists>t. p_malloc P t ATTR_BUF_SIZE = None) \<or>
        e = OutOfBounds \<and> (\<exists>dev \<in> set (x_devices ctx). \<exists>t. leaves_at_debug P dev t)"
    by (simp add: outcome_def no_value_def split: sum.splits option.splits)
  show "\<forall>dev \<in> set (x_devices ctx). \<forall>t. iio_device_get_xml P dev t = Inl OutOfBounds \<longleftrightarrow> leaves_at_debug P dev t"
    using leaves stays by (fastforce simp: no_value_def)
qed

text \<open>A device with one debug attribute, when the call number \<open>k\<close> of the allocator fails.\<close>

definition failing_platform :: "nat \<Rightarrow> platform" where
  "failing_platform k = sample_platform\<lparr>p_malloc := (\<lambda>t n. if t = k then None else Some (replicate n CHR ''#''))\<rparr>"

definition debug_device :: iio_device where
  "debug_device = \<lparr>d_id = ''iio:device0'', d_name = None, d_attrs = [], d_channels = [], d_buffer_attrs = [],
     d_debug_attrs = [(''reg'', Some (''0'' @ [NUL]))]\<rparr>"

theorem genxml_memory_safe_witness:
  "iio_device_get_xml (failing_platform 9) debug_device 0 = Inl OutOfBounds \<and>
   iio_device_get_xml (failing_platform 10) debug_device 0 = Inl OutOfBounds \<and>
   iio_device_get_xml (failing_platform 7) debug_device 0 \<noteq> Inl OutOfBounds"
proof -
  let ?ctx = "sample_context\<lparr>x_devices := [debug_device]\<rparr>"
  have ok: "blocks_ok (failing_platform k)" for k
    by (auto simp: blocks_ok_def failing_platform_def split: if_splits)
  have dev: "\<forall>dev \<in> set (x_devices ?ctx). device_reads_ok dev \<and> length (d_buffer_attrs dev) < 2 ^ 32 - 1"
    by (simp add: device_reads_ok_def debug_device_def read_ok_def ATTR_BUF_SIZE_def)
  have "leaves_at_debug (failing_platform 9) debug_device 0" "leaves_at_debug (failing_platform 10) debug_device 0"
    "\<not> leaves_at_debug (failing_platform 7) debug_device 0"
    by code_simp+
  then show ?thesis using genxml_memory_safe [OF ok dev] by (simp del: One_nat_def)
qed

end
