(* ===== verification/Analog_Loopback.thy ===== *)
theory Analog_Loopback
  imports Adalm2000_Context
begin

text \<open>
  From the signal generators to the oscilloscope: writing raw samples to both
  generators, pushing them and reading the oscilloscope, through the
  operations of the context.
\<close>

section \<open>What a generator puts out\<close>

text \<open>The voltages a generator plays for raw samples: converted, then interpolated to the hardware rate.\<close>

definition dac_wave :: "env \<Rightarrow> xdoc option \<Rightarrow> dac \<Rightarrow> u16 list \<Rightarrow> double list result" where
  "dac_wave E doc d ws =
     bindr (dac_convert_all d ws) (\<lambda>vs.
     bindr (dac_loadCalibValues E doc d) (\<lambda>d.
     bindr (cast_u32 (div_d rate_75E6
              (div_d (dac_samplerate d) (of_int_d (int (dac_oversampling_ratio d)))))) (\<lambda>ratio.
       analogical_interpolation vs [] ratio)))"

lemma dac_convert_all_same:
  assumes "dac_samplerate e = dac_samplerate d" "dac_filter_compensation_table e = dac_filter_compensation_table d"
    "dac_calib_vlsb e = dac_calib_vlsb d"
  shows "dac_convert_all e ws = dac_convert_all d ws"
  using assms by (induction ws) (simp_all add: dac_convertRawToVolts_def dac_getFilterCompensation_def)

lemma dac_write_fresh:
  assumes "dac_enable d" "dac_samples d = [] \<and> dac_current_index d = 0 \<or> dac_reset_buffer d"
    and "dac_convert_all d ws = Inr vs"
  shows "\<exists>d1. dac_write_dev d (encode16 ws) off (2 * length ws) = Inr (d1, 2 * int (length ws)) \<and>
    d1 = d\<lparr>dac_samples := vs, dac_current_index := 0, dac_reset_buffer := False\<rparr>"
proof -
  define e where "e = (if dac_reset_buffer d
    then d\<lparr>dac_samples := [], dac_current_index := 0, dac_reset_buffer := False\<rparr> else d)"
  have "dac_convert_all e ws = Inr vs" using assms(3) dac_convert_all_same [of e d ws] by (simp add: e_def)
  moreover have "decode16 (length ws) (encode16 ws) = Inr ws" using decode16_encode16 [of ws "[]"] by simp
  ultimately have "dac_write_dev d (encode16 ws) off (2 * length ws) =
      Inr (e\<lparr>dac_samples := dac_samples e @ vs\<rparr>, 2 * int (length ws))"
    using assms(1) by (simp add: dac_write_dev_def e_def [symmetric])
  moreover have "e\<lparr>dac_samples := dac_samples e @ vs\<rparr> =
      d\<lparr>dac_samples := vs, dac_current_index := 0, dac_reset_buffer := False\<rparr>"
    using assms(2) by (cases d) (auto simp: e_def)
  ultimately show ?thesis by simp
qed

lemma dac_loadCalibValues_eq:
  "dac_loadCalibValues E doc d = Inr d' \<Longrightarrow> m_device_id e = m_device_id d \<Longrightarrow>
   dac_loadCalibValues E doc e =
     Inr (e\<lparr>dac_samplerate := dac_samplerate d', dac_oversampling_ratio := dac_oversampling_ratio d'\<rparr>)"
  by (auto simp: dac_loadCalibValues_def own_attr_def bindr_eq_Inr_iff)

text \<open>Pushing what has been written.\<close>

lemma dac_push_wave:
  assumes "dac_wave E doc d ws = Inr wave" "dac_convert_all d ws = Inr vs"
    and "dac_samples e = vs" "m_device_id e = m_device_id d"
  shows "\<exists>d2. dac_transfer_mem_to_dev E doc e n = Inr (d2, 0) \<and> dac_samples d2 = wave \<and>
    dac_current_index d2 = dac_current_index e \<and> m_device_id d2 = m_device_id d"
proof -
  obtain d' ratio where l: "dac_loadCalibValues E doc d = Inr d'"
    and r: "cast_u32 (div_d rate_75E6 (div_d (dac_samplerate d') (of_int_d (int (dac_oversampling_ratio d'))))) = Inr ratio"
    and i: "analogical_interpolation vs [] ratio = Inr wave"
    using assms(1,2) by (auto simp: dac_wave_def bindr_eq_Inr_iff)
  define e' where "e' = e\<lparr>dac_samplerate := dac_samplerate d', dac_oversampling_ratio := dac_oversampling_ratio d'\<rparr>"
  have "dac_loadCalibValues E doc e = Inr e'"
    using dac_loadCalibValues_eq [OF l assms(4)] by (simp add: e'_def)
  then have "dac_resample E doc e = Inr (e', wave)"
    using r i assms(3) by (auto simp: dac_resample_def e'_def analogical_interpolation_def Let_def)
  then show ?thesis using assms(4) by (simp add: dac_transfer_mem_to_dev_def e'_def)
qed

text \<open>A client plays samples on a generator of the context.\<close>

definition fresh_dac :: "dac \<Rightarrow> bool" where
  "fresh_dac d \<longleftrightarrow> dac_enable d \<and> (dac_samples d = [] \<and> dac_current_index d = 0 \<or> dac_reset_buffer d)"

lemma play_device:
  assumes "getDevice c tx = Inr (Some j)" "m_devices c ! j = Dev_M2kDAC d" "fresh_dac d"
    and "dac_wave E (m_doc c) d ws = Inr wave"
  shows "\<exists>c1 c2 d2. writeDev c io tx (encode16 ws) off (2 * length ws) = Inr (c1, io, 2 * int (length ws)) \<and>
    transferMemToDev E c1 tx m = Inr (c2, 0) \<and> keeps c c2 \<and> m_doc c2 = m_doc c \<and>
    m_devices c2 = (m_devices c)[j := Dev_M2kDAC d2] \<and> dac_samples d2 = wave \<and> dac_current_index d2 = 0"
proof -
  have j: "j < length (m_devices c)" using assms(1) find_device_range by (auto simp: getDevice_def)
  obtain vs where vs: "dac_convert_all d ws = Inr vs" using assms(4) by (auto simp: dac_wave_def bindr_eq_Inr_iff)
  define d1 where "d1 = d\<lparr>dac_samples := vs, dac_current_index := 0, dac_reset_buffer := False\<rparr>"
  define c1 where "c1 = set_device c j (Dev_M2kDAC d1)"
  have "writeDev c io tx (encode16 ws) off (2 * length ws) = Inr (c1, io, 2 * int (length ws))"
    using assms(1-3) dac_write_fresh [of d ws vs off] vs by (auto simp: writeDev_def c1_def d1_def fresh_dac_def)
  moreover have id: "m_device_id d1 = m_device_id d" by (simp add: d1_def)
  obtain d2 where p: "dac_transfer_mem_to_dev E (m_doc c) d1 m = Inr (d2, 0)" "dac_samples d2 = wave"
    "dac_current_index d2 = 0" "m_device_id d2 = m_device_id d"
    using dac_push_wave [OF assms(4) vs, of d1 m] id by (auto simp: d1_def)
  define c2 where "c2 = set_device c1 j (Dev_M2kDAC d2)"
  have keep: "keeps c c1" "keeps c c2"
    using assms(2) j id p(4) by (simp_all add: c1_def c2_def keeps_def set_device_def shapes_update socket_next_refl)
  have "transferMemToDev E c1 tx m = Inr (c2, 0)"
    using p(1) j keeps_getDevice [OF keep(1)] assms(1) by (simp add: transferMemToDev_def c1_def c2_def set_device_def)
  ultimately show ?thesis using keep(2) p by (auto simp: c1_def c2_def set_device_def)
qed

lemma draw_wave:
  assumes "out < length devs" "devs ! out = Dev_M2kDAC d" "dac_samples d = wave" "dac_current_index d = 0"
    and "wave \<noteq> []" "length wave < 2 ^ 32"
  shows "\<exists>d'. draw_volts out n devs = Inr (cyc wave 0 n, devs[out := Dev_M2kDAC d'])"
proof -
  have "in_buffer (dac_samples d) 0" using assms(3,5,6) by (simp add: in_buffer_def)
  then show ?thesis using assms by (auto simp: draw_volts_def dac_transfer_samples_def converter.drain_cyc)
qed

section \<open>What the oscilloscope stores\<close>

lemma adc_interleave_ok:
  "i + n \<le> length a \<Longrightarrow> i + n \<le> length b \<Longrightarrow>
   \<forall>k < n. adc_convertVoltToRaw d (a ! (i + k)) 0 = Inr (ra (i + k)) \<and> adc_convertVoltToRaw d (b ! (i + k)) 1 = Inr (rb (i + k)) \<Longrightarrow>
   adc_interleave d a b i n = Inr (concat (map (\<lambda>k. [ra k, rb k]) [i..<i + n]))"
proof (induction n arbitrary: i)
  case (Suc n)
  have "\<forall>k < n. adc_convertVoltToRaw d (a ! (Suc i + k)) 0 = Inr (ra (Suc i + k)) \<and>
      adc_convertVoltToRaw d (b ! (Suc i + k)) 1 = Inr (rb (Suc i + k))"
    using Suc.prems(3) by (metis Suc_less_eq add_Suc add_Suc_right)
  then have "adc_interleave d a b (Suc i) n = Inr (concat (map (\<lambda>k. [ra k, rb k]) [Suc i..<Suc i + n]))"
    using Suc.IH [of "Suc i"] Suc.prems(1,2) by simp
  moreover have "adc_convertVoltToRaw d (a ! i) 0 = Inr (ra i)" "adc_convertVoltToRaw d (b ! i) 1 = Inr (rb i)"
    using Suc.prems(3) by (metis add.right_neutral zero_less_Suc)+
  moreover have "[i..<i + Suc n] = i # [Suc i..<Suc i + n]" using upt_conv_Cons [of i "i + Suc n"] by simp
  ultimately show ?case using Suc.prems(1,2) by (simp add: vec_at_def del: upt_Suc)
qed simp

lemma adc_resample_ok:
  assumes "draw out (n * ratio) w = Inr (zs, w')" "length zs = n * ratio" "1 \<le> ratio" "n * ratio < 2 ^ 32"
  shows "\<exists>ys. adc_resample draw (Some out) (n * ratio) ratio w = Inr (ys, w') \<and> length ys = n \<and>
    (\<forall>i < n. ys ! i = channel_sample ratio zs i)"
proof -
  have r: "reserve_check 8 (of_nat (n * ratio)) = Inr ()"
    using assms(4) unat64 [of "n * ratio"] by (simp add: reserve_check_def max_elems_def)
  show ?thesis
  proof (cases "ratio < 2")
    case True
    then have "ratio = 1" using assms(3) by simp
    then show ?thesis using assms r by (simp add: adc_resample_def channel_sample_def)
  next
    case False
    obtain ys where ys: "decimate_windows ratio zs = Inr ys" "length ys = n"
      using analog.walk_length [of ratio zs] assms(2,3) by auto
    have "\<forall>i < n. ys ! i = channel_sample ratio zs i"
      using analog.walk_nth [of ratio zs ys] False ys by (simp add: channel_sample_def)
    then show ?thesis using assms(1) r False ys
      by (simp add: adc_resample_def analogical_decimation_def)
  qed
qed

text \<open>A read whose draws are answered.\<close>

lemma adc_read_drawn:
  assumes l: "adc_loadCalibValues E doc d = Inr d'" and rt: "adc_ratio d' = Inr ratio" "1 \<le> ratio"
    and conn: "adc_connections d = [(Some a, x), (Some b, y)]"
    and n: "n * ratio < 2 ^ 32" "length pbuf = 4 * n"
    and da: "draw a (n * ratio) w = Inr (za, u)" "length za = n * ratio"
    and db: "draw b (n * ratio) u = Inr (zb, v)" "length zb = n * ratio"
    and conv: "\<forall>i < n. adc_convertVoltToRaw d' (channel_sample ratio za i) 0 = Inr (ra i) \<and>
      adc_convertVoltToRaw d' (channel_sample ratio zb i) 1 = Inr (rb i)"
  shows "adc_read_dev E doc draw d pbuf off (4 * n) w =
    Inr (d', encode16 (concat (map (\<lambda>i. [ra i, rb i]) [0..<n])), 4 * int n, v)"
proof -
  obtain ya where ya: "adc_resample draw (Some a) (n * ratio) ratio w = Inr (ya, u)" "length ya = n"
    "\<forall>i < n. ya ! i = channel_sample ratio za i" using adc_resample_ok [of draw a n ratio w za u, OF da rt(2) n(1)] by blast
  obtain yb where yb: "adc_resample draw (Some b) (n * ratio) ratio u = Inr (yb, v)" "length yb = n"
    "\<forall>i < n. yb ! i = channel_sample ratio zb i" using adc_resample_ok [of draw b n ratio u zb v, OF db rt(2) n(1)] by blast
  have "n \<le> n * ratio" using rt(2) by (cases ratio) simp_all
  then have "n < 2 ^ 32" using n(1) by (rule le_less_trans)
  then have r: "reserve_check 2 (of_nat (4 * n div M2K_ADC_SAMPLE_SIZE)) = Inr ()"
    using unat64 [of "2 * n"] by (simp add: reserve_check_def max_elems_def M2K_ADC_SAMPLE_SIZE_def)
  have f: "4 * n div (M2K_ADC_CHANNELS * M2K_ADC_SAMPLE_SIZE) = n" "n * ratio mod 2 ^ 64 = n * ratio"
    using n(1) by (simp_all add: M2K_ADC_CHANNELS_def M2K_ADC_SAMPLE_SIZE_def)
  have c: "vec_at (adc_connections d') 0 = Inr (Some a, x)" "vec_at (adc_connections d') 1 = Inr (Some b, y)"
    using adc_loadCalibValues_shape [OF l] conn by (simp_all add: vec_at_def)
  define ws where "ws = concat (map (\<lambda>i. [ra i, rb i]) [0..<n])"
  have len: "length ws = 2 * n" by (simp add: ws_def length_concat o_def sum_list_triv)
  have il: "adc_interleave d' ya yb 0 n = Inr ws"
    using adc_interleave_ok [of 0 n ya yb d' ra rb] ya(2,3) yb(2,3) conv by (simp add: ws_def)
  have m: "read_mem (encode16 ws) (4 * n) = Inr (encode16 ws)" "memcpy pbuf (encode16 ws) = Inr (encode16 ws)"
    using len n(2) by (simp_all add: read_mem_def memcpy_def)
  show ?thesis
    unfolding adc_read_dev_def l bindr_Inr r rt Let_def f c fst_conv ya(1) yb(1) prod.case il m
    by (simp add: ws_def)
qed

section \<open>The composition\<close>

lemma loopback_played:
  assumes a: "getDevice c txa = Inr (Some a)" "m_devices c ! a = Dev_M2kDAC da" "fresh_dac da"
      "dac_wave E (m_doc c) da wa = Inr va" "va \<noteq> []" "length va < 2 ^ 32"
    and b: "getDevice c txb = Inr (Some b)" "m_devices c ! b = Dev_M2kDAC db" "fresh_dac db"
      "dac_wave E (m_doc c) db wb = Inr vb" "vb \<noteq> []" "length vb < 2 ^ 32"
    and rx: "getDevice c rx = Inr (Some k)" "m_devices c ! k = Dev_M2kADC d"
      "adc_connections d = [(Some a, x), (Some b, y)]" "a \<noteq> b"
    and load: "adc_loadCalibValues E (m_doc c) d = Inr d'" "adc_ratio d' = Inr ratio" "1 \<le> ratio"
    and n: "n * ratio < 2 ^ 32" "length pbuf = 4 * n"
    and conv: "\<forall>i < n. adc_convertVoltToRaw d' (channel_sample ratio (cyc va 0 (n * ratio)) i) 0 = Inr (ra i) \<and>
      adc_convertVoltToRaw d' (channel_sample ratio (cyc vb 0 (n * ratio)) i) 1 = Inr (rb i)"
  shows "\<exists>c1 c2 c3 c4 c5. writeDev c io txa (encode16 wa) offa (2 * length wa) = Inr (c1, io, 2 * int (length wa)) \<and>
    transferMemToDev E c1 txa ma = Inr (c2, 0) \<and>
    writeDev c2 io txb (encode16 wb) offb (2 * length wb) = Inr (c3, io, 2 * int (length wb)) \<and>
    transferMemToDev E c3 txb mb = Inr (c4, 0) \<and>
    readDev E c4 io rx pbuf off (4 * n) =
      Inr (c5, io, encode16 (concat (map (\<lambda>i. [ra i, rb i]) [0..<n])), 4 * int n)"
proof -
  have range: "a < length (m_devices c)" "b < length (m_devices c)" "k < length (m_devices c)"
    using a(1) b(1) rx(1) find_device_range by (auto simp: getDevice_def)
  have "k \<noteq> a" "k \<noteq> b" using a(2) b(2) rx(2) by auto
  obtain c1 c2 da2 where A: "writeDev c io txa (encode16 wa) offa (2 * length wa) = Inr (c1, io, 2 * int (length wa))"
    "transferMemToDev E c1 txa ma = Inr (c2, 0)" and c2: "keeps c c2" "m_doc c2 = m_doc c"
    "m_devices c2 = (m_devices c)[a := Dev_M2kDAC da2]" "dac_samples da2 = va" "dac_current_index da2 = 0"
    using play_device [OF a(1-4), of io offa ma] by blast
  have g2: "getDevice c2 i = getDevice c i" for i by (rule keeps_getDevice [OF c2(1)])
  have "m_devices c2 ! b = Dev_M2kDAC db" using c2(3) b(2) rx(4) range by simp
  then obtain c3 c4 db2 where B: "writeDev c2 io txb (encode16 wb) offb (2 * length wb) = Inr (c3, io, 2 * int (length wb))"
    "transferMemToDev E c3 txb mb = Inr (c4, 0)" and c4: "keeps c2 c4" "m_doc c4 = m_doc c"
    "m_devices c4 = (m_devices c2)[b := Dev_M2kDAC db2]" "dac_samples db2 = vb" "dac_current_index db2 = 0"
    using play_device [of c2 txb b db E wb vb io offb mb] b(1,3,4) g2 c2(2) by auto
  have g4: "getDevice c4 rx = Inr (Some k)" using keeps_getDevice [OF c4(1)] g2 rx(1) by simp
  have dev: "m_devices c4 ! a = Dev_M2kDAC da2" "m_devices c4 ! b = Dev_M2kDAC db2" "m_devices c4 ! k = Dev_M2kADC d"
    "length (m_devices c4) = length (m_devices c)"
    using c2(3) c4(3) range rx(2,4) \<open>k \<noteq> a\<close> \<open>k \<noteq> b\<close> by simp_all
  obtain da3 where da: "draw_volts a (n * ratio) (m_devices c4) = Inr (cyc va 0 (n * ratio), (m_devices c4)[a := Dev_M2kDAC da3])"
    using draw_wave [of a "m_devices c4" da2 va "n * ratio"] dev range c2(4,5) a(5,6) by auto
  obtain db3 where db: "draw_volts b (n * ratio) ((m_devices c4)[a := Dev_M2kDAC da3]) =
      Inr (cyc vb 0 (n * ratio), (m_devices c4)[a := Dev_M2kDAC da3, b := Dev_M2kDAC db3])"
    using draw_wave [of b "(m_devices c4)[a := Dev_M2kDAC da3]" db2 vb "n * ratio"] dev range c4(4,5) b(5,6) rx(4) by auto
  have l4: "adc_loadCalibValues E (m_doc c4) d = Inr d'" using load(1) by (simp add: c4(2))
  have "adc_read_dev E (m_doc c4) draw_volts d pbuf off (4 * n) (m_devices c4) =
      Inr (d', encode16 (concat (map (\<lambda>i. [ra i, rb i]) [0..<n])), 4 * int n,
           (m_devices c4)[a := Dev_M2kDAC da3, b := Dev_M2kDAC db3])"
    by (rule adc_read_drawn [where ratio = ratio and x = x and y = y and a = a and b = b and
          za = "cyc va 0 (n * ratio)" and zb = "cyc vb 0 (n * ratio)" and u = "(m_devices c4)[a := Dev_M2kDAC da3]"])
      (fact l4 load(2,3) rx(3) n da db conv length_cyc)+
  then have "\<exists>c5. readDev E c4 io rx pbuf off (4 * n) =
      Inr (c5, io, encode16 (concat (map (\<lambda>i. [ra i, rb i]) [0..<n])), 4 * int n)"
    using g4 dev(3) by (simp add: readDev_def read_dev_def)
  then show ?thesis using A B by blast
qed

section \<open>The conversions of the ADALM2000\<close>

text \<open>
  The correction of the filters of a generator and of the oscilloscope, by
  their sampling rate.
\<close>

definition generator_factor :: "double \<Rightarrow> double option" where
  "generator_factor = map_of
     [(fl 75000000, fl 1), (fl 7500000, fl (1525879 / 1000000)), (fl 750000, fl (1164153 / 1000000)),
      (fl 75000, fl (1776357 / 1000000)), (fl 7500, fl (1355253 / 1000000)), (fl 750, fl (1033976 / 1000000))]"

definition scope_factor :: "double \<Rightarrow> double option" where
  "scope_factor = map_of
     [(fl 100000000, fl 1), (fl 10000000, fl (105 / 100)), (fl 1000000, fl (110 / 100)),
      (fl 100000, fl (115 / 100)), (fl 10000, fl (120 / 100)), (fl 1000, fl (126 / 100))]"

text \<open>
  A raw sample of a generator in volts: its upper twelve bits, half a step
  up, in steps of 10 V by 4095, corrected and with the sign turned round.
\<close>

definition sample_volts :: "double \<Rightarrow> u16 \<Rightarrow> double" where
  "sample_volts factor w =
     neg_d (mul_d (mul_d (add_d (of_int_d (sint w div 16)) (fl (1 / 2))) factor) (div_d (fl 10) (fl 4095)))"

text \<open>The gain of a range of the oscilloscope, and the raw value of a voltage.\<close>

definition range_gain :: "char list \<Rightarrow> double option" where
  "range_gain r =
     (if take 4 r = ''high'' then Some (fl (21229 / 100000))
      else if take 3 r = ''low'' then Some (fl (2017 / 100000)) else None)"

definition scope_code :: "double \<Rightarrow> double \<Rightarrow> double \<Rightarrow> double \<Rightarrow> int result" where
  "scope_code factor gain offset v =
     cast_i16 (div_d (mul_d (div_d (sub_d v (neg_d offset)) (mul_d (fl 1) factor))
                            (mul_d (mul_d (fl 2048) (fl (13 / 10))) gain)) (fl (78 / 100)))"

text \<open>The constants of a device are those of the constructor.\<close>

definition built_dac :: "dac \<Rightarrow> bool" where
  "built_dac d \<longleftrightarrow> (\<exists>i fd b e r n. let m = M2kDAC i fd b e r n in
     dac_filter_compensation_table d = dac_filter_compensation_table m \<and> dac_calib_vlsb d = dac_calib_vlsb m)"

definition built_adc :: "adc \<Rightarrow> bool" where
  "built_adc d \<longleftrightarrow> (\<exists>E i fd r n. adc_filter_compensation_table d = adc_filter_compensation_table (M2kADC E i fd r n))"

lemma dac_convert_all_volts:
  assumes "built_dac d" "generator_factor (dac_samplerate d) = Some f"
  shows "dac_convert_all d ws = Inr (map (sample_volts f) ws)"
proof -
  have "dac_calib_vlsb d = div_d (fl 10) (fl 4095)" "map_of (dac_filter_compensation_table d) (dac_samplerate d) = Some f"
    using assms by (auto simp: built_dac_def M2kDAC_def Let_def dac_table_def generator_factor_def)
  then have "dac_convertRawToVolts d w = Inr (sample_volts f w)" for w
    by (simp add: dac_convertRawToVolts_def dac_getFilterCompensation_def sample_volts_def)
  then show ?thesis by (induction ws) simp_all
qed

lemma dac_wave_volts:
  assumes "built_dac d" "generator_factor (dac_samplerate d) = Some f" "dac_loadCalibValues E doc d = Inr l"
    and "cast_u32 (div_d (fl 75000000) (div_d (dac_samplerate l) (of_int_d (int (dac_oversampling_ratio l))))) = Inr k"
  shows "dac_wave E doc d ws = analogical_interpolation (map (sample_volts f) ws) [] k"
  using assms(3,4) dac_convert_all_volts [OF assms(1,2)] by (simp add: dac_wave_def rate_75E6_def fl_numeral)

lemma range_gain_code:
  assumes "range_gain r = Some g" "adc_range d ! k = r" "k < length (adc_range d)"
  shows "adc_getCalibGain d k = Inr g"
proof -
  have "take 4 r = ''high'' \<and> g = fl (21229 / 100000) \<or> take 3 r = ''low'' \<and> g = fl (2017 / 100000)"
    using assms(1) by (simp add: range_gain_def split: if_splits)
  then have "(\<exists>x. r = ''high'' @ x) \<and> g = fl (21229 / 100000) \<or> (\<exists>x. r = ''low'' @ x) \<and> g = fl (2017 / 100000)"
    by (metis append_take_drop_id)
  then show ?thesis using assms(2,3) by (auto simp: adc_getCalibGain_def vec_at_def)
qed

lemma scope_code_word:
  assumes "built_adc d" "scope_factor (adc_samplerate d) = Some f" "range_gain (adc_range d ! k) = Some g" "k < length (adc_range d)"
    and "adc_hw_offset d ! k = off" "k < length (adc_hw_offset d)" "scope_code f g off v = Inr x"
  shows "adc_convertVoltToRaw d v k = Inr (word_of_int x)"
proof -
  have "adc_getFilterCompensation d = f"
    using assms(1,2) by (auto simp: built_adc_def M2kADC_def adc_table_def scope_factor_def adc_getFilterCompensation_def)
  then show ?thesis using assms(5-7) range_gain_code [OF assms(3) refl assms(4)]
    by (simp add: adc_convertVoltToRaw_def vec_at_def Let_def scope_code_def)
qed

section \<open>Properties\<close>

text \<open>
  C3: From the samples clients write to the two signal generators to the
  samples they read from the oscilloscope, with every number on the way.
  After both buffers have been written and pushed, a read of \<open>n\<close> frames
  stores, for each channel, the voltages of its own generator: each sample as
  volts, filled up to the rate of the generator, played from the start of the
  buffer and starting over at its end, one window of them for each frame, and
  that voltage in the steps of the channel's range, offset and rate.  Nothing
  of one generator shows on the channel of the other.
\<close>

theorem analog_loopback:
  assumes a: "getDevice c txa = Inr (Some a)" "m_devices c ! a = Dev_M2kDAC da" "fresh_dac da" "built_dac da"
      "generator_factor (dac_samplerate da) = Some fa" "dac_loadCalibValues E (m_doc c) da = Inr la"
      "cast_u32 (div_d (fl 75000000) (div_d (dac_samplerate la) (of_int_d (int (dac_oversampling_ratio la))))) = Inr ka"
      "analogical_interpolation (map (sample_volts fa) wa) [] ka = Inr va" "va \<noteq> []" "length va < 2 ^ 32"
    and b: "getDevice c txb = Inr (Some b)" "m_devices c ! b = Dev_M2kDAC db" "fresh_dac db" "built_dac db"
      "generator_factor (dac_samplerate db) = Some fb" "dac_loadCalibValues E (m_doc c) db = Inr lb"
      "cast_u32 (div_d (fl 75000000) (div_d (dac_samplerate lb) (of_int_d (int (dac_oversampling_ratio lb))))) = Inr kb"
      "analogical_interpolation (map (sample_volts fb) wb) [] kb = Inr vb" "vb \<noteq> []" "length vb < 2 ^ 32"
    and rx: "getDevice c rx = Inr (Some k)" "m_devices c ! k = Dev_M2kADC d"
      "adc_connections d = [(Some a, x), (Some b, y)]" "a \<noteq> b"
    and load: "adc_loadCalibValues E (m_doc c) d = Inr d'" "built_adc d'" "scope_factor (adc_samplerate d') = Some f"
      "adc_range d' = [r0, r1]" "range_gain r0 = Some g0" "range_gain r1 = Some g1" "adc_hw_offset d' = [o0, o1]"
      "cast_u32 (div_d (fl 100000000) (div_d (adc_samplerate d') (of_int_d (int (adc_oversampling_ratio d'))))) = Inr ratio"
      "1 \<le> ratio"
    and n: "n * ratio < 2 ^ 32" "length pbuf = 4 * n"
    and code: "\<forall>i < n. scope_code f g0 o0 (channel_sample ratio (cyc va 0 (n * ratio)) i) = Inr (xa i) \<and>
      scope_code f g1 o1 (channel_sample ratio (cyc vb 0 (n * ratio)) i) = Inr (xb i)"
  shows "\<exists>c1 c2 c3 c4 c5. writeDev c io txa (encode16 wa) offa (2 * length wa) = Inr (c1, io, 2 * int (length wa)) \<and>
    transferMemToDev E c1 txa ma = Inr (c2, 0) \<and>
    writeDev c2 io txb (encode16 wb) offb (2 * length wb) = Inr (c3, io, 2 * int (length wb)) \<and>
    transferMemToDev E c3 txb mb = Inr (c4, 0) \<and>
    readDev E c4 io rx pbuf off (4 * n) =
      Inr (c5, io, encode16 (concat (map (\<lambda>i. [word_of_int (xa i), word_of_int (xb i)]) [0..<n])), 4 * int n)"
proof -
  have waves: "dac_wave E (m_doc c) da wa = Inr va" "dac_wave E (m_doc c) db wb = Inr vb"
    using dac_wave_volts [OF a(4-7)] a(8) dac_wave_volts [OF b(4-7)] b(8) by simp_all
  have ratio: "adc_ratio d' = Inr ratio" using load(8) by (simp add: adc_ratio_def rate_1E8_def fl_numeral)
  have conv: "\<forall>i < n. adc_convertVoltToRaw d' (channel_sample ratio (cyc va 0 (n * ratio)) i) 0 = Inr (word_of_int (xa i)) \<and>
      adc_convertVoltToRaw d' (channel_sample ratio (cyc vb 0 (n * ratio)) i) 1 = Inr (word_of_int (xb i))"
    using code load(4-7) scope_code_word [OF load(2,3), of 0 g0 o0] scope_code_word [OF load(2,3), of 1 g1 o1] by simp
  show ?thesis
    by (rule loopback_played [OF a(1-3) waves(1) a(9,10) b(1-3) waves(2) b(9,10) rx load(1) ratio load(9) n conv])
qed

text \<open>The ADALM2000 with both generators enabled at their hardware rate.\<close>

definition generator_at :: "string \<Rightarrow> dac" where
  "generator_at i = M2kDAC i 0 False True (Fin 75000000) 1"

definition m2k_playing :: xml_context where
  "m2k_playing = m2k\<lparr>m_devices :=
     [Dev_M2kADC scope, Dev_M2kDAC (generator_at ''iio:device6''), Dev_M2kDAC (generator_at ''iio:device7'')]\<rparr>"

definition volts_16384 :: double where
  "volts_16384 = Fin (- (1408405927424015 / 562949953421312))"

text \<open>The constants of the conversions, evaluated once.\<close>

lemma rounded_constants:
  "fl 75000000 = Fin 75000000" "fl 100000000 = Fin 100000000" "fl 1 = Fin 1"
  by code_simp+

lemma generator_step:
  "neg_d (mul_d (mul_d (add_d (of_int_d (sint (16384 :: u16) div 16)) (fl (1 / 2))) (Fin 1)) (div_d (fl 10) (fl 4095))) = volts_16384"
  by code_simp

lemma generator_texts:
  assumes "i = ''iio:device6'' \<or> i = ''iio:device7''"
  shows "read_device_attr (env_xml m2k_env) m2k_doc i ''sampling_frequency'' (stack_junk m2k_env) (IIOD_BUFFER_SIZE m2k_env)
      IIO_ATTR_TYPE_DEVICE = Inr (''75000000'' @ NUL # replicate 7 CHR ''#'', 9)"
    "read_device_attr (env_xml m2k_env) m2k_doc i ''oversampling_ratio'' (''75000000'' @ NUL # replicate 7 CHR ''#'') (IIOD_BUFFER_SIZE m2k_env)
      IIO_ATTR_TYPE_DEVICE = Inr (''1'' @ NUL # ''000000'' @ NUL # replicate 7 CHR ''#'', 2)"
  using assms by (elim disjE; clarify; code_simp)+

lemma generator_rates: "safe_stod ''75000000'' = Fin 75000000" "stoi ''1'' = Inr 1"
  "div_d rate_75E6 (div_d (Fin 75000000) (of_int_d 1)) = Fin 1"
  by code_simp+

lemma generator_loads:
  assumes "i = ''iio:device6'' \<or> i = ''iio:device7''"
  shows "dac_loadCalibValues m2k_env m2k_doc (generator_at i) =
    Inr ((generator_at i)\<lparr>dac_samplerate := Fin 75000000, dac_oversampling_ratio := 1\<rparr>)"
proof -
  let ?d = "generator_at i"
  have d: "m_device_id ?d = i @ [NUL]" by (simp add: generator_at_def M2kDAC_def)
  have "NUL \<notin> set i" using assms by (auto simp: NUL_def)
  then have id: "cstr (i @ [NUL]) = Inr i" using cstr_append [of i "[]"] by simp
  have texts: "cstr (''75000000'' @ NUL # r) = Inr ''75000000''" "cstr (''1'' @ NUL # r) = Inr ''1''" for r
    by (rule cstr_append, simp add: NUL_def)+
  show ?thesis
    unfolding dac_loadCalibValues_def own_attr_def d id bindr_Inr generator_texts [OF assms] prod.case texts generator_rates
    by simp
qed

lemma generator_at_built:
  "fresh_dac (generator_at i)" "built_dac (generator_at i)" "generator_factor (dac_samplerate (generator_at i)) = Some (Fin 1)"
  "sample_volts (Fin 1) 16384 = volts_16384"
  using generator_step
  by (auto simp: fresh_dac_def generator_at_def M2kDAC_def built_dac_def Let_def generator_factor_def rounded_constants sample_volts_def)

lemma scope_steps:
  "mul_d volts_16384 (Fin (2485779828725655 / 4398046511104)) = Fin (- 6219002282123159 / 4398046511104)"
  "div_d (Fin (- 6219002282123159 / 4398046511104)) (fl (78 / 100)) = Fin (- 7973079848875845 / 4398046511104)"
  "mul_d volts_16384 (Fin (3778844346537017 / 70368744177664)) = Fin (- 4727015913342093 / 35184372088832)"
  "div_d (Fin (- 4727015913342093 / 35184372088832)) (fl (78 / 100)) = Fin (- 3030138405988521 / 17592186044416)"
  unfolding volts_16384_def adc_constants mul_d.simps div_d.simps
  by (rule fl_value [of 10 _ 6219002282123159] fl_value [of 10 _ 7973079848875845]
      fl_value [of 7 _ 4727015913342093] fl_value [of 7 _ 6060276811977042]; simp add: pow2_def)+

lemma volts_16384_steps: "sub_d volts_16384 (neg_d (Zero False)) = volts_16384" "div_d volts_16384 (Fin 1) = volts_16384"
proof -
  have "fl (- (1408405927424015 / 562949953421312)) = volts_16384"
    unfolding volts_16384_def by (rule fl_value [of 1 _ 5633623709696060]; simp add: pow2_def)
  then show "sub_d volts_16384 (neg_d (Zero False)) = volts_16384" "div_d volts_16384 (Fin 1) = volts_16384"
    by (simp_all add: volts_16384_def sub_d_def)
qed

lemma scope_casts:
  "cast_i16 (Fin (- 7973079848875845 / 4398046511104)) = Inr (- 1812)"
  "cast_i16 (Fin (- 3030138405988521 / 17592186044416)) = Inr (- 172)"
proof -
  have "\<lceil>- 7973079848875845 / 4398046511104 :: rat\<rceil> = - 1812" "\<lceil>- 3030138405988521 / 17592186044416 :: rat\<rceil> = - 172"
    by (rule ceiling_unique; simp)+
  then show "cast_i16 (Fin (- 7973079848875845 / 4398046511104)) = Inr (- 1812)"
    "cast_i16 (Fin (- 3030138405988521 / 17592186044416)) = Inr (- 172)"
    by (simp_all add: cast_i16_def cast_int_def trunc_rat_def)
qed

lemma scope_codes:
  "scope_code (Fin 1) (fl (21229 / 100000)) (Zero False) volts_16384 = Inr (- 1812)"
  "scope_code (Fin 1) (fl (2017 / 100000)) (Zero False) volts_16384 = Inr (- 172)"
  unfolding scope_code_def scope_conversion volts_16384_steps adc_gains scope_steps scope_casts by simp_all

lemma scope_read_state:
  "built_adc scope_read" "scope_factor (adc_samplerate scope_read) = Some (Fin 1)"
  "adc_range scope_read = [''high'' @ replicate 12 NUL, ''low'' @ replicate 13 NUL]"
  "range_gain (''high'' @ replicate 12 NUL) = Some (fl (21229 / 100000))" "range_gain (''low'' @ replicate 13 NUL) = Some (fl (2017 / 100000))"
  "adc_hw_offset scope_read = [Zero False, Zero False]"
  "cast_u32 (div_d (fl 100000000) (div_d (adc_samplerate scope_read) (of_int_d (int (adc_oversampling_ratio scope_read))))) = Inr 1"
  using scope_ratio by (auto simp: built_adc_def scope_read_def scope_def M2kADC_def scope_factor_def rounded_constants
      range_gain_def adc_ratio_def rate_1E8_def)

theorem analog_loopback_witness:
  "\<exists>c1 c2 c3 c4 c5. writeDev m2k_playing no_io ''iio:device6'' [0, 64] 0 2 = Inr (c1, no_io, 2) \<and>
     transferMemToDev m2k_env c1 ''iio:device6'' 2 = Inr (c2, 0) \<and>
     writeDev c2 no_io ''iio:device7'' [0, 64] 0 2 = Inr (c3, no_io, 2) \<and>
     transferMemToDev m2k_env c3 ''iio:device7'' 2 = Inr (c4, 0) \<and>
     readDev m2k_env c4 no_io ''iio:device0'' [7, 7, 7, 7] 0 4 = Inr (c5, no_io, [236, 248, 84, 255], 4)"
proof -
  have get: "getDevice m2k_playing ''iio:device6'' = Inr (Some 1)" "getDevice m2k_playing ''iio:device7'' = Inr (Some 2)"
    "getDevice m2k_playing ''iio:device0'' = Inr (Some 0)"
    by (simp_all add: getDevice_def m2k_playing_def generator_at_def scope_def M2kADC_def M2kDAC_def NUL_def)
  have dev: "m_devices m2k_playing ! 1 = Dev_M2kDAC (generator_at ''iio:device6'')"
    "m_devices m2k_playing ! 2 = Dev_M2kDAC (generator_at ''iio:device7'')" "m_devices m2k_playing ! 0 = Dev_M2kADC scope"
    "m_doc m2k_playing = m2k_doc" "adc_connections scope = [(Some 1, 0), (Some 2, 0)]"
    by (simp_all add: m2k_playing_def m2k_built(2) scope_def)
  have rate: "cast_u32 (div_d (fl 75000000) (div_d (dac_samplerate (d\<lparr>dac_samplerate := Fin 75000000, dac_oversampling_ratio := 1\<rparr>))
      (of_int_d (int (dac_oversampling_ratio (d\<lparr>dac_samplerate := Fin 75000000, dac_oversampling_ratio := 1\<rparr>)))))) = Inr 1" for d
    using generator_rates(3) by (simp add: rate_75E6_def rounded_constants cast_u32_1 [simplified])
  have wave: "analogical_interpolation (map (sample_volts (Fin 1)) [16384]) [] 1 = Inr [volts_16384]"
    by (simp add: analogical_interpolation_def generator_at_built(4))
  have bytes: "encode16 [16384] = [0, 64]" "encode16 [- 1812, - 172] = [236, 248, 84, 255]"
    by code_simp+
  have drawn: "\<forall>i < 1. scope_code (Fin 1) (fl (21229 / 100000)) (Zero False) (channel_sample 1 (cyc [volts_16384] 0 (1 * 1)) i) = Inr (- 1812) \<and>
      scope_code (Fin 1) (fl (2017 / 100000)) (Zero False) (channel_sample 1 (cyc [volts_16384] 0 (1 * 1)) i) = Inr (- 172)"
    using scope_codes by (simp add: channel_sample_def cyc_def)
  note loads = generator_loads [of "''iio:device6''", folded dev(4)] generator_loads [of "''iio:device7''", folded dev(4)]
  have loaded: "adc_loadCalibValues m2k_env (m_doc m2k_playing) scope = Inr scope_read"
    using scope_loads by (simp add: dev(4))
  show ?thesis
    using analog_loopback [OF get(1) dev(1) generator_at_built(1-3) loads(1) [OF disjI1 [OF refl]] rate wave _ _
        get(2) dev(2) generator_at_built(1-3) loads(2) [OF disjI2 [OF refl]] rate wave _ _
        get(3) dev(3) dev(5) _ loaded scope_read_state(1-7) _ _ _ drawn, of "[7, 7, 7, 7]" no_io 0 2 0 2 0]
    by (simp add: bytes)
qed

end
