(* ===== verification/Attr_Store.thy ===== *)
theory Attr_Store
  imports Ops_Wrapper
begin

text \<open>
  The attributes of a context as registers: what a call of libtinyiiod reads
  from an attribute is what the last call that wrote it has put there,
  whatever was called before and in between.  The attributes of devices and
  of channels are named together, by \<open>attr_ref\<close>.
\<close>

section \<open>Naming an attribute\<close>

datatype attr_ref =
    Device_attr string iio_attr_type string
  | Channel_attr string string bool string

fun find_attr :: "xdoc option \<Rightarrow> attr_ref \<Rightarrow> node_ptr option result" where
  "find_attr doc (Device_attr dev type attr) = getDeviceAttr doc dev type attr"
| "find_attr doc (Channel_attr dev chn out attr) = getChannelAttr doc chn dev attr out"

fun read_call :: "attr_ref \<Rightarrow> char list \<Rightarrow> nat \<Rightarrow> ops_call" where
  "read_call (Device_attr dev type attr) buf len = Read_attr dev attr buf len type"
| "read_call (Channel_attr dev chn out attr) buf len = Ch_read_attr dev chn out attr buf len"

fun write_call :: "attr_ref \<Rightarrow> char list \<Rightarrow> nat \<Rightarrow> ops_call" where
  "write_call (Device_attr dev type attr) buf len = Write_attr dev attr buf len type"
| "write_call (Channel_attr dev chn out attr) buf len = Ch_write_attr dev chn out attr buf len"

text \<open>
  The node a call writes to: that of its attribute, and for a supply the
  measuring channel as well.
\<close>

fun side_hits :: "xdoc option \<Rightarrow> node_ptr \<Rightarrow> ops_call \<Rightarrow> bool" where
  "side_hits doc p (Ch_write_attr dev chn out attr buf len) \<longleftrightarrow>
     strncmp_eq dev ''iio:device3'' 11 \<and>
     find_attr doc (Channel_attr ''iio:device13'' (snd (supply_channel chn)) False ''raw'') = Inr (Some p)"
| "side_hits doc p _ \<longleftrightarrow> False"

fun hits :: "xdoc option \<Rightarrow> node_ptr \<Rightarrow> ops_call \<Rightarrow> bool" where
  "hits doc p (Write_attr dev attr buf len type) \<longleftrightarrow> find_attr doc (Device_attr dev type attr) = Inr (Some p)"
| "hits doc p (Ch_write_attr dev chn out attr buf len) \<longleftrightarrow>
     find_attr doc (Channel_attr dev chn out attr) = Inr (Some p) \<or> side_hits doc p (Ch_write_attr dev chn out attr buf len)"
| "hits doc p _ \<longleftrightarrow> False"

section \<open>Different attributes do not overlap\<close>

text \<open>The shape of an attribute's pointer, and the name of the node at its second place.\<close>

lemma find_attr_shape:
  assumes "find_attr doc a = Inr (Some p)"
  obtains r where "xmlDocGetRootElement doc = Some r" "valid_ptr p r"
    "length p = (case a of Device_attr _ _ _ \<Rightarrow> 2 | Channel_attr _ _ _ _ \<Rightarrow> 3)"
    "nname (node_at (take 2 p) r) = (case a of Device_attr _ t _ \<Rightarrow> attr_element t | Channel_attr _ _ _ _ \<Rightarrow> ''channel'')"
proof (cases a)
  case (Device_attr dev t attr)
  then obtain r i j where r: "xmlDocGetRootElement doc = Some r" "getNode r ''device'' ''id'' dev = Inr (Some i)"
    "getNode (nchildren r ! i) (attr_element t) ''name'' attr = Inr (Some j)" "p = [i, j]"
    using assms by (force simp: getDeviceAttr_def bindr_eq_Inr_iff split: option.splits)
  then show ?thesis using that getNode_Some [OF r(2)] getNode_Some [OF r(3)] Device_attr by simp
next
  case (Channel_attr dev chn out attr)
  then obtain r i k j where r: "xmlDocGetRootElement doc = Some r" "getNode r ''device'' ''id'' dev = Inr (Some i)"
    "getNodeNAttrs (nchildren r ! i) ''channel'' [(''id'', chn), (''type'', if out then ''output'' else ''input'')] = Inr (Some k)"
    "getNode (nchildren (nchildren r ! i) ! k) ''attribute'' ''name'' attr = Inr (Some j)" "p = [i, k, j]"
    using assms by (rule_tac getChannelAttr_parts) simp_all
  then show ?thesis using that getNode_Some [OF r(2)] getNode_Some [OF r(4)] Channel_attr
      getNodeNAttrs_in_Some [OF r(3) [unfolded getNodeNAttrs_def]] by simp
qed

lemma attr_nodes_apart:
  assumes "find_attr doc a = Inr (Some p)" "find_attr doc b = Inr (Some q)" "p \<noteq> q"
  shows "take (length q) p \<noteq> take (length p) q"
proof -
  obtain r where p: "xmlDocGetRootElement doc = Some r"
    "length p = (case a of Device_attr _ _ _ \<Rightarrow> 2 | Channel_attr _ _ _ _ \<Rightarrow> 3)"
    "nname (node_at (take 2 p) r) = (case a of Device_attr _ t _ \<Rightarrow> attr_element t | Channel_attr _ _ _ _ \<Rightarrow> ''channel'')"
    by (rule find_attr_shape [OF assms(1)])
  obtain q' where q: "xmlDocGetRootElement doc = Some q'"
    "length q = (case b of Device_attr _ _ _ \<Rightarrow> 2 | Channel_attr _ _ _ _ \<Rightarrow> 3)"
    "nname (node_at (take 2 q) q') = (case b of Device_attr _ t _ \<Rightarrow> attr_element t | Channel_attr _ _ _ _ \<Rightarrow> ''channel'')"
    by (rule find_attr_shape [OF assms(2)])
  have ne: "attr_element t \<noteq> ''channel''" "''channel'' \<noteq> attr_element t" for t by (cases t; simp)+
  show ?thesis using p q assms(3) ne by (cases a; cases b) (auto split: attr_ref.split_asm)
qed

section \<open>What a write changes\<close>

text \<open>Every attribute is found at the same node, and the node \<open>p\<close> is as before.\<close>

definition same_places :: "xdoc option \<Rightarrow> xdoc option \<Rightarrow> bool" where
  "same_places doc doc' \<longleftrightarrow> (\<forall>a. find_attr doc' a = find_attr doc a)"

definition kept_node :: "node_ptr \<Rightarrow> xdoc option \<Rightarrow> xdoc option \<Rightarrow> bool" where
  "kept_node p doc doc' \<longleftrightarrow> same_places doc doc' \<and> doc_node doc' p = doc_node doc p"

lemma same_places_refl [simp]: "same_places doc doc"
  by (simp add: same_places_def)

lemma same_places_trans: "same_places a b \<Longrightarrow> same_places b c \<Longrightarrow> same_places a c"
  by (simp add: same_places_def)

lemma kept_node_refl [simp]: "kept_node p doc doc"
  by (simp add: kept_node_def)

lemma kept_node_trans: "kept_node p a b \<Longrightarrow> kept_node p b c \<Longrightarrow> kept_node p a c"
  by (auto simp: kept_node_def intro: same_places_trans)

lemma same_places_hits: "same_places doc doc' \<Longrightarrow> hits doc' p call = hits doc p call"
  by (cases call) (simp_all add: same_places_def del: find_attr.simps)

lemma set_value_places: "setprop_ok L \<Longrightarrow> same_places doc (set_value L doc q v)"
  unfolding same_places_def
proof
  fix a
  assume "setprop_ok L"
  then show "find_attr (set_value L doc q v) a = find_attr doc a"
    by (cases a) (simp_all add: getDeviceAttr_update getChannelAttr_update)
qed

lemma set_value_keeps:
  assumes "setprop_ok L" "find_attr doc a = Inr (Some p)" "find_attr doc b = Inr (Some q)" "p \<noteq> q"
  shows "kept_node p doc (set_value L doc q v)"
proof -
  obtain r where "xmlDocGetRootElement doc = Some r" by (rule find_attr_shape [OF assms(2)])
  moreover have "take (length p) q \<noteq> take (length q) p" using attr_nodes_apart [OF assms(2,3,4)] by auto
  ultimately have "doc_node (set_value L doc q v) p = doc_node doc p"
    by (simp add: doc_node_def doc_update_root node_at_update_apart)
  then show ?thesis using set_value_places [OF assms(1)] by (simp add: kept_node_def)
qed

section \<open>Calls\<close>

text \<open>A write to one attribute: nothing, or the value of its node.\<close>

definition attr_written :: "libxml \<Rightarrow> attr_ref \<Rightarrow> xdoc option \<Rightarrow> xdoc option \<Rightarrow> bool" where
  "attr_written L b doc doc' \<longleftrightarrow>
     doc' = doc \<or> (\<exists>q v. find_attr doc b = Inr (Some q) \<and> doc' = set_value L doc q v)"

lemma attr_written_places: "setprop_ok L \<Longrightarrow> attr_written L b doc doc' \<Longrightarrow> same_places doc doc'"
  by (auto simp: attr_written_def set_value_places simp del: find_attr.simps)

lemma attr_written_keeps:
  assumes "setprop_ok L" "attr_written L b doc doc'" "find_attr doc a = Inr (Some p)" "find_attr doc b \<noteq> Inr (Some p)"
  shows "kept_node p doc doc'"
  using assms by (auto simp: attr_written_def intro!: set_value_keeps simp del: find_attr.simps)

lemma write_dev_attr_written:
  "write_dev_attr L doc dev attr buf len type = Inr (doc', r) \<Longrightarrow> attr_written L (Device_attr dev type attr) doc doc'"
  unfolding attr_written_def write_dev_attr_def
  by (auto simp: bindr_eq_Inr_iff split: if_split_asm option.split_asm)

lemma generic_write_written:
  "generic_chWriteAttr E c dev chn out attr buf len = Inr (c', r) \<Longrightarrow>
   attr_written (env_xml E) (Channel_attr dev chn out attr) (m_doc c) (m_doc c')"
  unfolding attr_written_def generic_chWriteAttr_def write_channel_attr_def
  by (auto simp: bindr_eq_Inr_iff split: if_split_asm option.split_asm)

text \<open>A write to a channel, with the measuring channel of a supply.\<close>

lemma chWriteAttr_written:
  assumes "chWriteAttr E c dev chn out attr buf len = Inr (c', r)"
  obtains c1 where "generic_chWriteAttr E c dev chn out attr buf len = Inr (c1, r)"
    "m_doc c' = m_doc c1 \<or> strncmp_eq dev ''iio:device3'' 11 \<and>
       attr_written (env_xml E) (Channel_attr ''iio:device13'' (snd (supply_channel chn)) False ''raw'') (m_doc c1) (m_doc c')"
proof (cases "m_adalm c")
  case None
  then show ?thesis using assms that [of c'] by (simp add: chWriteAttr_def)
next
  case (Some ps)
  then obtain c1 where c1: "generic_chWriteAttr E c dev chn out attr buf len = Inr (c1, r)"
    and rest: "c' = c1 \<or> strncmp_eq dev ''iio:device3'' 11 \<and>
      (\<exists>v n c2 r' ps'. generic_chWriteAttr E c1 ''iio:device13'' (snd (supply_channel chn)) False ''raw'' v n = Inr (c2, r') \<and>
        c' = c2\<lparr>m_adalm := Some ps'\<rparr>)"
    using assms unfolding chWriteAttr_def adalm_chWriteAttr_def
    by (fastforce simp: bindr_eq_Inr_iff split: if_splits prod.splits)
  show ?thesis by (rule that [OF c1]) (use rest in \<open>auto dest: generic_write_written\<close>)
qed

lemma chWriteAttr_effect:
  assumes L: "setprop_ok (env_xml E)" and w: "chWriteAttr E c dev chn out attr buf len = Inr (c', r)"
  shows "same_places (m_doc c) (m_doc c')"
    "find_attr (m_doc c) a = Inr (Some p) \<Longrightarrow> \<not> hits (m_doc c) p (Ch_write_attr dev chn out attr buf len) \<Longrightarrow>
     kept_node p (m_doc c) (m_doc c')"
proof -
  let ?m = "Channel_attr ''iio:device13'' (snd (supply_channel chn)) False ''raw''"
  obtain c1 where g: "generic_chWriteAttr E c dev chn out attr buf len = Inr (c1, r)"
    and c': "m_doc c' = m_doc c1 \<or> strncmp_eq dev ''iio:device3'' 11 \<and> attr_written (env_xml E) ?m (m_doc c1) (m_doc c')"
    by (rule chWriteAttr_written [OF w])
  note c1 = generic_write_written [OF g]
  have s1: "same_places (m_doc c) (m_doc c1)" by (rule attr_written_places [OF L c1])
  have "same_places (m_doc c1) (m_doc c')" using c' attr_written_places [OF L, of ?m] by auto
  then show "same_places (m_doc c) (m_doc c')" by (rule same_places_trans [OF s1])
  assume p: "find_attr (m_doc c) a = Inr (Some p)" and h: "\<not> hits (m_doc c) p (Ch_write_attr dev chn out attr buf len)"
  have k1: "kept_node p (m_doc c) (m_doc c1)"
    using attr_written_keeps [OF L c1 p] h by (simp del: find_attr.simps)
  have p1: "find_attr (m_doc c1) b = find_attr (m_doc c) b" for b using s1 by (simp add: same_places_def)
  have "kept_node p (m_doc c1) (m_doc c')"
    using c' attr_written_keeps [OF L, of ?m "m_doc c1" "m_doc c'" a p] h p by (auto simp: p1 simp del: find_attr.simps)
  then show "kept_node p (m_doc c) (m_doc c')" by (rule kept_node_trans [OF k1])
qed

lemma perform_effect:
  assumes L: "setprop_ok (env_xml E)" and w: "perform E call w = Inr (w', pl, r)" "g_ops w = Some c"
  shows "\<exists>c'. g_ops w' = Some c' \<and> same_places (m_doc c) (m_doc c') \<and>
    (\<forall>a p. find_attr (m_doc c) a = Inr (Some p) \<and> \<not> hits (m_doc c) p call \<longrightarrow> kept_node p (m_doc c) (m_doc c'))"
proof (cases "writes_doc call")
  case False
  then have "world_doc w' = world_doc w" by (rule perform_doc [OF w(1)])
  then obtain c' where "g_ops w' = Some c'" "m_doc c' = m_doc c" using w(2) by (auto simp: world_doc_def)
  then show ?thesis by simp
next
  case True
  then consider dev attr buf len t where "call = Write_attr dev attr buf len t"
    | dev chn out attr buf len where "call = Ch_write_attr dev chn out attr buf len" by (cases call) auto
  then show ?thesis
  proof cases
    case 1
    then obtain doc' where "write_dev_attr (env_xml E) (m_doc c) dev attr buf len t = Inr (doc', r)"
      and w': "g_ops w' = Some (c\<lparr>m_doc := doc'\<rparr>)"
      using w by (auto simp: iiod_write_attr_def ops_update_def writeAttr_def bindr_eq_Inr_iff)
    note d = write_dev_attr_written [OF this(1)]
    have "kept_node p (m_doc c) doc'" if "find_attr (m_doc c) a = Inr (Some p)" "\<not> hits (m_doc c) p call" for a p
      using attr_written_keeps [OF L d that(1)] that(2) 1 by (simp del: find_attr.simps)
    then show ?thesis using attr_written_places [OF L d] w' by auto
  next
    case 2
    then obtain c' where "chWriteAttr E c dev chn out attr buf len = Inr (c', r)" and w': "g_ops w' = Some c'"
      using w by (auto simp: iiod_ch_write_attr_def ops_update_def bindr_eq_Inr_iff)
    then show ?thesis using chWriteAttr_effect [OF L] 2 by auto
  qed
qed

lemma perform_all_effect:
  assumes L: "setprop_ok (env_xml E)"
  shows "perform_all E calls w = Inr w' \<Longrightarrow> g_ops w = Some c \<Longrightarrow>
    \<exists>c'. g_ops w' = Some c' \<and> same_places (m_doc c) (m_doc c') \<and>
      (\<forall>a p. find_attr (m_doc c) a = Inr (Some p) \<and> (\<forall>call \<in> set calls. \<not> hits (m_doc c) p call) \<longrightarrow>
         kept_node p (m_doc c) (m_doc c'))"
  unfolding perform_all_def
proof (induction calls arbitrary: w c)
  case (Cons call calls)
  obtain w1 pl r where 1: "perform E call w = Inr (w1, pl, r)"
    and rest: "foldr_result (\<lambda>call w. bindr (perform E call w) (\<lambda>r. Inr (fst r))) calls w1 = Inr w'"
    using Cons.prems(1) by (auto simp: bindr_eq_Inr_iff)
  obtain c1 where c1: "g_ops w1 = Some c1" "same_places (m_doc c) (m_doc c1)"
    and k1: "\<And>a p. find_attr (m_doc c) a = Inr (Some p) \<Longrightarrow> \<not> hits (m_doc c) p call \<Longrightarrow> kept_node p (m_doc c) (m_doc c1)"
    using perform_effect [OF L 1 Cons.prems(2)] by blast
  obtain c' where c': "g_ops w' = Some c'" "same_places (m_doc c1) (m_doc c')"
    and k': "\<And>a p. find_attr (m_doc c1) a = Inr (Some p) \<Longrightarrow> \<forall>call \<in> set calls. \<not> hits (m_doc c1) p call \<Longrightarrow>
      kept_node p (m_doc c1) (m_doc c')"
    using Cons.IH [OF rest c1(1)] by blast
  have f: "find_attr (m_doc c1) a = find_attr (m_doc c) a" for a using c1(2) by (simp add: same_places_def)
  have "kept_node p (m_doc c) (m_doc c')"
    if "find_attr (m_doc c) a = Inr (Some p)" "\<forall>call \<in> set (call # calls). \<not> hits (m_doc c) p call" for a p
    using kept_node_trans [OF k1 k', of a p a] that same_places_hits [OF c1(2)] by (simp add: f)
  then show ?case using c' same_places_trans [OF c1(2) c'(2)] by blast
qed auto

section \<open>Properties\<close>

text \<open>What a call that writes an attribute leaves in its node.\<close>

definition holds_value :: "libxml \<Rightarrow> node_ptr \<Rightarrow> string \<Rightarrow> xdoc option \<Rightarrow> bool" where
  "holds_value L p v doc \<longleftrightarrow> xmlGetProp L (doc_node doc p) ''value'' = Some v"

lemma set_value_holds:
  assumes "setprop_ok L" "find_attr doc a = Inr (Some p)"
  shows "holds_value L p v (set_value L doc p v)"
proof -
  obtain r where "xmlDocGetRootElement doc = Some r" "valid_ptr p r" by (rule find_attr_shape [OF assms(2)])
  then show ?thesis using set_value_written [OF assms(1)] by (simp add: holds_value_def)
qed

lemma write_call_holds:
  assumes L: "setprop_ok (env_xml E)" and c: "g_ops w = Some c" and p: "find_attr (m_doc c) a = Inr (Some p)"
    and v: "NUL \<notin> set v" "length v < wlen" and side: "\<not> side_hits (m_doc c) p (write_call a (v @ NUL # r) wlen)"
    and w: "perform E (write_call a (v @ NUL # r) wlen) w = Inr (w1, pl, n)"
  shows "\<exists>c1. g_ops w1 = Some c1 \<and> holds_value (env_xml E) p v (m_doc c1)"
proof (cases a)
  case (Device_attr dev t attr)
  then have "g_ops w1 = Some (c\<lparr>m_doc := set_value (env_xml E) (m_doc c) p v\<rparr>)"
    using w c p write_dev_attr_found [of "m_doc c" dev t attr p v wlen "env_xml E" r] v
    by (auto simp: iiod_write_attr_def ops_update_def writeAttr_def bindr_eq_Inr_iff)
  then show ?thesis using set_value_holds [OF L p] by simp
next
  case (Channel_attr dev chn out attr)
  let ?m = "Channel_attr ''iio:device13'' (snd (supply_channel chn)) False ''raw''"
  obtain c' where w': "chWriteAttr E c dev chn out attr (v @ NUL # r) wlen = Inr (c', n)" and c': "g_ops w1 = Some c'"
    using w c Channel_attr by (auto simp: iiod_ch_write_attr_def ops_update_def bindr_eq_Inr_iff)
  obtain c1 where g: "generic_chWriteAttr E c dev chn out attr (v @ NUL # r) wlen = Inr (c1, n)"
    and rest: "m_doc c' = m_doc c1 \<or> strncmp_eq dev ''iio:device3'' 11 \<and> attr_written (env_xml E) ?m (m_doc c1) (m_doc c')"
    by (rule chWriteAttr_written [OF w'])
  have "m_doc c1 = set_value (env_xml E) (m_doc c) p v"
    using g p Channel_attr write_channel_attr_found [of "m_doc c" chn dev attr out p v wlen "env_xml E" r] v
    by (auto simp: generic_chWriteAttr_def bindr_eq_Inr_iff)
  then have h1: "holds_value (env_xml E) p v (m_doc c1)" using set_value_holds [OF L p] by simp
  have s1: "find_attr (m_doc c1) b = find_attr (m_doc c) b" for b
    using attr_written_places [OF L generic_write_written [OF g]] by (simp add: same_places_def)
  have "kept_node p (m_doc c1) (m_doc c')"
    using rest attr_written_keeps [OF L, of ?m "m_doc c1" "m_doc c'" a p] side p Channel_attr
    by (auto simp: s1 simp del: find_attr.simps)
  then show ?thesis using h1 c' by (simp add: holds_value_def kept_node_def)
qed

text \<open>
  C5: Attributes are registers: what a client reads from an attribute of a
  device or a channel is the text that was written to it last, whatever was
  called before the write and whatever has been called since, on the same or
  on other devices, as long as no call wrote to it again.  Only the measuring
  channel of a supply is written by other calls than those that name it.
\<close>

theorem attribute_register:
  assumes "setprop_ok (env_xml E)" "g_ops w = Some c" "find_attr (m_doc c) a = Inr (Some p)"
    and "perform_all E (before @ write_call a (v @ NUL # r) wlen # after) w = Inr w'"
    and "\<not> side_hits (m_doc c) p (write_call a (v @ NUL # r) wlen)" "\<forall>call \<in> set after. \<not> hits (m_doc c) p call"
    and "NUL \<notin> set v" "length v < wlen" "length v < len" "len \<le> length buf"
  shows "perform E (read_call a buf len) w' = Inr (w', Chars (v @ NUL # drop (Suc (length v)) buf), int (length v) + 1)"
proof -
  let ?W = "write_call a (v @ NUL # r) wlen"
  obtain w1 w2 where before: "perform_all E before w = Inr w1" and W: "perform_all E [?W] w1 = Inr w2"
    and after: "perform_all E after w2 = Inr w'"
    using assms(4) by (auto simp: perform_all_def foldr_result_append bindr_eq_Inr_iff)
  obtain pl n where w2: "perform E ?W w1 = Inr (w2, pl, n)" using W by (auto simp: perform_all_def bindr_eq_Inr_iff)
  obtain c1 where c1: "g_ops w1 = Some c1" "same_places (m_doc c) (m_doc c1)"
    using perform_all_effect [OF assms(1) before assms(2)] by blast
  have f1: "find_attr (m_doc c1) b = find_attr (m_doc c) b" for b using c1(2) by (simp add: same_places_def)
  have "\<not> side_hits (m_doc c1) p ?W" using assms(5) f1 by (cases a) (simp_all del: find_attr.simps)
  then obtain c2 where c2: "g_ops w2 = Some c2" "holds_value (env_xml E) p v (m_doc c2)"
    using write_call_holds [OF assms(1) c1(1) _ assms(7,8) _ w2] assms(3) by (auto simp: f1)
  have s2: "same_places (m_doc c1) (m_doc c2)" using perform_effect [OF assms(1) w2 c1(1)] c2(1) by auto
  note s = same_places_trans [OF c1(2) s2]
  then have f2: "find_attr (m_doc c2) b = find_attr (m_doc c) b" for b by (simp add: same_places_def)
  have "find_attr (m_doc c2) a = Inr (Some p)" "\<forall>call \<in> set after. \<not> hits (m_doc c2) p call"
    using assms(3,6) by (simp_all add: f2 same_places_hits [OF s])
  then obtain c' where c': "g_ops w' = Some c'" and k: "kept_node p (m_doc c2) (m_doc c')"
    using perform_all_effect [OF assms(1) after c2(1)] by auto
  have "xmlGetProp (env_xml E) (doc_node (m_doc c') p) ''value'' = Some v"
    using c2(2) k by (simp add: holds_value_def kept_node_def)
  moreover have "find_attr (m_doc c') a = Inr (Some p)" using k assms(3) f2 by (simp add: kept_node_def same_places_def)
  ultimately show ?thesis using c' assms(7,9,10)
    by (cases a) (simp_all add: iiod_read_attr_def iiod_ch_read_attr_def ops_query_def readAttr_def chReadAttr_def
        read_device_attr_found read_channel_attr_found copy_value_fits)
qed

theorem attribute_register_witness:
  "\<exists>w'. perform_all m2k_env
       [Open_instance, Write_attr ''iio:device9'' ''sampling_frequency'' (''1000000'' @ [NUL]) 8 IIO_ATTR_TYPE_DEVICE, Set_timeout 5]
       m2k_world = Inr w' \<and>
     perform m2k_env (Read_attr ''iio:device9'' ''sampling_frequency'' (replicate 10 NUL) 10 IIO_ATTR_TYPE_DEVICE) w' =
       Inr (w', Chars (''1000000'' @ NUL # [NUL, NUL]), 8)"
proof -
  let ?a = "Device_attr ''iio:device9'' IIO_ATTR_TYPE_DEVICE ''sampling_frequency''"
  define w' where "w' = m2k_world\<lparr>g_ops := Some (m2k\<lparr>m_doc := set_value (env_xml m2k_env) m2k_doc [15, 0] ''1000000''\<rparr>)\<rparr>"
  have L: "setprop_ok (env_xml m2k_env)" by (simp add: m2k_env_def libxml_lists_ok)
  have c: "g_ops m2k_world = Some m2k" by (simp add: m2k_world_def)
  have p: "getDeviceAttr m2k_doc ''iio:device9'' IIO_ATTR_TYPE_DEVICE ''sampling_frequency'' = Inr (Some [15, 0])" by code_simp
  have v: "NUL \<notin> set ''1000000''" "length ''1000000'' < 8" by (simp_all add: NUL_def)
  have "perform_all m2k_env ([Open_instance] @ write_call ?a (''1000000'' @ NUL # []) 8 # [Set_timeout 5]) m2k_world = Inr w'"
    using write_dev_attr_found [OF p v, of "env_xml m2k_env" "[]"]
    by (simp add: perform_all_def iiod_defs ops_update_def ops_query_def writeAttr_def m2k_built(2) c w'_def split: prod.split)
  from attribute_register [OF L c _ this, of "[15, 0]" 10 "replicate 10 NUL"] this v show ?thesis
    by (auto simp: p m2k_built(2) eval_nat_numeral)
qed

end
