(* ===== verification/Getopt.thy ===== *)
theory Getopt
  imports Prelude "HOL-Library.Signed_Division" "HOL-Library.Multiset"
begin

text \<open>
  deps/wingetopt: the \<open>getopt\<close> family the emulator is built with on Windows.
  The static and global variables are a record that every call takes and
  returns, together with the argument vector, which a call may reorder.  The
  vector is a list of pointers to strings and ends in the null pointer.  A
  pointer into an argument is the argument and an offset.  What is printed on
  \<open>stderr\<close> is collected in \<open>warnings\<close>.
\<close>

section \<open>Exchanging two blocks of arguments\<close>

text \<open>Greatest common divisor; the loop of the code in the recursion.\<close>

function c_gcd :: "int \<Rightarrow> int \<Rightarrow> int result" where
  "c_gcd a b =
     (if b = 0 then Inl DivByZero
      else let c = a smod b in if c \<noteq> 0 then c_gcd b c else Inr b)"
  by pat_completeness auto
termination
proof (relation "measure (\<lambda>(a, b). nat \<bar>b\<bar>)")
  fix a b c :: int
  assume "b \<noteq> 0" "c = a smod b"
  then have "\<bar>c\<bar> < \<bar>b\<bar>" by (simp add: signed_modulo_int_def abs_mult abs_mod_less)
  then show "((b, c), (a, b)) \<in> measure (\<lambda>(a, b). nat \<bar>b\<bar>)" by simp
qed simp

declare c_gcd.simps [simp del]

text \<open>Access to an array by an \<open>int\<close>.\<close>

definition fetch :: "'a list \<Rightarrow> int \<Rightarrow> 'a result" where
  "fetch xs i = (if 0 \<le> i \<and> i < int (length xs) then Inr (xs ! nat i) else Inl OutOfBounds)"

definition swap_args :: "'a list \<Rightarrow> int \<Rightarrow> int \<Rightarrow> 'a list result" where
  "swap_args nargv pos cstart =
     bindr (fetch nargv pos) (\<lambda>swap. bindr (fetch nargv cstart) (\<lambda>x.
       Inr (nargv[nat pos := x, nat cstart := swap])))"

text \<open>The inner loop, with \<open>n\<close> turns left.\<close>

fun permute_cycle :: "int \<Rightarrow> int \<Rightarrow> int \<Rightarrow> int \<Rightarrow> nat \<Rightarrow> int \<Rightarrow> 'a list \<Rightarrow> 'a list result" where
  "permute_cycle panonopt_end nnonopts nopts cstart 0 pos nargv = Inr nargv"
| "permute_cycle panonopt_end nnonopts nopts cstart (Suc n) pos nargv =
     (let pos = (if panonopt_end \<le> pos then pos - nnonopts else pos + nopts)
      in bindr (swap_args nargv pos cstart) (permute_cycle panonopt_end nnonopts nopts cstart n pos))"

definition permute_args :: "int \<Rightarrow> int \<Rightarrow> int \<Rightarrow> 'a list \<Rightarrow> 'a list result" where
  "permute_args panonopt_start panonopt_end opt_end nargv =
     (let nnonopts = panonopt_end - panonopt_start;
          nopts = opt_end - panonopt_end
      in bindr (c_gcd nnonopts nopts) (\<lambda>ncycle.
           let cyclelen = (opt_end - panonopt_start) sdiv ncycle
           in foldr_result (\<lambda>i. permute_cycle panonopt_end nnonopts nopts (panonopt_end + i)
                                 (nat cyclelen) (panonopt_end + i))
                (map int [0..<nat ncycle]) nargv))"

section \<open>Variables and option tables\<close>

text \<open>
  \<open>struct option\<close>; a flag is the address of an integer.  A table is an array
  that ends in an entry with a null name.
\<close>

record long_option =
  o_name :: "string option"
  o_has_arg :: int
  o_flag :: "nat option"
  o_val :: int

definition no_argument :: int where
  "no_argument = 0"

definition required_argument :: int where
  "required_argument = 1"

definition optional_argument :: int where
  "optional_argument = 2"

datatype getopt_flag = FLAG_PERMUTE | FLAG_ALLARGS | FLAG_LONGONLY

type_synonym pointer = "string \<times> nat"

definition EMSG :: pointer where
  "EMSG = ([], 0)"

record getopt_vars =
  opterr :: int
  optind :: int
  optopt :: int
  optreset :: int
  optarg :: "string option"
  place :: pointer
  nonopt_start :: int
  nonopt_end :: int
  posixly_correct :: int
  nargv :: "string option list"
  flag_mem :: "nat \<Rightarrow> int"
  longindex :: int
  warnings :: "string list"
  progname :: string

text \<open>The characters of a C string, and the part of it from a character on.\<close>

definition char_at :: "string \<Rightarrow> nat \<Rightarrow> char" where
  "char_at s i = (if i < length s then s ! i else NUL)"

definition deref :: "pointer \<Rightarrow> char" where
  "deref p = char_at (fst p) (snd p)"

definition advance :: "pointer \<Rightarrow> pointer" where
  "advance p = (fst p, Suc (snd p))"

definition pointed :: "pointer \<Rightarrow> string" where
  "pointed p = drop (snd p) (fst p)"

fun strchr :: "string \<Rightarrow> char \<Rightarrow> string option" where
  "strchr [] c = (if c = NUL then Some [] else None)"
| "strchr (d # s) c = (if d = c then Some (d # s) else strchr s c)"

text \<open>A character as \<open>int\<close>; \<open>char\<close> is signed.\<close>

definition char_int :: "char \<Rightarrow> int" where
  "char_int c = (let n = int (of_char c) in if 128 \<le> n then n - 256 else n)"

definition arg_at :: "getopt_vars \<Rightarrow> int \<Rightarrow> string result" where
  "arg_at st i = bindr (fetch (nargv st) i) (\<lambda>p. case p of None \<Rightarrow> Inl NullDeref | Some w \<Rightarrow> Inr w)"

definition BADCH :: int where
  "BADCH = char_int CHR ''?''"

definition BADARG :: "string \<Rightarrow> int" where
  "BADARG options = (if char_at options 0 = CHR '':'' then char_int CHR '':'' else char_int CHR ''?'')"

definition INORDER :: int where
  "INORDER = 1"

definition warnx :: "string \<Rightarrow> string \<Rightarrow> getopt_vars \<Rightarrow> getopt_vars" where
  "warnx options msg st =
     (if opterr st \<noteq> 0 \<and> char_at options 0 \<noteq> CHR '':''
      then st\<lparr>warnings := warnings st @ [progname st @ '': '' @ msg @ [CHR 0x0A]]\<rparr> else st)"

section \<open>Long options\<close>

text \<open>
  The search through the table: the index of the match, or -1, and whether it
  is ambiguous.  A table that ends without a null name is read beyond its end.
\<close>

definition identical_interpretation :: "long_option \<Rightarrow> long_option \<Rightarrow> bool" where
  "identical_interpretation x y \<longleftrightarrow> o_has_arg x = o_has_arg y \<and> o_flag x = o_flag y \<and> o_val x = o_val y"

fun find_long ::
  "string \<Rightarrow> nat \<Rightarrow> bool \<Rightarrow> long_option list \<Rightarrow> nat \<Rightarrow> long_option list \<Rightarrow> int \<Rightarrow> bool \<Rightarrow> (int \<times> bool) result" where
  "find_long current_argv len short_too long_options i [] match ambiguous = Inl OutOfBounds"
| "find_long current_argv len short_too long_options i (x # rest) match ambiguous =
     (case o_name x of
        None \<Rightarrow> Inr (match, ambiguous)
      | Some name \<Rightarrow>
          if \<not> strncmp_eq current_argv name len
          then find_long current_argv len short_too long_options (Suc i) rest match ambiguous
          else if length name = len then Inr (int i, False)
          else if short_too \<and> len = 1
          then find_long current_argv len short_too long_options (Suc i) rest match ambiguous
          else if match = -1
          then find_long current_argv len short_too long_options (Suc i) rest (int i) ambiguous
          else find_long current_argv len short_too long_options (Suc i) rest match
                 (ambiguous \<or> \<not> identical_interpretation x (long_options ! nat match)))"

definition set_optopt :: "long_option \<Rightarrow> getopt_vars \<Rightarrow> getopt_vars" where
  "set_optopt x st = st\<lparr>optopt := (if o_flag x = None then o_val x else 0)\<rparr>"

definition parse_long_options ::
  "string \<Rightarrow> long_option list \<Rightarrow> bool \<Rightarrow> bool \<Rightarrow> getopt_vars \<Rightarrow> (int \<times> getopt_vars) result" where
  "parse_long_options options long_options idx short_too st =
     (let current_argv = pointed (place st);
          has_equal = strchr current_argv CHR ''='';
          len = (case has_equal of None \<Rightarrow> length current_argv | Some t \<Rightarrow> length current_argv - length t);
          named = take len current_argv;
          st = st\<lparr>optind := optind st + 1\<rparr>
      in bindr (find_long current_argv len short_too long_options 0 long_options (-1) False) (\<lambda>(match, ambiguous).
           if ambiguous
           then Inr (BADCH, (warnx options (''ambiguous option -- '' @ named) st)\<lparr>optopt := 0\<rparr>)
           else if match \<noteq> -1 then
             (let x = long_options ! nat match in
              if o_has_arg x = no_argument \<and> has_equal \<noteq> None
              then Inr (BADARG options,
                        set_optopt x (warnx options (''option doesn't take an argument -- '' @ named) st))
              else
                bindr (if o_has_arg x = required_argument \<or> o_has_arg x = optional_argument then
                         (case has_equal of
                            Some t \<Rightarrow> Inr (st\<lparr>optarg := Some (tl t)\<rparr>)
                          | None \<Rightarrow>
                              if o_has_arg x = required_argument
                              then bindr (fetch (nargv st) (optind st)) (\<lambda>a.
                                     Inr (st\<lparr>optarg := a, optind := optind st + 1\<rparr>))
                              else Inr st)
                       else Inr st) (\<lambda>st.
                  if o_has_arg x = required_argument \<and> optarg st = None
                  then Inr (BADARG options,
                            (set_optopt x (warnx options (''option requires an argument -- '' @ current_argv) st))
                              \<lparr>optind := optind st - 1\<rparr>)
                  else
                    let st = (if idx then st\<lparr>longindex := match\<rparr> else st)
                    in case o_flag x of
                         Some p \<Rightarrow> Inr (0, st\<lparr>flag_mem := (flag_mem st)(p := o_val x)\<rparr>)
                       | None \<Rightarrow> Inr (o_val x, st)))
           else if short_too then Inr (-1, st\<lparr>optind := optind st - 1\<rparr>)
           else Inr (BADCH, (warnx options (''unknown option -- '' @ current_argv) st)\<lparr>optopt := 0\<rparr>)))"

section \<open>Short options\<close>

definition parse_short ::
  "int \<Rightarrow> string \<Rightarrow> long_option list option \<Rightarrow> bool \<Rightarrow> getopt_vars \<Rightarrow> (int \<times> getopt_vars) result" where
  "parse_short nargc options long_options idx st =
     (let c = deref (place st);
          optchar = char_int c;
          st = st\<lparr>place := advance (place st)\<rparr>;
          missing = (\<lambda>st. (BADARG options,
             (warnx options (''option requires an argument -- '' @ [c]) st)\<lparr>place := EMSG, optopt := optchar\<rparr>))
      in if c = CHR '':'' \<or> (c = CHR ''-'' \<and> deref (place st) \<noteq> NUL) \<or> strchr options c = None then
           if c = CHR ''-'' \<and> deref (place st) = NUL then Inr (-1, st)
           else
             let st = (if deref (place st) = NUL then st\<lparr>optind := optind st + 1\<rparr> else st)
             in Inr (BADCH, (warnx options (''unknown option -- '' @ [c]) st)\<lparr>optopt := optchar\<rparr>)
         else
           let oli = the (strchr options c) in
           if long_options \<noteq> None \<and> c = CHR ''W'' \<and> char_at oli 1 = CHR '';'' then
             if deref (place st) \<noteq> NUL then
               bindr (parse_long_options options (the long_options) idx False st) (\<lambda>(r, st). Inr (r, st\<lparr>place := EMSG\<rparr>))
             else
               let st = st\<lparr>optind := optind st + 1\<rparr> in
               if nargc \<le> optind st then Inr (missing st)
               else
                 bindr (arg_at st (optind st)) (\<lambda>w.
                   bindr (parse_long_options options (the long_options) idx False (st\<lparr>place := (w, 0)\<rparr>)) (\<lambda>(r, st).
                     Inr (r, st\<lparr>place := EMSG\<rparr>)))
           else if char_at oli 1 \<noteq> CHR '':''
           then Inr (optchar, if deref (place st) = NUL then st\<lparr>optind := optind st + 1\<rparr> else st)
           else if deref (place st) \<noteq> NUL
           then Inr (optchar, st\<lparr>optarg := Some (pointed (place st)), place := EMSG, optind := optind st + 1\<rparr>)
           else if char_at oli 2 \<noteq> CHR '':'' then
             let st = st\<lparr>optarg := None, optind := optind st + 1\<rparr> in
             if nargc \<le> optind st then Inr (missing st)
             else
               bindr (fetch (nargv st) (optind st)) (\<lambda>a.
                 Inr (optchar, st\<lparr>optarg := a, place := EMSG, optind := optind st + 1\<rparr>))
           else Inr (optchar, st\<lparr>optarg := None, place := EMSG, optind := optind st + 1\<rparr>))"

section \<open>The scan for the next option\<close>

text \<open>
  One turn of \<open>getopt_internal\<close> from the label \<open>start\<close>: it returns, goes on
  with the option \<open>place\<close> points at, or jumps back to the label.
\<close>

datatype scanned = Returns int getopt_vars | Option_at getopt_vars | Start_again getopt_vars

definition exchange :: "getopt_vars \<Rightarrow> string option list result" where
  "exchange st = permute_args (nonopt_start st) (nonopt_end st) (optind st) (nargv st)"

definition skipped :: "getopt_vars \<Rightarrow> int" where
  "skipped st = nonopt_end st - nonopt_start st"

text \<open>The end of the vector, a word that is no option, and a word that starts with a hyphen.\<close>

definition scan_end :: "getopt_vars \<Rightarrow> scanned result" where
  "scan_end st =
     (let st = st\<lparr>place := EMSG\<rparr> in
      bindr (if nonopt_end st \<noteq> -1
             then bindr (exchange st) (\<lambda>v. Inr (st\<lparr>nargv := v, optind := optind st - skipped st\<rparr>))
             else if nonopt_start st \<noteq> -1 then Inr (st\<lparr>optind := nonopt_start st\<rparr>)
             else Inr st) (\<lambda>st.
        Inr (Returns (-1) (st\<lparr>nonopt_start := -1, nonopt_end := -1\<rparr>))))"

definition scan_other :: "getopt_flag set \<Rightarrow> string \<Rightarrow> getopt_vars \<Rightarrow> scanned result" where
  "scan_other flags w st =
     (let st = st\<lparr>place := EMSG\<rparr> in
      if FLAG_ALLARGS \<in> flags
      then Inr (Returns INORDER (st\<lparr>optarg := Some w, optind := optind st + 1\<rparr>))
      else if FLAG_PERMUTE \<notin> flags then Inr (Returns (-1) st)
      else
        bindr (if nonopt_start st = -1 then Inr (st\<lparr>nonopt_start := optind st\<rparr>)
               else if nonopt_end st \<noteq> -1
               then bindr (exchange st) (\<lambda>v.
                      Inr (st\<lparr>nargv := v, nonopt_start := optind st - skipped st, nonopt_end := -1\<rparr>))
               else Inr st) (\<lambda>st.
          Inr (Start_again (st\<lparr>optind := optind st + 1\<rparr>))))"

definition scan_hyphen :: "string \<Rightarrow> getopt_vars \<Rightarrow> scanned result" where
  "scan_hyphen w st =
     (let st = st\<lparr>place := (w, 0)\<rparr>;
          st = (if nonopt_start st \<noteq> -1 \<and> nonopt_end st = -1 then st\<lparr>nonopt_end := optind st\<rparr> else st)
      in if char_at w 1 = NUL then Inr (Option_at st)
         else if char_at w 1 \<noteq> CHR ''-'' \<or> char_at w 2 \<noteq> NUL then Inr (Option_at (st\<lparr>place := (w, 1)\<rparr>))
         else
           let st = st\<lparr>optind := optind st + 1, place := EMSG\<rparr> in
           bindr (if nonopt_end st \<noteq> -1
                  then bindr (exchange st) (\<lambda>v. Inr (st\<lparr>nargv := v, optind := optind st - skipped st\<rparr>))
                  else Inr st) (\<lambda>st.
             Inr (Returns (-1) (st\<lparr>nonopt_start := -1, nonopt_end := -1\<rparr>))))"

definition scan_turn :: "int \<Rightarrow> string \<Rightarrow> getopt_flag set \<Rightarrow> getopt_vars \<Rightarrow> scanned result" where
  "scan_turn nargc options flags st =
     (if optreset st = 0 \<and> deref (place st) \<noteq> NUL then Inr (Option_at st)
      else
        let st = st\<lparr>optreset := 0\<rparr> in
        if nargc \<le> optind st then scan_end st
        else
          bindr (arg_at st (optind st)) (\<lambda>w.
            if char_at w 0 \<noteq> CHR ''-'' \<or> (char_at w 1 = NUL \<and> strchr options CHR ''-'' = None)
            then scan_other flags w st else scan_hyphen w st))"

lemma scan_turn_again:
  assumes "scan_turn nargc options flags st = Inr (Start_again st')"
  shows "optind st < nargc \<and> optind st' = optind st + 1"
  using assms by (auto simp: scan_turn_def scan_end_def scan_other_def scan_hyphen_def Let_def bindr_eq_Inr_iff
      split: if_split_asm)

section \<open>The interface\<close>

text \<open>
  \<open>posix_env\<close>: whether the environment has \<open>POSIXLY_CORRECT\<close>; \<open>idx\<close>: whether
  the caller passed a place for the index of a long option.
\<close>

definition same_pointer :: "pointer \<Rightarrow> string option \<Rightarrow> bool" where
  "same_pointer p a \<longleftrightarrow> snd p = 0 \<and> a = Some (fst p)"

definition parse_option ::
  "int \<Rightarrow> string \<Rightarrow> long_option list option \<Rightarrow> bool \<Rightarrow> getopt_flag set \<Rightarrow> getopt_vars \<Rightarrow> (int \<times> getopt_vars) result" where
  "parse_option nargc options long_options idx flags st =
     (case long_options of
        None \<Rightarrow> parse_short nargc options long_options idx st
      | Some table \<Rightarrow>
          bindr (fetch (nargv st) (optind st)) (\<lambda>a.
            if \<not> same_pointer (place st) a \<and> (deref (place st) = CHR ''-'' \<or> FLAG_LONGONLY \<in> flags) then
              let dash = (deref (place st) = CHR ''-'');
                  short_too = (\<not> dash \<and> deref (place st) \<noteq> CHR '':'' \<and> strchr options (deref (place st)) \<noteq> None);
                  st = (if dash then st\<lparr>place := advance (place st)\<rparr> else st)
              in bindr (parse_long_options options table idx short_too st) (\<lambda>(optchar, st).
                   if optchar \<noteq> -1 then Inr (optchar, st\<lparr>place := EMSG\<rparr>)
                   else parse_short nargc options long_options idx st)
            else parse_short nargc options long_options idx st))"

function getopt_from_start ::
  "int \<Rightarrow> string \<Rightarrow> long_option list option \<Rightarrow> bool \<Rightarrow> getopt_flag set \<Rightarrow> getopt_vars \<Rightarrow> (int \<times> getopt_vars) result" where
  "getopt_from_start nargc options long_options idx flags st =
     bindr (scan_turn nargc options flags st) (\<lambda>r.
       case r of
         Returns v st \<Rightarrow> Inr (v, st)
       | Option_at st \<Rightarrow> parse_option nargc options long_options idx flags st
       | Start_again st \<Rightarrow> getopt_from_start nargc options long_options idx flags st)"
  by pat_completeness auto
termination
  by (relation "measure (\<lambda>(nargc, options, long_options, idx, flags, st). nat (nargc - optind st))")
    (auto dest!: scan_turn_again)

declare getopt_from_start.simps [simp del]

definition getopt_internal ::
  "bool \<Rightarrow> int \<Rightarrow> string option \<Rightarrow> long_option list option \<Rightarrow> bool \<Rightarrow> getopt_flag set \<Rightarrow> getopt_vars \<Rightarrow>
   (int \<times> getopt_vars) result" where
  "getopt_internal posix_env nargc options long_options idx flags st =
     (case options of
        None \<Rightarrow> Inr (-1, st)
      | Some options \<Rightarrow>
          let st = (if optind st = 0 then st\<lparr>optind := 1, optreset := 1\<rparr> else st);
              st = (if posixly_correct st = -1 \<or> optreset st \<noteq> 0
                    then st\<lparr>posixly_correct := (if posix_env then 1 else 0)\<rparr> else st);
              flags = (if char_at options 0 = CHR ''-'' then insert FLAG_ALLARGS flags
                       else if posixly_correct st \<noteq> 0 \<or> char_at options 0 = CHR ''+'' then flags - {FLAG_PERMUTE}
                       else flags);
              options = (if char_at options 0 = CHR ''+'' \<or> char_at options 0 = CHR ''-'' then tl options else options);
              st = st\<lparr>optarg := None\<rparr>;
              st = (if optreset st \<noteq> 0 then st\<lparr>nonopt_start := -1, nonopt_end := -1\<rparr> else st)
          in getopt_from_start nargc options long_options idx flags st)"

definition getopt :: "bool \<Rightarrow> int \<Rightarrow> string option \<Rightarrow> getopt_vars \<Rightarrow> (int \<times> getopt_vars) result" where
  "getopt posix_env nargc options = getopt_internal posix_env nargc options None False {}"

definition getopt_long ::
  "bool \<Rightarrow> int \<Rightarrow> string option \<Rightarrow> long_option list option \<Rightarrow> bool \<Rightarrow> getopt_vars \<Rightarrow> (int \<times> getopt_vars) result" where
  "getopt_long posix_env nargc options long_options idx =
     getopt_internal posix_env nargc options long_options idx {FLAG_PERMUTE}"

definition getopt_long_only ::
  "bool \<Rightarrow> int \<Rightarrow> string option \<Rightarrow> long_option list option \<Rightarrow> bool \<Rightarrow> getopt_vars \<Rightarrow> (int \<times> getopt_vars) result" where
  "getopt_long_only posix_env nargc options long_options idx =
     getopt_internal posix_env nargc options long_options idx {FLAG_PERMUTE, FLAG_LONGONLY}"

text \<open>The variables when the program starts.\<close>

definition getopt_start :: "string list \<Rightarrow> getopt_vars" where
  "getopt_start words =
     \<lparr>opterr = 1, optind = 1, optopt = char_int CHR ''?'', optreset = 0, optarg = None, place = EMSG,
      nonopt_start = -1, nonopt_end = -1, posixly_correct = -1, nargv = map Some words @ [None],
      flag_mem = (\<lambda>_. 0), longindex = 0, warnings = [], progname = (case words of [] \<Rightarrow> [] | w # _ \<Rightarrow> w)\<rparr>"

end
