(* ===== verification/Getopt_Order.thy ===== *)
theory Getopt_Order
  imports Getopt
begin

text \<open>
  \<open>permute_args\<close> exchanges two neighbouring blocks of the argument vector:
  every cycle it walks moves the arguments of one residue class modulo the
  greatest common divisor of the lengths to the places they belong.
\<close>

section \<open>The greatest common divisor\<close>

lemma c_gcd_gcd: "0 \<le> a \<Longrightarrow> 0 < b \<Longrightarrow> c_gcd a b = Inr (gcd a b)"
proof (induction a b rule: c_gcd.induct)
  case (1 a b)
  have sm: "a smod b = a mod b" using 1(2,3) by (simp add: signed_modulo_int_def sgn_if)
  have nn: "0 \<le> a mod b" using 1(3) by simp
  show ?case
  proof (cases "a mod b = 0")
    case True
    then have "gcd a b = b" using 1(3) by (simp add: gcd_proj2_if_dvd_int mod_0_imp_dvd)
    with True sm 1(3) show ?thesis by (subst c_gcd.simps) simp
  next
    case False
    then have "c_gcd b (a mod b) = Inr (gcd b (a mod b))"
      using 1 sm nn by simp
    moreover have "gcd b (a mod b) = gcd a b" using 1(3) by (simp add: gcd_non_0_int)
    ultimately show ?thesis using False sm 1(3) by (subst c_gcd.simps) simp
  qed
qed

section \<open>One cycle\<close>

text \<open>The position after \<open>t\<close> turns of the inner loop, in blocks of lengths \<open>a\<close> and \<open>b\<close> from \<open>s\<close> on.\<close>

definition cycle_pos :: "int \<Rightarrow> int \<Rightarrow> int \<Rightarrow> int \<Rightarrow> int \<Rightarrow> int" where
  "cycle_pos s a b i t = s + (a + i - t * a) mod (a + b)"

text \<open>Where the argument that belongs to position \<open>p\<close> comes from.\<close>

definition origin :: "int \<Rightarrow> int \<Rightarrow> int \<Rightarrow> int \<Rightarrow> int" where
  "origin s a b p = s + (p - s + a) mod (a + b)"

lemma cycle_pos_range: "0 < a + b \<Longrightarrow> s \<le> cycle_pos s a b i t \<and> cycle_pos s a b i t < s + (a + b)"
  by (simp add: cycle_pos_def)

lemma cycle_pos_0: "0 < a \<Longrightarrow> 0 \<le> i \<Longrightarrow> i < b \<Longrightarrow> cycle_pos s a b i 0 = s + a + i"
  by (simp add: cycle_pos_def)

lemma cycle_pos_next:
  assumes "0 < a" "0 < b" "p = cycle_pos s a b i t"
  shows "(if s + a \<le> p then p - a else p + b) = cycle_pos s a b i (t + 1)"
proof -
  define r where "r = (a + i - t * a) mod (a + b)"
  have "(a + i - (t + 1) * a) mod (a + b) = (r - a) mod (a + b)"
    by (simp add: r_def mod_diff_left_eq algebra_simps)
  also have "\<dots> = (if a \<le> r then r - a else r + b)"
  proof (cases "a \<le> r")
    case True
    have "r < a + b" using assms by (simp add: r_def)
    then show ?thesis using True assms by simp
  next
    case False
    have "0 \<le> r" using assms by (simp add: r_def)
    have "(r - a) mod (a + b) = (r - a + (a + b)) mod (a + b)" by (rule mod_add_self2 [symmetric])
    also have "\<dots> = r + b" using False \<open>0 \<le> r\<close> assms by simp
    finally show ?thesis using False by simp
  qed
  finally show ?thesis using assms(3) by (auto simp: cycle_pos_def r_def)
qed

lemma origin_cycle_pos: "origin s a b (cycle_pos s a b i (t + 1)) = cycle_pos s a b i t"
proof -
  have "((a + i - (t + 1) * a) mod (a + b) + a) mod (a + b) = (a + i - (t + 1) * a + a) mod (a + b)"
    by (rule mod_add_left_eq)
  then show ?thesis by (simp add: origin_def cycle_pos_def algebra_simps)
qed

lemma cycle_closes:
  fixes a b :: int
  assumes "0 < a" "0 < b" "L = (a + b) div gcd a b"
  shows "cycle_pos s a b i t = cycle_pos s a b i u \<longleftrightarrow> L dvd (t - u)" "0 < L"
proof -
  define g where "g = gcd a b"
  have g: "0 < g" "g dvd a" "g dvd a + b" using assms by (auto simp: g_def)
  then obtain a' where a': "a = g * a'" by blast
  have N: "a + b = g * L" using g(3) unfolding assms(3) g_def by (rule dvd_mult_div_cancel [symmetric])
  show pos: "0 < L" using N g(1) assms by (metis add_pos_pos zero_less_mult_pos)
  have "gcd a (a + b) = g" by (simp add: g_def)
  then have "gcd (g * a') (g * L) = g" by (simp only: N a' [symmetric])
  then have "g * gcd a' L = g" using g(1) gcd_mult_distrib_int [of g a' L] by simp
  then have cop: "coprime a' L" using g(1) by (simp add: coprime_iff_gcd_eq_1)
  have "cycle_pos s a b i t = cycle_pos s a b i u \<longleftrightarrow> (a + b) dvd ((a + i - t * a) - (a + i - u * a))"
    by (simp add: cycle_pos_def mod_eq_dvd_iff)
  also have "(a + i - t * a) - (a + i - u * a) = - ((t - u) * a)" by (simp add: algebra_simps)
  also have "(t - u) * a = g * ((t - u) * a')" by (simp add: a')
  also have "(a + b) dvd - (g * ((t - u) * a')) \<longleftrightarrow> g * L dvd g * ((t - u) * a')"
    by (simp only: dvd_minus_iff N)
  also have "\<dots> \<longleftrightarrow> L dvd (t - u) * a'" using g(1) by simp
  also have "\<dots> \<longleftrightarrow> L dvd (t - u)" using cop by (simp add: coprime_commute coprime_dvd_mult_left_iff)
  finally show "cycle_pos s a b i t = cycle_pos s a b i u \<longleftrightarrow> L dvd (t - u)" .
qed

lemma cycle_covers:
  fixes a b :: int
  assumes "0 < a" "0 < b" "0 \<le> i" "i < gcd a b" "s \<le> p" "p < s + (a + b)" "L = (a + b) div gcd a b"
  shows "(\<exists>t. 1 \<le> t \<and> t \<le> L \<and> p = cycle_pos s a b i t) \<longleftrightarrow> (p - s) mod gcd a b = i"
proof -
  define g where "g = gcd a b"
  have g: "0 < g" "g dvd a" "g dvd a + b" using assms by (auto simp: g_def)
  have N: "a + b = g * L" using g(3) unfolding assms(7) g_def by (rule dvd_mult_div_cancel [symmetric])
  have L: "0 < L" using cycle_closes(2) [OF assms(1,2,7)] .
  have "(p - s) mod g = i" if "p = cycle_pos s a b i t" for t
  proof -
    obtain c where c: "a = g * c" using g(2) by blast
    have "(p - s) mod g = (a + i - t * a) mod g" using that g(3) by (simp add: cycle_pos_def mod_mod_cancel)
    also have "\<dots> = (i + g * (c * (1 - t))) mod g" by (simp add: c algebra_simps)
    also have "\<dots> = i mod g" by (rule mod_mult_self2)
    finally show ?thesis using assms(3,4) by (simp add: g_def)
  qed
  moreover have "\<exists>t. 1 \<le> t \<and> t \<le> L \<and> p = cycle_pos s a b i t" if "(p - s) mod g = i"
  proof -
    define k where "k = (p - s) div g"
    have p: "p - s = i + k * g" using that by (metis k_def mult.commute mod_mult_div_eq)
    obtain u v where uv: "u * a + v * (a + b) = g"
      using bezout_int [of a "a + b"] by (auto simp: g_def gcd.commute)
    define m where "m = (- (k * u)) mod L"
    define t where "t = 1 + m"
    have m: "0 \<le> m" "m < L" using L by (simp_all add: m_def)
    define q where "q = - ((- (k * u)) div L)"
    have q: "m = - (k * u) + L * q" by (simp add: m_def q_def minus_mult_div_eq_mod [symmetric])
    obtain a' where a': "a = g * a'" using g(2) by blast
    have "a + i - t * a = i - m * a" by (simp add: t_def algebra_simps)
    also have "\<dots> = i + k * (u * a) - q * a' * (g * L)" by (simp add: q a' algebra_simps)
    also have "\<dots> = i + k * (u * a) - q * a' * (a + b)" by (simp only: N)
    also have "\<dots> = i + k * (u * a + v * (a + b)) + (- (k * v) - q * a') * (a + b)" by (simp add: algebra_simps)
    also have "\<dots> = (i + k * g) + (- (k * v) - q * a') * (a + b)" by (simp only: uv)
    finally have "(a + i - t * a) mod (a + b) = (i + k * g) mod (a + b)" by (simp only: mod_mult_self1)
    also have "\<dots> = p - s" using p assms(5,6) by simp
    finally have "p = cycle_pos s a b i t" by (simp add: cycle_pos_def)
    then show ?thesis using m by (intro exI [of _ t]) (simp add: t_def)
  qed
  ultimately show ?thesis by (auto simp: g_def)
qed

text \<open>The vector \<open>A\<close> after \<open>j\<close> turns: the arguments moved so far, and what the first position holds.\<close>

definition visited :: "int \<Rightarrow> int \<Rightarrow> int \<Rightarrow> int \<Rightarrow> int \<Rightarrow> int \<Rightarrow> bool" where
  "visited s a b i j p \<longleftrightarrow> (\<exists>t. 1 \<le> t \<and> t \<le> j \<and> p = cycle_pos s a b i t)"

definition cycle_value :: "int \<Rightarrow> int \<Rightarrow> int \<Rightarrow> int \<Rightarrow> 'a list \<Rightarrow> nat \<Rightarrow> int \<Rightarrow> 'a" where
  "cycle_value s a b i A j p =
     (if visited s a b i (int j) p then A ! nat (origin s a b p)
      else if p = cycle_pos s a b i 0 then A ! nat (cycle_pos s a b i (int j))
      else A ! nat p)"

definition cycle_after :: "int \<Rightarrow> int \<Rightarrow> int \<Rightarrow> int \<Rightarrow> 'a list \<Rightarrow> nat \<Rightarrow> 'a list" where
  "cycle_after s a b i A j = map (\<lambda>k. cycle_value s a b i A j (int k)) [0..<length A]"

lemma length_cycle_after [simp]: "length (cycle_after s a b i A j) = length A"
  by (simp add: cycle_after_def)

lemma cycle_after_nth:
  "0 \<le> p \<Longrightarrow> p < int (length A) \<Longrightarrow> cycle_after s a b i A j ! nat p = cycle_value s a b i A j p"
  by (simp add: cycle_after_def nat_less_iff)

lemma visited_0: "\<not> visited s a b i 0 p"
  by (auto simp: visited_def)

lemma cycle_after_0: "cycle_after s a b i A 0 = A"
  by (rule nth_equalityI) (auto simp: cycle_after_def cycle_value_def visited_0 dest!: sym [of "int _"])

lemma visited_Suc: "visited s a b i (int (Suc j)) p \<longleftrightarrow> p = cycle_pos s a b i (int (Suc j)) \<or> visited s a b i (int j) p"
proof -
  have "1 \<le> t \<and> t \<le> int (Suc j) \<longleftrightarrow> t = int (Suc j) \<or> 1 \<le> t \<and> t \<le> int j" for t by auto
  then show ?thesis unfolding visited_def by metis
qed

lemma swap_args_Inr:
  "0 \<le> p \<Longrightarrow> p < int (length A) \<Longrightarrow> 0 \<le> c \<Longrightarrow> c < int (length A) \<Longrightarrow>
   swap_args A p c = Inr (A[nat p := A ! nat c, nat c := A ! nat p])"
  by (simp add: swap_args_def fetch_def)

lemma cycle_turn:
  assumes ab: "0 < a" "0 < b" and L: "L = (a + b) div gcd a b" and j: "int (Suc j) \<le> L"
    and s: "0 \<le> s" "s + (a + b) \<le> int (length A)"
  shows "swap_args (cycle_after s a b i A j) (cycle_pos s a b i (int (Suc j))) (cycle_pos s a b i 0) =
    Inr (cycle_after s a b i A (Suc j))"
proof -
  let ?pos = "cycle_pos s a b i" and ?v = "cycle_value s a b i A"
  define p c where "p = ?pos (int (Suc j))" and "c = ?pos 0"
  note closes = cycle_closes(1) [OF ab L, of s i]
  have range: "0 \<le> ?pos t" "?pos t < int (length A)" for t
    using cycle_pos_range [of a b s i t] ab s by auto
  have same: "?pos t = ?pos u \<longleftrightarrow> t = u" if "\<bar>t - u\<bar> < L" for t u
    using that zdvd_not_zless [of "\<bar>t - u\<bar>" L] by (auto simp: closes)
  have fresh: "\<not> visited s a b i (int j) p"
    using same j by (auto simp: visited_def p_def)
  have first: "\<not> visited s a b i (int j) c"
    using same j by (auto simp: visited_def c_def)
  have frm: "A ! nat (origin s a b p) = A ! nat (?pos (int j))"
    using origin_cycle_pos [of s a b i "int j"] by (simp add: p_def add.commute)
  have vc: "?v j c = A ! nat (?pos (int j))" using first by (simp add: cycle_value_def c_def)
  have vp: "?v j p = (if p = c then A ! nat (?pos (int j)) else A ! nat p)"
    using fresh by (simp add: cycle_value_def c_def)
  have new: "?v (Suc j) q = (if q = p \<or> visited s a b i (int j) q then A ! nat (origin s a b q)
      else if q = c then A ! nat p else A ! nat q)" for q
    by (simp only: cycle_value_def visited_Suc p_def [symmetric] c_def [symmetric])
  have old: "?v j q = (if visited s a b i (int j) q then A ! nat (origin s a b q)
      else if q = c then A ! nat (?pos (int j)) else A ! nat q)" for q
    by (simp only: cycle_value_def c_def [symmetric])
  have "?v (Suc j) q = (if q = c then ?v j p else if q = p then ?v j c else ?v j q)" for q
  proof (cases "q = c \<or> q = p")
    case True
    then show ?thesis using new [of q] vc vp frm first by auto
  next
    case False
    then show ?thesis using new [of q] old [of q] by simp
  qed
  moreover have "(cycle_after s a b i A j)[nat p := ?v j c, nat c := ?v j p] ! k =
      (if int k = c then ?v j p else if int k = p then ?v j c else ?v j (int k))" if "k < length A" for k
  proof -
    have "nat p = k \<longleftrightarrow> int k = p" "nat c = k \<longleftrightarrow> int k = c"
      using range by (metis p_def int_nat_eq nat_int, metis c_def int_nat_eq nat_int)
    then show ?thesis using that by (simp add: nth_list_update cycle_after_def)
  qed
  ultimately have "(cycle_after s a b i A j)[nat p := ?v j c, nat c := ?v j p] = cycle_after s a b i A (Suc j)"
    by (intro nth_equalityI) (simp_all add: cycle_after_def)
  then show ?thesis using range by (simp add: swap_args_Inr cycle_after_nth p_def c_def)
qed

lemma permute_cycle_turns:
  assumes ab: "0 < a" "0 < b" and L: "L = (a + b) div gcd a b" and s: "0 \<le> s" "s + (a + b) \<le> int (length A)"
  shows "int (j + n) \<le> L \<Longrightarrow>
    permute_cycle (s + a) a b (cycle_pos s a b i 0) n (cycle_pos s a b i (int j)) (cycle_after s a b i A j) =
    Inr (cycle_after s a b i A (j + n))"
proof (induction n arbitrary: j)
  case (Suc n)
  have "int (Suc j) \<le> L" using Suc.prems by simp
  note turn = cycle_turn [OF ab L this s, of i]
  have "permute_cycle (s + a) a b (cycle_pos s a b i 0) (Suc n) (cycle_pos s a b i (int j)) (cycle_after s a b i A j) =
      permute_cycle (s + a) a b (cycle_pos s a b i 0) n (cycle_pos s a b i (int (Suc j))) (cycle_after s a b i A (Suc j))"
    using turn cycle_pos_next [OF ab refl, of s i "int j"]
    by (simp only: permute_cycle.simps Let_def bindr_Inr) (simp add: add.commute)
  then show ?case using Suc.IH [of "Suc j"] Suc.prems by simp
qed simp

section \<open>All cycles\<close>

text \<open>The vector when the cycles below \<open>n\<close> are done.\<close>

definition classes_done :: "int \<Rightarrow> int \<Rightarrow> int \<Rightarrow> 'a list \<Rightarrow> int \<Rightarrow> 'a list" where
  "classes_done s a b A n =
     map (\<lambda>k. let p = int k in
            if s \<le> p \<and> p < s + (a + b) \<and> (p - s) mod gcd a b < n then A ! nat (origin s a b p) else A ! k)
       [0..<length A]"

lemma cycle_of_class:
  assumes ab: "0 < a" "0 < b" and i: "0 \<le> i" "i < gcd a b" and L: "L = (a + b) div gcd a b"
    and s: "0 \<le> s" "s + (a + b) \<le> int (length A)"
  shows "permute_cycle (s + a) a b (s + a + i) (nat L) (s + a + i) (classes_done s a b A i) =
    Inr (classes_done s a b A (i + 1))"
proof -
  let ?B = "classes_done s a b A i" and ?pos = "cycle_pos s a b i"
  have "gcd a b \<le> b" using ab by (simp add: zdvd_imp_le)
  with i have "i < b" by simp
  then have p0: "?pos 0 = s + a + i" by (rule cycle_pos_0 [OF ab(1) i(1)])
  have Lpos: "0 < L" using cycle_closes(2) [OF ab L] .
  then have iL: "int (nat L) = L" by simp
  have len: "length ?B = length A" by (simp add: classes_done_def)
  have "permute_cycle (s + a) a b (?pos 0) (nat L) (?pos 0) ?B = Inr (cycle_after s a b i ?B (nat L))"
    using permute_cycle_turns [OF ab L, of s ?B 0 "nat L" i] s len Lpos by (simp add: cycle_after_0)
  moreover have "cycle_after s a b i ?B (nat L) = classes_done s a b A (i + 1)"
  proof (rule nth_equalityI)
    fix k assume "k < length (cycle_after s a b i ?B (nat L))"
    then have k: "k < length A" by (simp add: len)
    have B: "?B ! nat q = (if s \<le> q \<and> q < s + (a + b) \<and> (q - s) mod gcd a b < i then A ! nat (origin s a b q) else A ! nat q)"
      if "0 \<le> q" "q < int (length A)" for q
      using that by (simp add: classes_done_def nat_less_iff Let_def)
    have vis: "visited s a b i L p \<longleftrightarrow> (p - s) mod gcd a b = i" if "s \<le> p" "p < s + (a + b)" for p
      using cycle_covers [OF ab i that L] Lpos by (simp add: visited_def)
    have inside: "s \<le> p \<and> p < s + (a + b)" if "visited s a b i L p" for p
      using that cycle_pos_range [of a b s i] ab by (auto simp: visited_def)
    define p where "p = int k"
    have val: "cycle_after s a b i ?B (nat L) ! k = cycle_value s a b i ?B (nat L) p"
      using k by (simp add: cycle_after_def len p_def)
    show "cycle_after s a b i ?B (nat L) ! k = classes_done s a b A (i + 1) ! k"
    proof (cases "visited s a b i L p")
      case True
      define q where "q = origin s a b p"
      have g: "gcd a b dvd a" "gcd a b dvd a + b" by simp_all
      have q: "s \<le> q" "q < s + (a + b)" using ab by (simp_all add: q_def origin_def)
      have "(q - s) mod gcd a b = (p - s + a) mod gcd a b"
        using g(2) by (simp add: q_def origin_def mod_mod_cancel)
      also have "\<dots> = (p - s) mod gcd a b" using g(1) by (metis add.right_neutral dvd_imp_mod_0 mod_add_right_eq)
      finally have "(q - s) mod gcd a b = i" using True vis [of p] inside [of p] by simp
      then have "?B ! nat q = A ! nat q" using B [of q] q s by simp
      then have "cycle_after s a b i ?B (nat L) ! k = A ! nat q"
        using True by (simp only: val cycle_value_def iL q_def if_True)
      moreover have "classes_done s a b A (i + 1) ! k = A ! nat q"
        using True vis [of p] inside [of p] k by (simp add: q_def classes_done_def p_def)
      ultimately show ?thesis by simp
    next
      case False
      have "visited s a b i L (?pos 0)"
        unfolding visited_def using Lpos cycle_closes(1) [OF ab L, of s i 0 L] by (intro exI [of _ L]) simp
      then have "p \<noteq> ?pos 0" using False by blast
      then have "cycle_after s a b i ?B (nat L) ! k = ?B ! nat p" using False by (simp only: val cycle_value_def iL if_False)
      then show ?thesis
        using False vis [of p] k by (auto simp: classes_done_def p_def Let_def)
    qed
  qed (simp add: classes_done_def)
  ultimately show ?thesis by (simp add: p0)
qed

lemma permute_cycles:
  assumes ab: "0 < a" "0 < b" and L: "L = (a + b) div gcd a b"
    and s: "0 \<le> s" "s + (a + b) \<le> int (length A)"
  shows "n \<le> nat (gcd a b) \<Longrightarrow>
    foldr_result (\<lambda>i. permute_cycle (s + a) a b (s + a + i) (nat L) (s + a + i)) (map int [0..<n]) A =
    Inr (classes_done s a b A (int n))"
proof (induction n)
  case 0
  have "classes_done s a b A 0 = A"
    using pos_mod_sign [of "gcd a b"] ab
    by (intro nth_equalityI) (auto simp: classes_done_def not_less [symmetric] Let_def)
  then show ?case by simp
next
  case (Suc n)
  then have "0 \<le> int n" "int n < gcd a b" by simp_all
  from cycle_of_class [OF ab this L s] Suc show ?case
    by (simp add: foldr_result_append add.commute)
qed

lemma permute_args_blocks:
  assumes "xs \<noteq> []" "ys \<noteq> []"
  shows "permute_args (int (length pre)) (int (length (pre @ xs))) (int (length (pre @ xs @ ys))) (pre @ xs @ ys @ post) =
    Inr (pre @ ys @ xs @ post)"
proof -
  define s a b A where "s = int (length pre)" and "a = int (length xs)" and "b = int (length ys)"
    and "A = pre @ xs @ ys @ post"
  have ab: "0 < a" "0 < b" and s: "0 \<le> s" "s + (a + b) \<le> int (length A)"
    using assms by (simp_all add: a_def b_def s_def A_def)
  have "0 < gcd a b" using ab by simp
  then have "permute_args s (s + a) (s + (a + b)) A = Inr (classes_done s a b A (gcd a b))"
    using permute_cycles [OF ab refl s order_refl] ab c_gcd_gcd [of a b]
    by (simp add: permute_args_def Let_def signed_divide_int_def sgn_if)
  moreover have "classes_done s a b A (gcd a b) = pre @ ys @ xs @ post"
  proof (rule nth_equalityI)
    fix k assume "k < length (classes_done s a b A (gcd a b))"
    then have k: "k < length A" by (simp add: classes_done_def)
    have "classes_done s a b A (gcd a b) ! k =
        (if length pre \<le> k \<and> k < length (pre @ xs @ ys) then A ! nat (origin s a b (int k)) else A ! k)"
      using k \<open>0 < gcd a b\<close> by (auto simp: classes_done_def Let_def s_def a_def b_def)
    also have "\<dots> = (pre @ ys @ xs @ post) ! k"
    proof (cases "length pre \<le> k \<and> k < length (pre @ xs @ ys)")
      case True
      define r where "r = k - length pre"
      have r: "k = length pre + r" "r < length xs + length ys" using True by (auto simp: r_def)
      have "origin s a b (int k) = int (length pre + (r + length xs) mod (length xs + length ys))"
        by (simp add: origin_def s_def a_def b_def r zmod_int)
      moreover have "(r + length xs) mod (length xs + length ys) =
          (if r < length ys then r + length xs else r - length ys)"
        using r le_mod_geq [of "length xs + length ys" "r + length xs"] by simp
      ultimately have "A ! nat (origin s a b (int k)) =
          A ! (length pre + (if r < length ys then r + length xs else r - length ys))"
        by (simp only: nat_int)
      also have "\<dots> = (ys @ xs) ! r"
      proof (cases "r < length ys")
        case True
        then show ?thesis by (simp add: A_def nth_append)
      next
        case False
        then obtain d where d: "r = length ys + d" using le_Suc_ex not_less by blast
        then have "d < length xs" using r(2) by simp
        with d show ?thesis by (simp add: A_def nth_append)
      qed
      also have "\<dots> = (pre @ (ys @ xs) @ post) ! k"
        using r(2) nth_append_left [of r "ys @ xs" post] by (simp add: r(1))
      finally show ?thesis using True by simp
    next
      case False
      then show ?thesis by (auto simp: A_def nth_append ac_simps)
    qed
    finally show "classes_done s a b A (gcd a b) ! k = (pre @ ys @ xs @ post) ! k" .
  qed (simp add: classes_done_def A_def)
  ultimately show ?thesis by (simp add: s_def a_def b_def A_def add.assoc)
qed

text \<open>
  C10: \<open>permute_args\<close> exchanges two neighbouring blocks of the argument
  vector, keeping the order within each and everything else in place.
\<close>

theorem permute_args_exchanges:
  assumes "xs \<noteq> []" "ys \<noteq> []"
  shows "permute_args (int (length pre)) (int (length (pre @ xs))) (int (length (pre @ xs @ ys))) (pre @ xs @ ys @ post) =
    Inr (pre @ ys @ xs @ post)"
  using assms by (rule permute_args_blocks)

theorem permute_args_exchanges_witness:
  "permute_args 1 3 4 [''prog'', ''a'', ''b'', ''-v'', ''c''] = Inr [''prog'', ''-v'', ''a'', ''b'', ''c'']"
  using permute_args_exchanges [of "[''a'', ''b'']" "[''-v'']" "[''prog'']" "[''c'']"] by simp

end
