(* ===== verification/Getopt_Calls.thy ===== *)
theory Getopt_Calls
  imports Getopt_Order
begin

text \<open>
  Sequences of calls of \<open>getopt_long\<close> on one argument vector.  Between two
  calls the vector is laid out in blocks: what was recognised as options, the
  words skipped, the options found after these, and the rest, untouched.
  What the blocks hold is compared with a function that sorts the words of a
  command line by reading them once.
\<close>

section \<open>Options and other words\<close>

text \<open>For option letters without a hyphen, which makes a single hyphen an ordinary word.\<close>

definition is_option :: "string \<Rightarrow> bool" where
  "is_option w \<longleftrightarrow> char_at w 0 = CHR ''-'' \<and> char_at w 1 \<noteq> NUL"

lemma strchr_None: "c \<noteq> NUL \<Longrightarrow> strchr s c = None \<longleftrightarrow> c \<notin> set s"
  by (induction s) auto

lemma strchr_hyphen: "CHR ''-'' \<notin> set opts \<Longrightarrow> strchr opts CHR ''-'' = None"
  by (simp add: strchr_None NUL_def)

lemma char_at_NUL_iff: "NUL \<notin> set w \<Longrightarrow> char_at w i = NUL \<longleftrightarrow> length w \<le> i"
  by (auto simp: char_at_def not_less) (metis nth_mem)

lemma deref_NUL_iff: "NUL \<notin> set (fst p) \<Longrightarrow> deref p = NUL \<longleftrightarrow> length (fst p) \<le> snd p"
  by (simp add: deref_def char_at_NUL_iff)

lemma deref_EMSG [simp]: "deref EMSG = NUL"
  by (simp add: deref_def EMSG_def char_at_def)

section \<open>The order a command line is brought into\<close>

text \<open>
  The reference: the words are read from left to right into the options with
  their arguments, the other words, and the rest that is not looked at.  An
  option takes as many of the words after it as \<open>C\<close> says for its letters, a double
  hyphen ends the options, and the flags say whether another word is
  recognised in order, put aside, or ends the options.
\<close>

fun arrange ::
  "(string \<Rightarrow> string list \<Rightarrow> nat) \<Rightarrow> getopt_flag set \<Rightarrow> string list \<Rightarrow> string list \<times> string list \<times> string list" where
  "arrange C F [] = ([], [], [])"
| "arrange C F (w # ws) =
     (if is_option w then
        if w = ''--'' then ([w], [], ws)
        else (case arrange C F (drop (C (tl w) ws) ws) of (P, N, R) \<Rightarrow> (w # take (C (tl w) ws) ws @ P, N, R))
      else if FLAG_ALLARGS \<in> F then (case arrange C F ws of (P, N, R) \<Rightarrow> (w # P, N, R))
      else if FLAG_PERMUTE \<in> F then (case arrange C F ws of (P, N, R) \<Rightarrow> (P, w # N, R))
      else ([], [], w # ws))"

text \<open>Both groups keep their order, the words put aside are no options, and the rest is the end of the words.\<close>

lemma shuffles_Cons_append: "zs \<in> shuffles xs ys \<Longrightarrow> w # ws @ zs \<in> shuffles (w # ws @ xs) ys"
proof (induction ws arbitrary: w)
  case (Cons v vs)
  then show ?case using Cons_in_shuffles_leftI [of "v # vs @ zs" "v # vs @ xs" ys w] by simp
qed (simp add: Cons_in_shuffles_leftI)

lemma arrange_order:
  "arrange C F ws = (P, N, R) \<Longrightarrow>
   (\<exists>k \<le> length ws. take k ws \<in> shuffles P N \<and> R = drop k ws) \<and> (\<forall>w \<in> set N. \<not> is_option w)"
proof (induction C F ws arbitrary: P N R rule: arrange.induct)
  case (2 C F w ws)
  show ?case
  proof (cases "is_option w")
    case opt: True
    show ?thesis
    proof (cases "w = ''--''")
      case True
      then show ?thesis using 2(4) opt by (auto intro: exI [of _ 1])
    next
      case False
      define j where "j = C (tl w) ws"
      obtain P' where a: "arrange C F (drop j ws) = (P', N, R)" "P = w # take j ws @ P'"
        using 2(4) opt False by (auto simp: j_def split: prod.splits)
      note IH = 2(1) [OF opt False a(1) [unfolded j_def], folded j_def]
      from IH [THEN conjunct1] obtain k where
        k: "k \<le> length (drop j ws)" "take k (drop j ws) \<in> shuffles P' N" "R = drop k (drop j ws)"
        by (elim exE conjE) (rule that)
      note n = IH [THEN conjunct2]
      define xs where "xs = take j ws"
      define ys where "ys = drop j ws"
      have ws: "ws = xs @ ys" and le: "k \<le> length ys" using k(1) by (simp_all add: xs_def ys_def)
      have "Suc (length xs + k) \<le> length (w # ws)" "take (Suc (length xs + k)) (w # ws) = w # xs @ take k ys"
        "drop (Suc (length xs + k)) (w # ws) = drop k ys"
        using le unfolding ws by simp_all
      moreover have "w # xs @ take k ys \<in> shuffles P N"
        using shuffles_Cons_append [OF k(2), of w "take j ws"] a(2) by (simp add: xs_def ys_def)
      ultimately have "Suc (length xs + k) \<le> length (w # ws) \<and> take (Suc (length xs + k)) (w # ws) \<in> shuffles P N \<and>
          R = drop (Suc (length xs + k)) (w # ws)"
        using k(3) by (simp only: ys_def)
      then show ?thesis using n by blast
    qed
  next
    case other: False
    have longer: "\<exists>k \<le> length (w # ws). take k (w # ws) \<in> shuffles P N \<and> R = drop k (w # ws)"
      if ex: "\<exists>k \<le> length ws. take k ws \<in> shuffles X Y \<and> R = drop k ws"
        and step: "\<And>zs. zs \<in> shuffles X Y \<Longrightarrow> w # zs \<in> shuffles P N" for X Y
    proof -
      obtain k where "k \<le> length ws" "take k ws \<in> shuffles X Y" "R = drop k ws" using ex by blast
      then show ?thesis using step [of "take k ws"] by (intro exI [of _ "Suc k"]) simp
    qed
    show ?thesis
    proof (cases "FLAG_ALLARGS \<in> F")
      case all: True
      obtain P' where a: "arrange C F ws = (P', N, R)" "P = w # P'" using 2(4) other all by (auto split: prod.splits)
      note IH = 2(2) [OF other all a(1)]
      show ?thesis using longer [OF IH [THEN conjunct1]] IH [THEN conjunct2] a(2) by (simp add: Cons_in_shuffles_leftI)
    next
      case all: False
      show ?thesis
      proof (cases "FLAG_PERMUTE \<in> F")
        case True
        obtain N' where a: "arrange C F ws = (P, N', R)" "N = w # N'" using 2(4) other all True by (auto split: prod.splits)
        note IH = 2(3) [OF other all True a(1)]
        show ?thesis using longer [OF IH [THEN conjunct1]] IH [THEN conjunct2] a(2) other by (simp add: Cons_in_shuffles_rightI)
      next
        case False
        then show ?thesis using 2(4) other all by (auto intro: exI [of _ 0])
      qed
    qed
  qed
qed simp

text \<open>The first \<open>k\<close> words have been read into \<open>P\<close> and \<open>N\<close>.\<close>

definition read_into ::
  "(string \<Rightarrow> string list \<Rightarrow> nat) \<Rightarrow> string list \<Rightarrow> getopt_flag set \<Rightarrow> nat \<Rightarrow> string list \<Rightarrow> string list \<Rightarrow> bool" where
  "read_into C A F k P N \<longleftrightarrow> (\<exists>P0. P = hd A # P0 \<and>
     arrange C F (tl A) = (case arrange C F (drop k A) of (P', N', R) \<Rightarrow> (P0 @ P', N @ N', R)))"

lemma read_into_start: "read_into C A F 1 [hd A] []"
  by (simp add: read_into_def drop_Suc split: prod.split)

lemma read_into_option:
  assumes "read_into C A F k P N" "k < length A" "is_option (A ! k)" "A ! k \<noteq> ''--''" "j = C (tl (A ! k)) (drop (Suc k) A)"
  shows "read_into C A F (Suc k + j) (P @ take (Suc j) (drop k A)) N"
proof -
  have d: "drop k A = A ! k # drop (Suc k) A" using assms(2) by (simp add: Cons_nth_drop_Suc)
  have "arrange C F (drop k A) = (case arrange C F (drop (Suc k + j) A) of (P, N, R) \<Rightarrow>
      (take (Suc j) (drop k A) @ P, N, R))"
    unfolding d using assms(3-5) by (simp add: add.commute split: prod.split)
  then show ?thesis using assms(1) by (auto simp: read_into_def split: prod.splits)
qed

lemma read_into_other:
  assumes "read_into C A F k P N" "k < length A" "\<not> is_option (A ! k)"
  shows "FLAG_ALLARGS \<in> F \<Longrightarrow> read_into C A F (Suc k) (P @ [A ! k]) N"
    and "FLAG_ALLARGS \<notin> F \<Longrightarrow> FLAG_PERMUTE \<in> F \<Longrightarrow> read_into C A F (Suc k) P (N @ [A ! k])"
proof -
  have d: "drop k A = A ! k # drop (Suc k) A" using assms(2) by (simp add: Cons_nth_drop_Suc)
  show "FLAG_ALLARGS \<in> F \<Longrightarrow> read_into C A F (Suc k) (P @ [A ! k]) N"
    "FLAG_ALLARGS \<notin> F \<Longrightarrow> FLAG_PERMUTE \<in> F \<Longrightarrow> read_into C A F (Suc k) P (N @ [A ! k])"
    using assms(1,3) by (auto simp: read_into_def d split: prod.splits)
qed

text \<open>The ways the reading ends: at the end of the words, at a double hyphen, and at another word that is not put aside.\<close>

lemma read_into_ends:
  assumes "read_into C A F k P N"
  shows "length A \<le> k \<Longrightarrow> \<exists>P0. P = hd A # P0 \<and> arrange C F (tl A) = (P0, N, drop k A)"
    and "k < length A \<Longrightarrow> A ! k = ''--'' \<Longrightarrow>
      \<exists>P0. P @ [A ! k] = hd A # P0 \<and> arrange C F (tl A) = (P0, N, drop (Suc k) A)"
    and "k < length A \<Longrightarrow> \<not> is_option (A ! k) \<Longrightarrow> FLAG_ALLARGS \<notin> F \<Longrightarrow> FLAG_PERMUTE \<notin> F \<Longrightarrow>
      \<exists>P0. P = hd A # P0 \<and> arrange C F (tl A) = (P0, N, drop k A)"
proof -
  have d: "k < length A \<Longrightarrow> drop k A = A ! k # drop (Suc k) A" by (simp add: Cons_nth_drop_Suc)
  have "is_option ''--''" by (simp add: is_option_def char_at_def NUL_def)
  then show "length A \<le> k \<Longrightarrow> \<exists>P0. P = hd A # P0 \<and> arrange C F (tl A) = (P0, N, drop k A)"
    "k < length A \<Longrightarrow> A ! k = ''--'' \<Longrightarrow>
      \<exists>P0. P @ [A ! k] = hd A # P0 \<and> arrange C F (tl A) = (P0, N, drop (Suc k) A)"
    "k < length A \<Longrightarrow> \<not> is_option (A ! k) \<Longrightarrow> FLAG_ALLARGS \<notin> F \<Longrightarrow> FLAG_PERMUTE \<notin> F \<Longrightarrow>
      \<exists>P0. P = hd A # P0 \<and> arrange C F (tl A) = (P0, N, drop k A)"
    using assms by (auto simp: read_into_def d)
qed

section \<open>The layout of the vector\<close>

text \<open>
  \<open>A\<close> are the words of the command line in their original order and \<open>F\<close> the
  flags in effect: \<open>P\<close> has been recognised, \<open>N\<close> skipped, \<open>Q\<close> recognised after
  \<open>N\<close>.
\<close>

definition layout ::
  "string list \<Rightarrow> getopt_flag set \<Rightarrow> string list \<Rightarrow> string list \<Rightarrow> string list \<Rightarrow> getopt_vars \<Rightarrow> bool" where
  "layout A F P N Q st \<longleftrightarrow>
     nargv st = map Some (P @ N @ Q @ drop (length (P @ N @ Q)) A) @ [None] \<and>
     optind st = int (length (P @ N @ Q)) \<and> P \<noteq> [] \<and> length (P @ N @ Q) \<le> length A \<and>
     (N \<noteq> [] \<longrightarrow> FLAG_PERMUTE \<in> F \<and> FLAG_ALLARGS \<notin> F) \<and>
     nonopt_start st = (if N = [] then -1 else int (length P)) \<and>
     (nonopt_end st = -1 \<and> Q = [] \<or> nonopt_end st = int (length (P @ N)) \<and> N \<noteq> [])"

text \<open>What a scan that came to an end leaves.\<close>

definition finished ::
  "(string \<Rightarrow> string list \<Rightarrow> nat) \<Rightarrow> string list \<Rightarrow> getopt_flag set \<Rightarrow> getopt_vars \<Rightarrow> bool" where
  "finished C A F st \<longleftrightarrow> (case arrange C F (tl A) of (P, N, R) \<Rightarrow>
     nargv st = map Some (hd A # P @ N @ R) @ [None] \<and> optind st = int (Suc (length P)))"

lemma layout_nargv:
  assumes "layout A F P N Q st"
  obtains ws where "nargv st = map Some ws @ [None]" "length ws = length A"
  using assms by (intro that [of "P @ N @ Q @ drop (length (P @ N @ Q)) A"]) (auto simp: layout_def)

lemma layout_fetch:
  assumes "layout A F P N Q st" "0 \<le> i" "optind st + i < int (length A)"
  shows "fetch (nargv st) (optind st + i) = Inr (Some (A ! nat (optind st + i)))"
    "arg_at st (optind st + i) = Inr (A ! nat (optind st + i))"
proof -
  let ?k = "length (P @ N @ Q)"
  have k: "optind st = int ?k" "nat (optind st + i) = ?k + nat i" "?k + nat i < length A"
    using assms by (auto simp: layout_def)
  have "nargv st ! (?k + nat i) = Some (A ! (?k + nat i))"
    using assms(1) k(3) by (simp add: layout_def nth_append)
  moreover have "length (nargv st) = Suc (length A)" using assms(1) by (simp add: layout_def)
  ultimately show "fetch (nargv st) (optind st + i) = Inr (Some (A ! nat (optind st + i)))"
    using assms k by (simp add: fetch_def)
  then show "arg_at st (optind st + i) = Inr (A ! nat (optind st + i))"
    by (simp add: arg_at_def)
qed

lemma layout_fetch_end:
  "layout A F P N Q st \<Longrightarrow> fetch (nargv st) (int (length A)) = Inr None"
  by (erule layout_nargv) (simp add: fetch_def nth_append)

lemma layout_exchange:
  assumes "layout A F P N Q st" "nonopt_end st \<noteq> -1" "Q \<noteq> []"
  shows "exchange st = Inr (map Some (P @ Q @ N @ drop (length (P @ N @ Q)) A) @ [None])"
    "skipped st = int (length N)"
proof -
  have "N \<noteq> []" "nonopt_start st = int (length P)" "nonopt_end st = int (length (P @ N))"
    using assms by (auto simp: layout_def)
  moreover from this assms show "skipped st = int (length N)" by (simp add: skipped_def)
  ultimately show "exchange st = Inr (map Some (P @ Q @ N @ drop (length (P @ N @ Q)) A) @ [None])"
    using assms permute_args_blocks [of "map Some N" "map Some Q" "map Some P" "map Some (drop (length (P @ N @ Q)) A) @ [None]"]
    by (simp add: exchange_def layout_def)
qed

text \<open>Words recognised after those laid out.\<close>

lemma layout_consume:
  assumes "layout A F P N Q st" "nonopt_start st \<noteq> -1 \<longrightarrow> nonopt_end st \<noteq> -1"
    and "nargv st' = nargv st" "nonopt_start st' = nonopt_start st" "nonopt_end st' = nonopt_end st"
    and "optind st' = optind st + int j" "optind st' \<le> int (length A)"
  obtains P' Q' where "layout A F P' N Q' st'" "P' @ Q' = P @ Q @ take j (drop (length (P @ N @ Q)) A)"
    "length (P' @ N @ Q') = length (P @ N @ Q) + j"
    "nonopt_end st' \<noteq> -1 \<longrightarrow> P' = P \<and> Q' = Q @ take j (drop (length (P @ N @ Q)) A)"
proof (cases "N = []")
  case True
  then have Q: "Q = []" "nonopt_end st = -1" using assms(1) by (auto simp: layout_def)
  let ?P = "P @ take j (drop (length P) A)"
  have "length P + j \<le> length A" using assms True Q(1) by (simp add: layout_def)
  then have len: "length ?P = length P + j" by simp
  have "P @ drop (length P) A = ?P @ drop (length ?P) A"
    unfolding len by (metis append.assoc append_take_drop_id drop_drop add.commute)
  then have "layout A F ?P N [] st'"
    using assms True Q len \<open>length P + j \<le> length A\<close> by (auto simp: layout_def)
  then show ?thesis using that Q assms(5) len True by (metis append_Nil append_Nil2)
next
  case False
  define k where "k = length (P @ N @ Q)"
  define Q' where "Q' = Q @ take j (drop k A)"
  note L = assms(1) [unfolded layout_def, folded k_def]
  have le: "k + j \<le> length A" using assms(6,7) L by simp
  then have len: "length (P @ N @ Q') = k + j" by (simp add: Q'_def) (simp add: k_def)
  have ne: "nonopt_end st = int (length (P @ N))" using False assms(2) L by auto
  have "Q @ drop k A = Q' @ drop (k + j) A"
    unfolding Q'_def by (metis append.assoc append_take_drop_id drop_drop add.commute)
  then have "layout A F P N Q' st'"
    using assms(3-7) L le ne False unfolding layout_def len by simp
  then show ?thesis
  proof (rule that)
    show "P @ Q' = P @ Q @ take j (drop (length (P @ N @ Q)) A)" by (simp add: Q'_def k_def)
    show "length (P @ N @ Q') = length (P @ N @ Q) + j" unfolding len k_def ..
  qed (simp add: Q'_def k_def)
qed

section \<open>The scan\<close>

text \<open>A finished layout: the skipped words have been moved to the end, or nothing was skipped.\<close>

lemma layout_finished:
  assumes "\<exists>P0. P = hd A # P0 \<and> arrange C F (tl A) = (P0, N, R)"
    and "nargv st' = map Some (P @ N @ R) @ [None]" "optind st' = int (length P)"
  shows "finished C A F st'"
  using assms by (auto simp: finished_def)

text \<open>
  Between two calls either nothing is left of the last word, or the scan
  stands inside a word of option letters.
\<close>

definition resting ::
  "(string \<Rightarrow> string list \<Rightarrow> nat) \<Rightarrow> string list \<Rightarrow> getopt_flag set \<Rightarrow> getopt_vars \<Rightarrow> bool" where
  "resting C A F st \<longleftrightarrow> optreset st = 0 \<and> deref (place st) = NUL \<and>
     (\<exists>P N Q. layout A F P N Q st \<and> read_into C A F (length (P @ N @ Q)) (P @ Q) N \<and> (nonopt_end st \<noteq> -1 \<longrightarrow> Q \<noteq> []))"

text \<open>What the option takes is known from what is left of its word.\<close>

definition word_at :: "string list \<Rightarrow> getopt_vars \<Rightarrow> string" where
  "word_at A st = A ! nat (optind st)"

definition words_after :: "string list \<Rightarrow> getopt_vars \<Rightarrow> string list" where
  "words_after A st = drop (Suc (nat (optind st))) A"

definition ready ::
  "(string \<Rightarrow> string list \<Rightarrow> nat) \<Rightarrow> string list \<Rightarrow> getopt_flag set \<Rightarrow> getopt_vars \<Rightarrow> bool" where
  "ready C A F st \<longleftrightarrow> optreset st = 0 \<and> optind st < int (length A) \<and>
     fst (place st) = word_at A st \<and> 1 \<le> snd (place st) \<and> snd (place st) < length (fst (place st)) \<and>
     is_option (word_at A st) \<and> word_at A st \<noteq> ''--'' \<and>
     C (pointed (place st)) (words_after A st) = C (tl (word_at A st)) (words_after A st) \<and>
     (nonopt_start st \<noteq> -1 \<longrightarrow> nonopt_end st \<noteq> -1) \<and>
     (\<exists>P N Q. layout A F P N Q st \<and> read_into C A F (length (P @ N @ Q)) (P @ Q) N)"

text \<open>A step that goes on by \<open>j\<close> words and moves no argument.\<close>

definition passes :: "nat \<Rightarrow> getopt_vars \<Rightarrow> getopt_vars \<Rightarrow> bool" where
  "passes j st st' \<longleftrightarrow> nargv st' = nargv st \<and> nonopt_start st' = nonopt_start st \<and> nonopt_end st' = nonopt_end st \<and>
     optreset st' = optreset st \<and> posixly_correct st' = posixly_correct st \<and> optind st' = optind st + int j"

lemma ready_passes:
  assumes "ready C A F st" "passes (Suc j) st st'" "j = C (pointed (place st)) (words_after A st)"
    and "optind st' \<le> int (length A)" "deref (place st') = NUL"
  shows "resting C A F st'"
proof -
  obtain P N Q where L: "layout A F P N Q st" "nonopt_start st \<noteq> -1 \<longrightarrow> nonopt_end st \<noteq> -1" "optreset st = 0"
    and lt: "optind st < int (length A)" and I: "read_into C A F (length (P @ N @ Q)) (P @ Q) N"
    using assms(1) by (auto simp: ready_def)
  define k where "k = length (P @ N @ Q)"
  have k: "optind st = int k" "k < length A" using L(1) lt by (simp_all add: layout_def k_def)
  obtain P' Q' where L': "layout A F P' N Q' st'" "P' @ Q' = P @ Q @ take (Suc j) (drop k A)" "length (P' @ N @ Q') = k + Suc j"
    "nonopt_end st' \<noteq> -1 \<longrightarrow> P' = P \<and> Q' = Q @ take (Suc j) (drop k A)"
    using layout_consume [OF L(1,2), of st' "Suc j"] assms(2,4) unfolding passes_def k_def by metis
  have "read_into C A F (Suc k + j) ((P @ Q) @ take (Suc j) (drop k A)) N"
    by (rule read_into_option [OF I [folded k_def] k(2)])
      (use assms(1,3) k in \<open>simp_all add: ready_def word_at_def words_after_def\<close>)
  then have "read_into C A F (length (P' @ N @ Q')) (P' @ Q') N" unfolding L'(3) L'(2) by simp
  moreover have "nonopt_end st' \<noteq> -1 \<longrightarrow> Q' \<noteq> []" using L'(4) k(2) by auto
  ultimately show ?thesis using L'(1) L(3) assms(2,5) unfolding resting_def passes_def by metis
qed

lemma scan_end_finished:
  assumes "layout A F P N Q st" "nonopt_end st \<noteq> -1 \<longrightarrow> Q \<noteq> []" "length (P @ N @ Q) = length A"
    and "read_into C A F (length (P @ N @ Q)) (P @ Q) N"
  shows "\<exists>st'. scan_end st = Inr (Returns (-1) st') \<and> finished C A F st'"
proof -
  note fin = layout_finished [OF read_into_ends(1) [OF assms(4)]]
  show ?thesis
  proof (cases "nonopt_end st = -1")
    case True
    then have Q: "Q = []" using assms(1) by (auto simp: layout_def)
    obtain st' where st': "scan_end st = Inr (Returns (-1) st')" "nargv st' = nargv st" "optind st' = int (length P)"
      using True Q assms(1) by (cases "N = []") (auto simp: scan_end_def layout_def)
    have "nargv st = map Some (P @ Q @ N @ drop (length (P @ N @ Q)) A) @ [None]"
      using assms(1) Q unfolding layout_def by simp
    then have "finished C A F st'"
      using st' Q assms(3) by (intro fin) simp_all
    then show ?thesis using st'(1) by blast
  next
    case False
    then have "Q \<noteq> []" using assms(2) by simp
    note ex = layout_exchange [OF assms(1) False this]
    have "exchange (st\<lparr>place := EMSG\<rparr>) = exchange st" "skipped (st\<lparr>place := EMSG\<rparr>) = skipped st"
      by (simp_all add: exchange_def skipped_def)
    then have "scan_end st = Inr (Returns (-1)
        (st\<lparr>place := EMSG, nargv := map Some (P @ Q @ N @ drop (length (P @ N @ Q)) A) @ [None],
            optind := optind st - int (length N), nonopt_start := -1, nonopt_end := -1\<rparr>))"
      using False ex by (simp add: scan_end_def)
    moreover have "optind st - int (length N) = int (length (P @ Q))" using assms(1) by (simp add: layout_def)
    ultimately show ?thesis using assms(3) by (auto intro!: fin)
  qed
qed

lemma scan_other_cases:
  assumes L: "layout A F P N Q st" and q: "nonopt_end st \<noteq> -1 \<longrightarrow> Q \<noteq> []" and r: "optreset st = 0"
    and k: "optind st < int (length A)" and w: "w = A ! nat (optind st)" "\<not> is_option w"
    and I: "read_into C A F (length (P @ N @ Q)) (P @ Q) N"
  shows "(\<exists>st'. scan_other F w st = Inr (Returns INORDER st') \<and> resting C A F st' \<and> optind st' = optind st + 1 \<and>
       posixly_correct st' = posixly_correct st) \<or>
    (\<exists>st'. scan_other F w st = Inr (Returns (-1) st') \<and> finished C A F st') \<or>
    (\<exists>st'. scan_other F w st = Inr (Start_again st') \<and> resting C A F st' \<and> optind st' = optind st + 1 \<and>
       posixly_correct st' = posixly_correct st)"
proof -
  define k where "k = length (P @ N @ Q)"
  note U = L [unfolded layout_def, folded k_def]
  have kl: "k < length A" "nat (optind st) = k" "optind st = int k" using U k by auto
  have tk: "take (Suc k) A = take k A @ [w]" "drop k A = w # drop (Suc k) A"
    using kl w by (simp_all add: take_Suc_conv_app_nth Cons_nth_drop_Suc)
  show ?thesis
  proof (cases "FLAG_ALLARGS \<in> F \<or> FLAG_PERMUTE \<notin> F")
    case True
    then have N: "N = []" "Q = []" "nonopt_start st = -1" "nonopt_end st = -1" using U by auto
    define st' where "st' = st\<lparr>place := EMSG, optarg := Some w, optind := optind st + 1\<rparr>"
    have one: "min (length A - k) (Suc 0) = Suc 0" using kl(1) by simp
    obtain P' Q' where L': "layout A F P' N Q' st'" "P' @ Q' = P @ Q @ [w]" "length (P' @ N @ Q') = Suc k"
      using layout_consume [OF L, of st' 1] N k tk(2) one by (auto simp: st'_def k_def)
    have rest: "resting C A F st'" if "FLAG_ALLARGS \<in> F"
    proof -
      have "read_into C A F (length (P' @ N @ Q')) (P' @ Q') N"
        using read_into_other(1) [OF I [folded k_def] kl(1)] w kl that unfolding L'(2,3) by simp
      then have "layout A F P' N Q' st' \<and> read_into C A F (length (P' @ N @ Q')) (P' @ Q') N \<and> (nonopt_end st' \<noteq> -1 \<longrightarrow> Q' \<noteq> [])"
        using L'(1) N by (simp add: st'_def)
      moreover have "optreset st' = 0" "deref (place st') = NUL" using r by (simp_all add: st'_def)
      ultimately show ?thesis unfolding resting_def by blast
    qed
    have fin: "finished C A F (st\<lparr>place := EMSG\<rparr>)" if "FLAG_PERMUTE \<notin> F" "FLAG_ALLARGS \<notin> F"
      using N U that w kl by (intro layout_finished [OF read_into_ends(3) [OF I [folded k_def] kl(1)]]) (simp_all add: k_def)
    show ?thesis
    proof (cases "FLAG_ALLARGS \<in> F")
      case True
      then have "scan_other F w st = Inr (Returns INORDER st')" by (simp add: scan_other_def st'_def)
      then show ?thesis using rest True by (simp add: st'_def)
    next
      case False
      then have "scan_other F w st = Inr (Returns (-1) (st\<lparr>place := EMSG\<rparr>))"
        using True by (simp add: scan_other_def)
      then show ?thesis using fin True False by simp
    qed
  next
    case False
    define P' where "P' = P @ Q"
    have sh: "read_into C A F (Suc k) P' (N @ [w])"
      using read_into_other(2) [OF I [folded k_def] kl(1)] w kl False by (simp add: P'_def)
    have len: "length (P' @ (N @ [w]) @ []) = Suc k" by (simp add: P'_def k_def)
    have fits: "layout A F P' (N @ [w]) [] st'"
      if "nargv st' = map Some (P @ Q @ N @ drop k A) @ [None]" "optind st' = int (Suc k)"
        "nonopt_start st' = int (length P')" "nonopt_end st' = -1" for st'
      using that U False w kl unfolding layout_def len by (auto simp: tk P'_def)
    have "\<exists>st'. scan_other F w st = Inr (Start_again st') \<and> layout A F P' (N @ [w]) [] st' \<and> optind st' = optind st + 1 \<and>
       posixly_correct st' = posixly_correct st \<and> optreset st' = 0 \<and> deref (place st') = NUL \<and> nonopt_end st' = -1"
    proof (cases "nonopt_end st = -1")
      case True
      then have Q: "Q = []" using U by auto
      show ?thesis
      proof (cases "N = []")
        case True
        define st' where "st' = st\<lparr>place := EMSG, nonopt_start := optind st, optind := optind st + 1\<rparr>"
        have "scan_other F w st = Inr (Start_again st')"
          using False True U by (simp add: scan_other_def st'_def)
        moreover have "layout A F P' (N @ [w]) [] st'"
          by (rule fits) (use U Q True kl in \<open>simp_all add: st'_def P'_def k_def\<close>)
        ultimately show ?thesis using r \<open>nonopt_end st = -1\<close> by (auto simp: st'_def)
      next
        case nonempty: False
        define st' where "st' = st\<lparr>place := EMSG, optind := optind st + 1\<rparr>"
        have "scan_other F w st = Inr (Start_again st')"
          using False nonempty U \<open>nonopt_end st = -1\<close> by (simp add: scan_other_def st'_def)
        moreover have "layout A F P' (N @ [w]) [] st'"
          by (rule fits) (use U Q nonempty kl \<open>nonopt_end st = -1\<close> in \<open>simp_all add: st'_def P'_def k_def\<close>)
        ultimately show ?thesis using r \<open>nonopt_end st = -1\<close> by (auto simp: st'_def)
      qed
    next
      case pending: False
      then have "Q \<noteq> []" using q by simp
      note ex = layout_exchange [OF L pending this, folded k_def]
      have same: "exchange (st\<lparr>place := EMSG\<rparr>) = exchange st" "skipped (st\<lparr>place := EMSG\<rparr>) = skipped st"
        by (simp_all add: exchange_def skipped_def)
      have N: "N \<noteq> []" using pending U by auto
      define st' where "st' = st\<lparr>place := EMSG, nargv := map Some (P @ Q @ N @ drop k A) @ [None],
        nonopt_start := optind st - int (length N), nonopt_end := -1, optind := optind st + 1\<rparr>"
      have "scan_other F w st = Inr (Start_again st')"
        using False pending ex same N U by (simp add: scan_other_def st'_def)
      moreover have "layout A F P' (N @ [w]) [] st'"
        by (rule fits) (simp_all add: st'_def kl k_def P'_def)
      ultimately show ?thesis using r by (auto simp: st'_def)
    qed
    then obtain st' where "scan_other F w st = Inr (Start_again st')" "layout A F P' (N @ [w]) [] st'" "optind st' = optind st + 1"
      "posixly_correct st' = posixly_correct st" "optreset st' = 0" "deref (place st') = NUL" "nonopt_end st' = -1" by blast
    moreover have "read_into C A F (length (P' @ (N @ [w]) @ [])) (P' @ []) (N @ [w])" unfolding len using sh by simp
    ultimately show ?thesis unfolding resting_def by metis
  qed
qed

lemma scan_hyphen_cases:
  assumes L: "layout A F P N Q st" and q: "nonopt_end st \<noteq> -1 \<longrightarrow> Q \<noteq> []" and r: "optreset st = 0"
    and k: "optind st < int (length A)" and w: "w = A ! nat (optind st)" "is_option w" "NUL \<notin> set w"
    and I: "read_into C A F (length (P @ N @ Q)) (P @ Q) N"
  shows "(\<exists>st'. scan_hyphen w st = Inr (Returns (-1) st') \<and> finished C A F st') \<or>
    (\<exists>st'. scan_hyphen w st = Inr (Option_at st') \<and> ready C A F st' \<and> optind st' = optind st \<and> snd (place st') = 1 \<and>
       posixly_correct st' = posixly_correct st)"
proof -
  define k where "k = length (P @ N @ Q)"
  note U = L [unfolded layout_def, folded k_def]
  have kl: "k < length A" "nat (optind st) = k" "optind st = int k" using U k by auto
  define st1 where "st1 = (if nonopt_start st \<noteq> -1 \<and> nonopt_end st = -1 then st\<lparr>nonopt_end := optind st\<rparr> else st)"
  have L1: "layout A F P N Q st1" "nonopt_start st1 \<noteq> -1 \<longrightarrow> nonopt_end st1 \<noteq> -1"
    using U kl unfolding layout_def st1_def k_def by auto
  have one: "char_at w 1 \<noteq> NUL" "1 < length w" using w by (auto simp: is_option_def char_at_def split: if_split_asm)
  have dd: "char_at w 1 = CHR ''-'' \<and> char_at w 2 = NUL \<longleftrightarrow> w = ''--''"
  proof
    assume a: "char_at w 1 = CHR ''-'' \<and> char_at w 2 = NUL"
    then have "length w = 2" using one w(3) char_at_NUL_iff [of w 2] by simp
    moreover have "w ! 0 = CHR ''-''" "w ! 1 = CHR ''-''"
      using a w(2) one by (auto simp: is_option_def char_at_def split: if_split_asm)
    ultimately show "w = ''--''" by (auto intro!: nth_equalityI simp: less_Suc_eq numeral_2_eq_2)
  qed (simp add: char_at_def)
  show ?thesis
  proof (cases "w = ''--''")
    case False
    define st' where "st' = st1\<lparr>place := (w, 1)\<rparr>"
    have "scan_hyphen w st = Inr (Option_at st')"
      using False dd one by (auto simp: scan_hyphen_def st'_def st1_def Let_def)
    moreover have "layout A F P N Q st'" using L1(1) by (simp add: layout_def st'_def)
    moreover have "optreset st1 = 0" "optind st1 = optind st" "posixly_correct st1 = posixly_correct st"
      using r by (simp_all add: st1_def)
    ultimately show ?thesis using L1(2) one k w(1,2) I False
      by (auto simp: ready_def st'_def word_at_def words_after_def pointed_def drop_Suc)
  next
    case True
    define st2 where "st2 = st1\<lparr>optind := optind st + 1, place := EMSG\<rparr>"
    have w1: "take 1 (drop k A) = [w]" using kl w(1) by (simp add: take_Suc_conv_app_nth hd_drop_conv_nth take_Suc)
    have "optind st1 = optind st" by (simp add: st1_def)
    then obtain P' Q' where L2: "layout A F P' N Q' st2" "P' @ Q' = P @ Q @ [w]" "length (P' @ N @ Q') = Suc k"
      and Q': "nonopt_end st2 \<noteq> -1 \<longrightarrow> P' = P \<and> Q' = Q @ [w]"
      using layout_consume [OF L1, of st2 1] k w1 unfolding k_def st2_def by auto
    have "\<exists>P0. P' @ Q' = hd A # P0 \<and> arrange C F (tl A) = (P0, N, drop (Suc k) A)"
      using read_into_ends(2) [OF I [folded k_def] kl(1)] w(1) kl(2) True unfolding L2(2) by simp
    note fin = layout_finished [OF this]
    have step: "scan_hyphen w st = bindr (if nonopt_end st2 \<noteq> -1
         then bindr (exchange st2) (\<lambda>v. Inr (st2\<lparr>nargv := v, optind := optind st2 - skipped st2\<rparr>))
         else Inr st2) (\<lambda>st. Inr (Returns (-1) (st\<lparr>nonopt_start := -1, nonopt_end := -1\<rparr>)))"
      using True by (simp add: scan_hyphen_def st2_def st1_def Let_def exchange_def skipped_def char_at_def NUL_def)
    have "\<exists>st'. scan_hyphen w st = Inr (Returns (-1) st') \<and> finished C A F st'"
    proof (cases "nonopt_end st2 = -1")
      case whole: True
      then have N: "N = []" "Q' = []" using L2 L1(2) L1(1) by (auto simp: layout_def st2_def split: if_split_asm)
      have "finished C A F (st2\<lparr>nonopt_start := -1, nonopt_end := -1\<rparr>)"
        using L2(1,3) N by (intro fin) (simp_all add: layout_def)
      then show ?thesis using step whole by simp
    next
      case pending: False
      then have Q: "P' = P" "Q' = Q @ [w]" using Q' by simp_all
      then have "Q' \<noteq> []" by simp
      note ex = layout_exchange [OF L2(1) pending this]
      have len: "optind st2 - int (length N) = int (length (P' @ Q'))" using L2(1) by (simp add: layout_def)
      have "finished C A F (st2\<lparr>nargv := map Some (P' @ Q' @ N @ drop (length (P' @ N @ Q')) A) @ [None],
          optind := int (length (P' @ Q')), nonopt_start := -1, nonopt_end := -1\<rparr>)"
        unfolding L2(3) by (intro fin) simp_all
      then show ?thesis using step pending ex len by simp
    qed
    then show ?thesis by blast
  qed
qed

end
