(* ===== verification/Getopt_Loop.thy ===== *)
theory Getopt_Loop
  imports Getopt_Calls
begin

text \<open>
  The customary loop that calls \<open>getopt_long\<close> until it returns -1: with a
  terminated table no call touches memory outside the vector or the table,
  the loop ends, and what it leaves are the recognised words followed by the
  others, both in their order.
\<close>

section \<open>Parsing one option\<close>

text \<open>A table is terminated, and no entry stands for the end of the options.\<close>

definition table_ok :: "long_option list \<Rightarrow> bool" where
  "table_ok T \<longleftrightarrow> (\<exists>x \<in> set T. o_name x = None) \<and> (\<forall>x \<in> set T. o_val x \<noteq> -1)"

lemma find_long_index:
  "\<exists>x \<in> set rest. o_name x = None \<Longrightarrow> i + length rest = length T \<Longrightarrow> m = -1 \<or> 0 \<le> m \<and> m < int (length T) \<Longrightarrow>
   \<exists>m' a'. find_long cur len short_too T i rest m a = Inr (m', a') \<and> (m' = -1 \<or> 0 \<le> m' \<and> m' < int (length T))"
proof (induction rest arbitrary: i m a)
  case (Cons x rest)
  show ?case
  proof (cases "o_name x")
    case None
    then show ?thesis using Cons.prems(3) by simp
  next
    case (Some name)
    then have r: "\<exists>x \<in> set rest. o_name x = None" "Suc i + length rest = length T" using Cons.prems by auto
    have i: "int i < int (length T)" using Cons.prems(2) by simp
    show ?thesis
      using Some i Cons.IH [OF r, of m] Cons.IH [OF r, of "int i"] Cons.prems(3) by auto
  qed
qed simp

lemma return_values: "BADCH = 63" "BADARG opts = (if char_at opts 0 = CHR '':'' then 58 else 63)"
  by (simp_all add: BADCH_def BADARG_def char_int_def Let_def)

lemma warnx_passes [simp]: "passes j st (warnx opts msg st') = passes j st st'"
  by (simp add: passes_def warnx_def)

text \<open>
  The number of words after its own that a long option takes, when \<open>follow\<close> says
  whether there are any; \<open>None\<close> when a single hyphen leads to a short option.
\<close>

definition key_len :: "string \<Rightarrow> nat" where
  "key_len cur = (case strchr cur CHR ''='' of None \<Rightarrow> length cur | Some t \<Rightarrow> length cur - length t)"

definition long_takes :: "long_option list \<Rightarrow> bool \<Rightarrow> string \<Rightarrow> bool \<Rightarrow> nat option" where
  "long_takes T short_too cur follow =
     (case find_long cur (key_len cur) short_too T 0 T (-1) False of
        Inl e \<Rightarrow> None
      | Inr (m, ambiguous) \<Rightarrow>
          if ambiguous then Some 0
          else if m = -1 then (if short_too then None else Some 0)
          else Some (if o_has_arg (T ! nat m) = required_argument \<and> strchr cur CHR ''='' = None \<and> follow then 1 else 0))"

lemma parse_long_ok:
  assumes T: "table_ok T" and a: "fetch (nargv st) (optind st + 1) = Inr a"
  shows "\<exists>r st'. parse_long_options opts T idx short_too st = Inr (r, st') \<and>
    (case long_takes T short_too (pointed (place st)) (a \<noteq> None) of
       Some j \<Rightarrow> r \<noteq> -1 \<and> passes (Suc j) st st'
     | None \<Rightarrow> short_too \<and> r = -1 \<and> passes 0 st st' \<and> place st' = place st)"
proof -
  define cur where "cur = pointed (place st)"
  obtain m amb where f: "find_long cur (key_len cur) short_too T 0 T (-1) False = Inr (m, amb)"
    and m: "m = -1 \<or> 0 \<le> m \<and> m < int (length T)"
    using find_long_index [of T 0 T "-1"] T unfolding table_ok_def by fastforce
  have v: "m \<noteq> -1 \<Longrightarrow> o_val (T ! nat m) \<noteq> -1"
    using m T by (auto simp: table_ok_def)
  note unfolded = parse_long_options_def Let_def cur_def [symmetric] key_len_def [of cur, symmetric]
  show ?thesis
  proof (cases "amb \<or> m = -1")
    case True
    then show ?thesis using f unfolding unfolded
      by (auto simp: passes_def warnx_def return_values long_takes_def)
  next
    case False
    show ?thesis
      using False f v a unfolding unfolded
      by (auto simp: passes_def warnx_def set_optopt_def return_values no_argument_def required_argument_def
          optional_argument_def long_takes_def split: option.split)
  qed
qed

text \<open>
  The number of words an option word takes, from the letter on at which it is
  read: a hyphen starts a long option; a letter without an argument goes on to
  the next; an argument is the rest of the word or, when it is required and the
  word is at its end, the next word.
\<close>

fun takes :: "getopt_flag set \<Rightarrow> string \<Rightarrow> long_option list \<Rightarrow> string \<Rightarrow> string list \<Rightarrow> nat" where
  "takes F opts T [] rest = 0"
| "takes F opts T (c # u) rest =
     (if c = CHR ''-'' then the (long_takes T False u (rest \<noteq> []))
      else case (if FLAG_LONGONLY \<in> F
                 then long_takes T (c \<noteq> CHR '':'' \<and> strchr opts c \<noteq> None) (c # u) (rest \<noteq> []) else None) of
        Some j \<Rightarrow> j
      | None \<Rightarrow>
          if c = CHR '':'' \<or> strchr opts c = None then takes F opts T u rest
          else if c = CHR ''W'' \<and> char_at (the (strchr opts c)) 1 = CHR '';'' then
            (if u \<noteq> [] then the (long_takes T False u (rest \<noteq> []))
             else case rest of [] \<Rightarrow> 0 | w # ws \<Rightarrow> Suc (the (long_takes T False w (ws \<noteq> []))))
          else if char_at (the (strchr opts c)) 1 \<noteq> CHR '':'' then takes F opts T u rest
          else if u = [] \<and> char_at (the (strchr opts c)) 2 \<noteq> CHR '':'' \<and> rest \<noteq> [] then 1 else 0)"

text \<open>What the callers of \<open>getopt_long\<close> provide: words without NUL, letters that are no hyphen.\<close>

definition letters_ok :: "string \<Rightarrow> bool" where
  "letters_ok opts \<longleftrightarrow> CHR ''-'' \<notin> set opts \<and> (\<forall>c \<in> set opts. char_int c \<noteq> -1)"

definition words_ok :: "string list \<Rightarrow> bool" where
  "words_ok A \<longleftrightarrow> (\<forall>w \<in> set A. NUL \<notin> set w)"

text \<open>The two ways an option is left: with its word, or inside it.\<close>

definition moved ::
  "(string \<Rightarrow> string list \<Rightarrow> nat) \<Rightarrow> string list \<Rightarrow> getopt_flag set \<Rightarrow> getopt_vars \<Rightarrow> getopt_vars \<Rightarrow> bool" where
  "moved C A F st st' \<longleftrightarrow> posixly_correct st' = posixly_correct st \<and>
     (resting C A F st' \<and> optind st < optind st' \<or>
      ready C A F st' \<and> optind st' = optind st \<and> snd (place st) < snd (place st'))"

lemma ready_word:
  assumes "ready C A F st" "words_ok A"
  shows "NUL \<notin> set (fst (place st))" "0 \<le> optind st" "nat (optind st) < length A"
proof -
  show "0 \<le> optind st" using assms(1) by (auto simp: ready_def layout_def)
  then show "nat (optind st) < length A" using assms(1) by (auto simp: ready_def)
  then show "NUL \<notin> set (fst (place st))" using assms by (auto simp: ready_def words_ok_def word_at_def)
qed

lemma ready_after: "ready C A F st \<Longrightarrow> words_after A st \<noteq> [] \<longleftrightarrow> optind st + 1 < int (length A)"
  by (auto simp: words_after_def ready_def layout_def)

lemma ready_fetch:
  assumes "ready C A F st" "0 \<le> i" "optind st + i \<le> int (length A)"
  shows "\<exists>a. fetch (nargv st) (optind st + i) = Inr a \<and> (a \<noteq> None \<longleftrightarrow> optind st + i < int (length A))"
proof -
  obtain P N Q where L: "layout A F P N Q st" using assms(1) by (auto simp: ready_def)
  show ?thesis using layout_fetch(1) [OF L assms(2)] layout_fetch_end [OF L] assms(3)
    by (cases "optind st + i < int (length A)") auto
qed

lemma ready_done:
  assumes "ready C A F st" "passes (Suc j) st st'" "j = C (pointed (place st)) (words_after A st)"
    and "optind st + int (Suc j) \<le> int (length A)" "deref (place st') = NUL"
  shows "moved C A F st st'"
  using ready_passes [OF assms(1-3) _ assms(5)] assms(2,4) by (simp add: moved_def passes_def)

text \<open>The letter is read; the word may be at its end.\<close>

lemma ready_letter:
  assumes R: "ready C A F st" "words_ok A" and p: "place st' = advance (place st)"
    and q: "passes (if deref (advance (place st)) = NUL then 1 else 0) st st'"
    and c: "C [] (words_after A st) = 0" "C (pointed (place st)) (words_after A st) = C (pointed (advance (place st))) (words_after A st)"
  shows "moved C A F st st'"
proof -
  have "NUL \<notin> set (fst (advance (place st)))" using ready_word [OF R] by (simp add: advance_def)
  note at_end = deref_NUL_iff [OF this]
  show ?thesis
  proof (cases "deref (advance (place st)) = NUL")
    case True
    then have "pointed (advance (place st)) = []" using at_end by (simp add: pointed_def)
    then have "C (pointed (place st)) (words_after A st) = 0" using c by simp
    then show ?thesis using R p q True by (intro ready_done [of C A F st 0]) (auto simp: ready_def)
  next
    case False
    then have "Suc (snd (place st)) < length (fst (place st))" using at_end by (simp add: advance_def)
    moreover obtain P N Q where L: "layout A F P N Q st" and I: "read_into C A F (length (P @ N @ Q)) (P @ Q) N"
      using R(1) by (auto simp: ready_def)
    have "layout A F P N Q st'" using L q False by (simp add: layout_def passes_def)
    then have "\<exists>P N Q. layout A F P N Q st' \<and> read_into C A F (length (P @ N @ Q)) (P @ Q) N" using I by blast
    ultimately have "ready C A F st'" using R(1) p q False c(2)
      by (auto simp: ready_def passes_def word_at_def words_after_def) (auto simp: advance_def)
    then show ?thesis using p q False by (simp add: moved_def passes_def advance_def)
  qed
qed

text \<open>A long option parsed from here, in this word or the next.\<close>

lemma ready_long:
  assumes R: "ready C A F st" and T: "table_ok T" and p: "passes j st st1" and j: "optind st + int j < int (length A)"
    and c: "\<And>i. long_takes T short_too (pointed (place st1)) (optind st + int (Suc j) < int (length A)) = Some i \<Longrightarrow>
      C (pointed (place st)) (words_after A st) = i + j"
  shows "\<exists>r st'. parse_long_options opts T idx short_too st1 = Inr (r, st') \<and>
    (r \<noteq> -1 \<and> long_takes T short_too (pointed (place st1)) (optind st + int (Suc j) < int (length A)) \<noteq> None \<and>
       moved C A F st (st'\<lparr>place := EMSG\<rparr>) \<or>
     short_too \<and> long_takes T short_too (pointed (place st1)) (optind st + int (Suc j) < int (length A)) = None \<and>
       r = -1 \<and> passes 0 st1 st' \<and> place st' = place st1)"
proof -
  have st1: "nargv st1 = nargv st" "optind st1 + 1 = optind st + int (Suc j)" using p by (simp_all add: passes_def)
  obtain a where a: "fetch (nargv st1) (optind st1 + 1) = Inr a" "a \<noteq> None \<longleftrightarrow> optind st + int (Suc j) < int (length A)"
    using ready_fetch [OF R, of "int (Suc j)"] j unfolding st1 by auto
  obtain r st' where res: "parse_long_options opts T idx short_too st1 = Inr (r, st')"
    and n: "case long_takes T short_too (pointed (place st1)) (optind st + int (Suc j) < int (length A)) of
       Some j \<Rightarrow> r \<noteq> -1 \<and> passes (Suc j) st1 st'
     | None \<Rightarrow> short_too \<and> r = -1 \<and> passes 0 st1 st' \<and> place st' = place st1"
    using parse_long_ok [OF T a(1), of opts idx short_too] unfolding a(2) by auto
  show ?thesis
  proof (cases "long_takes T short_too (pointed (place st1)) (optind st + int (Suc j) < int (length A))")
    case None
    then show ?thesis using res n by simp
  next
    case (Some i)
    then have n': "r \<noteq> -1" "passes (Suc i) st1 st'" using n by simp_all
    have "i \<le> (if optind st + int (Suc j) < int (length A) then 1 else 0)"
      using Some by (auto simp: long_takes_def split: sum.splits if_splits)
    then have "optind st + int (Suc (i + j)) \<le> int (length A)" using j by (auto split: if_splits)
    moreover have "passes (Suc (i + j)) st (st'\<lparr>place := EMSG\<rparr>)" using p n'(2) by (simp add: passes_def)
    ultimately have "moved C A F st (st'\<lparr>place := EMSG\<rparr>)"
      using c [OF Some] by (intro ready_done [OF R, of "i + j"]) simp_all
    then show ?thesis using res n'(1) Some by blast
  qed
qed

lemma ready_letters:
  assumes "ready C A F st" "words_ok A"
  shows "pointed (place st) = deref (place st) # pointed (advance (place st))"
    "pointed (advance (place st)) = [] \<longleftrightarrow> deref (advance (place st)) = NUL"
proof -
  show "pointed (place st) = deref (place st) # pointed (advance (place st))"
    using assms(1) by (auto simp: ready_def pointed_def deref_def advance_def char_at_def Cons_nth_drop_Suc)
  show "pointed (advance (place st)) = [] \<longleftrightarrow> deref (advance (place st)) = NUL"
    using deref_NUL_iff [of "advance (place st)"] ready_word(1) [OF assms] by (simp add: pointed_def advance_def)
qed

lemma long_takes_Some:
  assumes "table_ok T"
  shows "long_takes T False cur follow \<noteq> None"
  using find_long_index [of T 0 T "-1" cur "key_len cur" False False] assms
  by (auto simp: long_takes_def table_ok_def)

lemma parse_short_ok:
  assumes R: "ready (takes F opts T) A F st" and A: "words_ok A" and T: "table_ok T" and O: "letters_ok opts"
    and c: "deref (place st) \<noteq> CHR ''-''"
    and l: "FLAG_LONGONLY \<in> F \<Longrightarrow> long_takes T (deref (place st) \<noteq> CHR '':'' \<and> strchr opts (deref (place st)) \<noteq> None)
      (pointed (place st)) (words_after A st \<noteq> []) = None"
  shows "\<exists>r st'. parse_short (int (length A)) opts (Some T) idx st = Inr (r, st') \<and> r \<noteq> -1 \<and> moved (takes F opts T) A F st st'"
proof -
  define st1 where "st1 = st\<lparr>place := advance (place st)\<rparr>"
  define d where "d = deref (place st)"
  define u where "u = pointed (place st1)"
  let ?rest = "words_after A st"
  let ?C = "takes F opts T"
  have p1: "passes 0 st st1" by (simp add: passes_def st1_def)
  have lt: "optind st < int (length A)" using R by (simp add: ready_def)
  note follow = ready_after [OF R]
  have word: "pointed (place st) = d # u" "u = [] \<longleftrightarrow> deref (place st1) = NUL"
    using ready_letters [OF R A] by (simp_all add: d_def u_def st1_def)
  have no_long: "(if FLAG_LONGONLY \<in> F
      then long_takes T (d \<noteq> CHR '':'' \<and> strchr opts d \<noteq> None) (d # u) (?rest \<noteq> []) else None) = None"
    using l unfolding word(1) d_def [symmetric] by simp
  have count: "?C (pointed (place st)) ?rest =
     (if d = CHR '':'' \<or> strchr opts d = None then ?C u ?rest
      else if d = CHR ''W'' \<and> char_at (the (strchr opts d)) 1 = CHR '';'' then
        (if u \<noteq> [] then the (long_takes T False u (?rest \<noteq> []))
         else case ?rest of [] \<Rightarrow> 0 | w # ws \<Rightarrow> Suc (the (long_takes T False w (ws \<noteq> []))))
      else if char_at (the (strchr opts d)) 1 \<noteq> CHR '':'' then ?C u ?rest
      else if u = [] \<and> char_at (the (strchr opts d)) 2 \<noteq> CHR '':'' \<and> ?rest \<noteq> [] then 1 else 0)"
    using c unfolding word(1) takes.simps no_long option.case by (simp only: d_def [symmetric] if_False)
  have letter: "char_int d \<noteq> -1" if "strchr opts d \<noteq> None"
  proof -
    have "d \<noteq> NUL" using R deref_NUL_iff ready_word(1) [OF R A] by (auto simp: d_def ready_def)
    with that have "d \<in> set opts" by (simp add: strchr_None)
    then show ?thesis using O by (simp add: letters_ok_def)
  qed
  have miss: "moved ?C A F st st'" if "passes 1 st st'" "place st' = EMSG" "?C (pointed (place st)) ?rest = 0" for st'
    using that lt by (intro ready_done [OF R, of 0]) simp_all
  have next_letter: "moved ?C A F st st'"
    if "?C (pointed (place st)) ?rest = ?C u ?rest" "place st' = place st1"
      "passes (if deref (place st1) = NUL then 1 else 0) st st'" for st'
    using that by (intro ready_letter [OF R A]) (simp_all add: st1_def u_def)
  consider (unknown) "d = CHR '':'' \<or> strchr opts d = None"
    | (long) "d \<noteq> CHR '':''" "strchr opts d \<noteq> None" "d = CHR ''W''" "char_at (the (strchr opts d)) 1 = CHR '';''"
    | (flag) "d \<noteq> CHR '':''" "strchr opts d \<noteq> None" "char_at (the (strchr opts d)) 1 \<noteq> CHR '':''"
        "\<not> (d = CHR ''W'' \<and> char_at (the (strchr opts d)) 1 = CHR '';'')"
    | (attached) "d \<noteq> CHR '':''" "strchr opts d \<noteq> None" "char_at (the (strchr opts d)) 1 = CHR '':''" "deref (place st1) \<noteq> NUL"
    | (next_word) "d \<noteq> CHR '':''" "strchr opts d \<noteq> None" "char_at (the (strchr opts d)) 1 = CHR '':''" "deref (place st1) = NUL"
        "char_at (the (strchr opts d)) 2 \<noteq> CHR '':''"
    | (optional) "d \<noteq> CHR '':''" "strchr opts d \<noteq> None" "char_at (the (strchr opts d)) 1 = CHR '':''" "deref (place st1) = NUL"
        "char_at (the (strchr opts d)) 2 = CHR '':''"
    by blast
  then show ?thesis
  proof cases
    case unknown
    then have "?C (pointed (place st)) ?rest = ?C u ?rest" using count by (simp only: if_True)
    from next_letter [OF this] show ?thesis using unknown c
      by (auto simp: parse_short_def Let_def d_def [symmetric] return_values passes_def st1_def warnx_def)
  next
    case flag
    then have "?C (pointed (place st)) ?rest = ?C u ?rest" using count by (simp only: if_True if_False simp_thms)
    from next_letter [OF this] show ?thesis using flag c letter
      by (auto simp: parse_short_def Let_def d_def [symmetric] passes_def st1_def)
  next
    case attached
    then have "?C (pointed (place st)) ?rest = 0" using count word(2) by auto
    from miss [OF _ _ this] show ?thesis using attached c letter
      by (auto simp: parse_short_def Let_def d_def [symmetric] passes_def st1_def)
  next
    case optional
    then have "?C (pointed (place st)) ?rest = 0" using count by auto
    from miss [OF _ _ this] show ?thesis using optional c letter
      by (auto simp: parse_short_def Let_def d_def [symmetric] passes_def st1_def)
  next
    case next_word
    have C: "?C (pointed (place st)) ?rest = (if optind st + 1 < int (length A) then 1 else 0)"
      using next_word count word(2) follow by auto
    show ?thesis
    proof (cases "int (length A) \<le> optind st + 1")
      case True
      then have "?C (pointed (place st)) ?rest = 0" using C by simp
      from miss [OF _ _ this] show ?thesis using True next_word c
        by (auto simp: parse_short_def Let_def d_def [symmetric] return_values passes_def st1_def warnx_def)
    next
      case False
      then have one: "1 = ?C (pointed (place st)) ?rest" using C by simp
      obtain a where "fetch (nargv st) (optind st + 1) = Inr a" using ready_fetch [OF R, of 1] False by auto
      then show ?thesis using False next_word c letter
        by (auto simp: parse_short_def Let_def d_def [symmetric] passes_def st1_def intro!: ready_done [OF R _ one])
    qed
  next
    case long
    show ?thesis
    proof (cases "deref (place st1) = NUL")
      case False
      then have "?C (pointed (place st)) ?rest = the (long_takes T False (pointed (place st1)) (optind st + int (Suc 0) < int (length A)))"
        using long count word(2) follow by (auto simp: u_def)
      with ready_long [OF R T p1, of False opts idx] lt
      show ?thesis using False long by (auto simp: parse_short_def Let_def d_def [symmetric] st1_def)
    next
      case here: True
      show ?thesis
      proof (cases "int (length A) \<le> optind st + 1")
        case True
        then have "?C (pointed (place st)) ?rest = 0" using long here count word(2) follow by auto
        from miss [OF _ _ this] show ?thesis using long here True
          by (auto simp: parse_short_def Let_def d_def [symmetric] return_values passes_def st1_def warnx_def)
      next
        case False
        obtain P N Q where L: "layout A F P N Q st" using R by (auto simp: ready_def)
        define w where "w = A ! nat (optind st + 1)"
        have w: "fetch (nargv st) (optind st + 1) = Inr (Some w)"
          using layout_fetch(1) [OF L, of 1] False by (simp add: w_def)
        define st2 where "st2 = st1\<lparr>optind := optind st + 1, place := (w, 0)\<rparr>"
        have p2: "passes 1 st st2" by (simp add: passes_def st2_def st1_def)
        have "0 \<le> optind st" using ready_word(2) [OF R A] .
        then have rest: "?rest = w # drop (Suc (Suc (nat (optind st)))) A" using False
          by (simp add: words_after_def w_def Cons_nth_drop_Suc nat_add_distrib nat_less_iff)
        have ws: "drop (Suc (Suc (nat (optind st)))) A \<noteq> [] \<longleftrightarrow> optind st + int (Suc 1) < int (length A)"
          using \<open>0 \<le> optind st\<close> by (simp add: not_le) linarith
        have "?C (pointed (place st)) ?rest =
            Suc (the (long_takes T False (pointed (place st2)) (optind st + int (Suc 1) < int (length A))))"
          using long here count word(2) unfolding rest list.case ws by (auto simp: st2_def pointed_def)
        with ready_long [OF R T p2, of False opts idx] False
        show ?thesis using here long w
          by (auto simp: parse_short_def Let_def d_def [symmetric] st1_def st2_def arg_at_def)
      qed
    qed
  qed
qed

lemma parse_option_ok:
  assumes R: "ready (takes F opts T) A F st" and A: "words_ok A" and T: "table_ok T" and O: "letters_ok opts"
  shows "\<exists>r st'. parse_option (int (length A)) opts (Some T) idx F st = Inr (r, st') \<and> r \<noteq> -1 \<and>
    moved (takes F opts T) A F st st'"
proof -
  let ?C = "takes F opts T"
  obtain a where a: "fetch (nargv st) (optind st) = Inr a" using ready_fetch [OF R, of 0] R by (auto simp: ready_def)
  have sp: "\<not> same_pointer (place st) a" using R by (auto simp: ready_def same_pointer_def)
  have lt: "optind st < int (length A)" using R by (simp add: ready_def)
  note letters = ready_letters [OF R A] and follow = ready_after [OF R]
  show ?thesis
  proof (cases "deref (place st) = CHR ''-''")
    case True
    define st1 where "st1 = st\<lparr>place := advance (place st)\<rparr>"
    have p1: "passes 0 st st1" by (simp add: passes_def st1_def)
    have "?C (pointed (place st)) (words_after A st) =
        the (long_takes T False (pointed (place st1)) (optind st + int (Suc 0) < int (length A)))"
      using True follow unfolding letters(1) by (simp add: st1_def)
    with ready_long [OF R T p1, of False opts idx] lt show ?thesis
      using True a sp by (auto simp: parse_option_def Let_def st1_def)
  next
    case hyphen: False
    note short = parse_short_ok [OF R A T O hyphen, of idx]
    show ?thesis
    proof (cases "FLAG_LONGONLY \<in> F")
      case False
      then show ?thesis using hyphen a short by (simp add: parse_option_def)
    next
      case True
      define too where "too = (deref (place st) \<noteq> CHR '':'' \<and> strchr opts (deref (place st)) \<noteq> None)"
      have p: "passes 0 st st" by (simp add: passes_def)
      have C: "?C (pointed (place st)) (words_after A st) = i + 0"
        if "long_takes T too (pointed (place st)) (optind st + int (Suc 0) < int (length A)) = Some i" for i
        using that True hyphen follow letters(1) by (simp add: too_def)
      from ready_long [OF R T p, of too opts idx] C lt
      obtain r st' where p: "parse_long_options opts T idx too st = Inr (r, st')"
        and n: "r \<noteq> -1 \<and> moved ?C A F st (st'\<lparr>place := EMSG\<rparr>) \<or>
          too \<and> long_takes T too (pointed (place st)) (words_after A st \<noteq> []) = None \<and> r = -1 \<and> passes 0 st st' \<and> place st' = place st"
        using follow by auto
      show ?thesis
      proof (cases "r = -1")
        case False
        then show ?thesis using n p True hyphen a sp by (auto simp: parse_option_def Let_def too_def)
      next
        case r: True
        then have st': "passes 0 st st'" "place st' = place st"
          and none: "long_takes T too (pointed (place st)) (words_after A st \<noteq> []) = None" using n by auto
        have same: "words_after A st' = words_after A st" "word_at A st' = word_at A st"
          using st'(1) by (simp_all add: words_after_def word_at_def passes_def)
        then have "ready ?C A F st'" using R st' by (auto simp: ready_def passes_def layout_def)
        from parse_short_ok [OF this A T O, of idx] hyphen st'(2) none
        obtain r' st'' where "parse_short (int (length A)) opts (Some T) idx st' = Inr (r', st'')" "r' \<noteq> -1" "moved ?C A F st' st''"
          by (auto simp: same too_def)
        moreover from this(3) st' have "moved ?C A F st st''" by (simp add: moved_def passes_def)
        ultimately show ?thesis using p r True hyphen a sp by (auto simp: parse_option_def Let_def too_def)
      qed
    qed
  qed
qed

section \<open>One call\<close>

text \<open>What is left to do: the characters of the words from \<open>optind\<close> on.\<close>

definition chars_from :: "string list \<Rightarrow> int \<Rightarrow> nat" where
  "chars_from A i = sum_list (map (\<lambda>w. Suc (length w)) (drop (nat i) A))"

definition work :: "string list \<Rightarrow> getopt_vars \<Rightarrow> nat" where
  "work A st = chars_from A (optind st) - (if deref (place st) = NUL then 0 else snd (place st))"

lemma chars_from_word:
  assumes "0 \<le> i" "i < j" "i < int (length A)"
  shows "chars_from A j + Suc (length (A ! nat i)) \<le> chars_from A i"
proof -
  have d: "drop (nat i) A = A ! nat i # drop (Suc (nat i)) A"
    using assms by (simp add: Cons_nth_drop_Suc nat_less_iff)
  have "nat j = nat (j - i - 1) + Suc (nat i)" using assms by simp
  then have "drop (nat j) A = drop (nat (j - i - 1)) (drop (Suc (nat i)) A)" by (simp only: drop_drop)
  moreover have "sum_list (map f (drop n xs)) \<le> sum_list (map f xs)" for f :: "string \<Rightarrow> nat" and n xs
    by (metis append_take_drop_id le_add2 map_append sum_list_append)
  ultimately have "chars_from A j \<le> sum_list (map (\<lambda>w. Suc (length w)) (drop (Suc (nat i)) A))"
    unfolding chars_from_def by metis
  then show ?thesis by (simp add: chars_from_def [of A i] d)
qed

definition under_way :: "(string \<Rightarrow> string list \<Rightarrow> nat) \<Rightarrow> string list \<Rightarrow> getopt_flag set \<Rightarrow> getopt_vars \<Rightarrow> bool" where
  "under_way C A F st \<longleftrightarrow> resting C A F st \<or> ready C A F st"

lemma work_resting: "resting C A F st \<Longrightarrow> work A st = chars_from A (optind st)"
  by (simp add: work_def resting_def)

lemma work_ready:
  "ready C A F st \<Longrightarrow> words_ok A \<Longrightarrow> work A st = chars_from A (optind st) - snd (place st)"
  using deref_NUL_iff [of "place st"] ready_word(1) [of C A F st] by (auto simp: work_def ready_def)

lemma moved_work:
  assumes "ready C A F st" "words_ok A" "moved C A F st st'"
  shows "work A st' < work A st \<and> under_way C A F st'"
proof -
  note w = ready_word [OF assms(1,2)]
  have i: "optind st < int (length A)" "snd (place st) < length (A ! nat (optind st))"
    using assms(1) by (auto simp: ready_def word_at_def)
  show ?thesis
  proof (cases "resting C A F st' \<and> optind st < optind st'")
    case True
    then have "resting C A F st'" "optind st < optind st'" by simp_all
    then show ?thesis using chars_from_word [OF w(2) _ i(1), of "optind st'"] i(2) assms
      by (simp add: work_resting work_ready under_way_def)
  next
    case False
    then have m: "ready C A F st'" "optind st' = optind st" "snd (place st) < snd (place st')"
      using assms(3) by (auto simp: moved_def)
    then have "snd (place st') < length (A ! nat (optind st))" by (auto simp: ready_def word_at_def)
    then show ?thesis using m chars_from_word [OF w(2) _ i(1), of "optind st + 1"] assms
      by (simp add: work_ready under_way_def)
  qed
qed

lemma from_start_ok:
  assumes A: "words_ok A" and T: "table_ok T" and O: "letters_ok opts"
  shows "under_way (takes F opts T) A F st \<Longrightarrow> \<exists>r st'. getopt_from_start (int (length A)) opts (Some T) idx F st = Inr (r, st') \<and>
    (r = -1 \<and> finished (takes F opts T) A F st' \<or>
     r \<noteq> -1 \<and> under_way (takes F opts T) A F st' \<and> work A st' < work A st \<and> posixly_correct st' = posixly_correct st)"
proof (induction st rule: measure_induct_rule [where f = "\<lambda>st. nat (int (length A) - optind st)"])
  case (less st)
  let ?n = "int (length A)"
  have at_option: "\<exists>r st''. parse_option ?n opts (Some T) idx F st' = Inr (r, st'') \<and> r \<noteq> -1 \<and> under_way (takes F opts T) A F st'' \<and>
      work A st'' < work A st' \<and> posixly_correct st'' = posixly_correct st'" if "ready (takes F opts T) A F st'" for st'
    using parse_option_ok [OF that A T O, of idx] moved_work [OF that A] by (fastforce simp: moved_def)
  show ?case
  proof (cases "ready (takes F opts T) A F st")
    case True
    then have "scan_turn ?n opts F st = Inr (Option_at st)"
      using deref_NUL_iff [of "place st"] ready_word(1) [OF True A] by (auto simp: scan_turn_def ready_def)
    then show ?thesis using at_option [OF True] by (subst getopt_from_start.simps) auto
  next
    case False
    then have R: "resting (takes F opts T) A F st" using less.prems by (simp add: under_way_def)
    then obtain P N Q where L: "layout A F P N Q st" and I: "read_into (takes F opts T) A F (length (P @ N @ Q)) (P @ Q) N"
      and q: "nonopt_end st \<noteq> -1 \<longrightarrow> Q \<noteq> []"
      and r: "optreset st = 0" "deref (place st) = NUL" by (auto simp: resting_def)
    have zero: "st\<lparr>optreset := 0\<rparr> = st" using r(1) by (cases st) simp
    show ?thesis
    proof (cases "?n \<le> optind st")
      case True
      then have "length (P @ N @ Q) = length A" using L by (simp add: layout_def)
      from scan_end_finished [OF L q this I] show ?thesis
        using True r by (subst getopt_from_start.simps) (auto simp: scan_turn_def zero)
    next
      case k: False
      define w where "w = A ! nat (optind st)"
      have i: "0 \<le> optind st" "optind st < ?n" using L k by (auto simp: layout_def)
      then have wn: "NUL \<notin> set w" using A by (simp add: words_ok_def w_def nat_less_iff)
      have turn: "scan_turn ?n opts F st = (if is_option w then scan_hyphen w st else scan_other F w st)"
        using layout_fetch(2) [OF L, of 0] k r O strchr_hyphen [of opts]
        by (auto simp: scan_turn_def zero w_def is_option_def letters_ok_def)
      show ?thesis
      proof (cases "is_option w")
        case True
        from scan_hyphen_cases [OF L q r(1) i(2) w_def True wn I] show ?thesis
        proof (elim disjE exE conjE)
          fix st' assume "scan_hyphen w st = Inr (Returns (-1) st')" "finished (takes F opts T) A F st'"
          then show ?thesis using turn True by (subst getopt_from_start.simps) simp
        next
          fix st' assume s: "scan_hyphen w st = Inr (Option_at st')" "ready (takes F opts T) A F st'" "optind st' = optind st"
            "posixly_correct st' = posixly_correct st"
          then have "work A st' \<le> work A st" by (simp add: work_resting [OF R] work_ready [OF _ A])
          then show ?thesis using s at_option [OF s(2)] turn True by (subst getopt_from_start.simps) fastforce
        qed
      next
        case other: False
        have less_work: "work A st' < work A st" if "resting (takes F opts T) A F st'" "optind st' = optind st + 1" for st'
          using chars_from_word [OF i(1) _ i(2), of "optind st'"] that by (simp add: work_resting [OF R] work_resting)
        from scan_other_cases [OF L q r(1) i(2) w_def other I] show ?thesis
        proof (elim disjE exE conjE)
          fix st' assume "scan_other F w st = Inr (Returns INORDER st')" "resting (takes F opts T) A F st'" "optind st' = optind st + 1"
            "posixly_correct st' = posixly_correct st"
          then show ?thesis using turn other less_work
            by (subst getopt_from_start.simps) (simp add: INORDER_def under_way_def)
        next
          fix st' assume "scan_other F w st = Inr (Returns (-1) st')" "finished (takes F opts T) A F st'"
          then show ?thesis using turn other by (subst getopt_from_start.simps) simp
        next
          fix st' assume s: "scan_other F w st = Inr (Start_again st')" "resting (takes F opts T) A F st'" "optind st' = optind st + 1"
            "posixly_correct st' = posixly_correct st"
          have "nat (?n - optind st') < nat (?n - optind st)" using s(3) k by simp
          from less.IH [OF this] s show ?thesis using turn other less_work [OF s(2,3)]
            by (subst getopt_from_start.simps) (fastforce simp: under_way_def)
        qed
      qed
    qed
  qed
qed

text \<open>
  The flags in effect, the letters after a leading sign, and what
  \<open>posixly_correct\<close> becomes.
\<close>

definition in_effect :: "bool \<Rightarrow> string \<Rightarrow> getopt_flag set \<Rightarrow> getopt_flag set" where
  "in_effect posix_env options flags =
     (if char_at options 0 = CHR ''-'' then insert FLAG_ALLARGS flags
      else if posix_env \<or> char_at options 0 = CHR ''+'' then flags - {FLAG_PERMUTE} else flags)"

definition letters :: "string \<Rightarrow> string" where
  "letters options = (if char_at options 0 = CHR ''+'' \<or> char_at options 0 = CHR ''-'' then tl options else options)"

definition posix_known :: "bool \<Rightarrow> getopt_vars \<Rightarrow> bool" where
  "posix_known posix_env st \<longleftrightarrow> posixly_correct st = -1 \<or> posixly_correct st = (if posix_env then 1 else 0)"

lemma layout_optind: "layout A F P N Q st \<Longrightarrow> 0 < optind st"
  by (cases P) (simp_all add: layout_def)

lemma under_way_optind: "under_way C A F st \<Longrightarrow> optind st \<noteq> 0 \<and> optreset st = 0"
proof -
  assume "under_way C A F st"
  then obtain P N Q where "layout A F P N Q st" "optreset st = 0"
    unfolding under_way_def resting_def ready_def by blast
  then show ?thesis using layout_optind by fastforce
qed

lemma under_way_update:
  assumes "under_way C A F st"
  shows "under_way C A F (st\<lparr>posixly_correct := v, optarg := u\<rparr>)"
    "work A (st\<lparr>posixly_correct := v, optarg := u\<rparr>) = work A st"
proof -
  let ?st = "st\<lparr>posixly_correct := v, optarg := u\<rparr>"
  have "layout A F P N Q ?st = layout A F P N Q st" for P N Q by (simp add: layout_def)
  moreover have "word_at A ?st = word_at A st" "words_after A ?st = words_after A st"
    by (simp_all add: word_at_def words_after_def)
  ultimately have "resting C A F ?st = resting C A F st" "ready C A F ?st = ready C A F st"
    unfolding resting_def ready_def by simp_all
  then show "under_way C A F ?st" using assms by (simp add: under_way_def)
qed (simp add: work_def)

lemma getopt_internal_start:
  assumes "optind st \<noteq> 0" "optreset st = 0" "posix_known posix_env st"
  shows "getopt_internal posix_env n (Some options) T idx flags st =
    getopt_from_start n (letters options) T idx (in_effect posix_env options flags)
      (st\<lparr>posixly_correct := (if posix_env then 1 else 0), optarg := None\<rparr>)"
  using assms by (cases st) (auto simp: getopt_internal_def Let_def letters_def in_effect_def posix_known_def)

lemma getopt_call:
  assumes A: "words_ok A" and T: "table_ok T" and O: "letters_ok (letters options)"
    and U: "under_way (takes (in_effect posix_env options flags) (letters options) T) A (in_effect posix_env options flags) st" and p: "posix_known posix_env st"
  shows "\<exists>r st'. getopt_internal posix_env (int (length A)) (Some options) (Some T) idx flags st = Inr (r, st') \<and>
    (r = -1 \<and> finished (takes (in_effect posix_env options flags) (letters options) T) A (in_effect posix_env options flags) st' \<or>
     r \<noteq> -1 \<and> under_way (takes (in_effect posix_env options flags) (letters options) T) A (in_effect posix_env options flags) st' \<and> work A st' < work A st \<and> posix_known posix_env st')"
  using from_start_ok [OF A T O under_way_update(1) [OF U, where v = "if posix_env then 1 else 0" and u = None], where idx = idx]
    getopt_internal_start [OF _ _ p, of "int (length A)" options "Some T" idx flags] under_way_optind [OF U] under_way_update(2) [OF U]
  by (auto simp: posix_known_def)

lemma getopt_start_under_way:
  assumes "A \<noteq> []"
  shows "under_way C A F (getopt_start A)" "posix_known posix_env (getopt_start A)"
proof -
  have "layout A F [hd A] [] [] (getopt_start A) \<and> read_into C A F (length ([hd A] @ [] @ [])) ([hd A] @ []) []"
    using assms read_into_start [of C A F] by (cases A) (auto simp: layout_def getopt_start_def)
  moreover have "optreset (getopt_start A) = 0" "deref (place (getopt_start A)) = NUL" "nonopt_end (getopt_start A) = -1"
    by (simp_all add: getopt_start_def)
  ultimately show "under_way C A F (getopt_start A)" unfolding under_way_def resting_def by blast
qed (simp add: posix_known_def getopt_start_def)

section \<open>The loop\<close>

text \<open>
  The loop every user of \<open>getopt\<close> writes, with a bound on its turns: the
  values returned with their arguments, and the variables at the end.
\<close>

fun option_loop ::
  "(getopt_vars \<Rightarrow> (int \<times> getopt_vars) result) \<Rightarrow> nat \<Rightarrow> getopt_vars \<Rightarrow>
   ((int \<times> string option) list \<times> getopt_vars) option result" where
  "option_loop call 0 st = Inr None"
| "option_loop call (Suc n) st =
     bindr (call st) (\<lambda>(r, st).
       if r = -1 then Inr (Some ([], st))
       else bindr (option_loop call n st) (\<lambda>rest.
              Inr (map_option (\<lambda>(rs, st'). ((r, optarg st) # rs, st')) rest)))"

lemma option_loop_finishes:
  assumes A: "words_ok A" and T: "table_ok T" and O: "letters_ok (letters options)"
  shows "under_way (takes (in_effect posix_env options flags) (letters options) T) A (in_effect posix_env options flags) st \<Longrightarrow> posix_known posix_env st \<Longrightarrow> work A st < n \<Longrightarrow>
    \<exists>rs st'. option_loop (getopt_internal posix_env (int (length A)) (Some options) (Some T) idx flags) n st = Inr (Some (rs, st')) \<and>
      finished (takes (in_effect posix_env options flags) (letters options) T) A (in_effect posix_env options flags) st'"
proof (induction n arbitrary: st)
  case (Suc n)
  from getopt_call [OF A T O Suc.prems(1,2), of idx]
  obtain r st' where c: "getopt_internal posix_env (int (length A)) (Some options) (Some T) idx flags st = Inr (r, st')"
    and cs: "r = -1 \<and> finished (takes (in_effect posix_env options flags) (letters options) T) A (in_effect posix_env options flags) st' \<or>
     r \<noteq> -1 \<and> under_way (takes (in_effect posix_env options flags) (letters options) T) A (in_effect posix_env options flags) st' \<and> work A st' < work A st \<and> posix_known posix_env st'"
    by blast
  show ?case
  proof (cases "r = -1")
    case True
    then show ?thesis using c cs by simp
  next
    case False
    then have "under_way (takes (in_effect posix_env options flags) (letters options) T) A (in_effect posix_env options flags) st'" "posix_known posix_env st'" "work A st' < n"
      using cs Suc.prems(3) by auto
    from Suc.IH [OF this] show ?thesis using c False by auto
  qed
qed simp

text \<open>Enough turns for every command line: one for each character, and one for each word.\<close>

definition turns :: "string list \<Rightarrow> nat" where
  "turns words = Suc (sum_list (map (\<lambda>w. Suc (length w)) words))"

lemma start_work: "work A (getopt_start A) < turns A"
proof -
  have "chars_from A (int 1) \<le> chars_from A (int 0)"
  proof (cases A)
    case Nil
    then show ?thesis by (simp add: chars_from_def)
  next
    case (Cons w ws)
    then show ?thesis using chars_from_word [of 0 1 A] by simp
  qed
  then show ?thesis by (simp add: work_def turns_def chars_from_def getopt_start_def)
qed

section \<open>How many words an option takes\<close>

text \<open>
  The reference for that.  A key chooses the entry of the table with its name,
  or the one it abbreviates, when all it abbreviates are used alike.
\<close>

definition entries :: "long_option list \<Rightarrow> long_option list" where
  "entries T = takeWhile (\<lambda>x. o_name x \<noteq> None) T"

definition named :: "string \<Rightarrow> long_option list \<Rightarrow> long_option list" where
  "named key T = filter (\<lambda>x. o_name x = Some key) (entries T)"

definition abbreviated :: "string \<Rightarrow> long_option list \<Rightarrow> long_option list" where
  "abbreviated key T = filter (\<lambda>x. take (length key) (the (o_name x)) = key) (entries T)"

definition chosen_long :: "long_option list \<Rightarrow> string \<Rightarrow> long_option option" where
  "chosen_long T key =
     (case named key T of
        x # _ \<Rightarrow> Some x
      | [] \<Rightarrow> (case abbreviated key T of
                [] \<Rightarrow> None
              | x # xs \<Rightarrow> if list_all (identical_interpretation x) xs then Some x else None))"

text \<open>A long option takes a word when its argument is required and not attached by an equals sign.\<close>

definition long_words :: "long_option list \<Rightarrow> string \<Rightarrow> string list \<Rightarrow> nat" where
  "long_words T cur rest =
     (if (case chosen_long T (takeWhile (\<lambda>c. c \<noteq> CHR ''='') cur) of None \<Rightarrow> False | Some x \<Rightarrow> o_has_arg x = required_argument) \<and>
         CHR ''='' \<notin> set cur \<and> rest \<noteq> [] then 1 else 0)"

text \<open>What stands behind a letter in the string of the letters: a colon for an argument, two for an optional one.\<close>

definition behind :: "string \<Rightarrow> char \<Rightarrow> string" where
  "behind opts c = tl (dropWhile (\<lambda>d. d \<noteq> c) opts)"

fun option_words :: "string \<Rightarrow> long_option list \<Rightarrow> string \<Rightarrow> string list \<Rightarrow> nat" where
  "option_words opts T [] rest = 0"
| "option_words opts T (c # u) rest =
     (if c = CHR ''-'' then long_words T u rest
      else if c = CHR '':'' \<or> c \<notin> set opts then option_words opts T u rest
      else if c = CHR ''W'' \<and> take 1 (behind opts c) = '';'' then
        (if u \<noteq> [] then long_words T u rest else case rest of [] \<Rightarrow> 0 | w # ws \<Rightarrow> Suc (long_words T w ws))
      else if take 1 (behind opts c) \<noteq> '':'' then option_words opts T u rest
      else if u = [] \<and> take 2 (behind opts c) \<noteq> ''::'' \<and> rest \<noteq> [] then 1 else 0)"

text \<open>The search of the code chooses that entry.\<close>

lemma identical_sym: "identical_interpretation x y = identical_interpretation y x"
  by (auto simp: identical_interpretation_def)

lemma find_long_chosen:
  assumes "\<exists>x \<in> set rest. o_name x = None" "drop i T = rest" "key = take len cur" "len \<le> length cur"
    and "m = -1 \<or> 0 \<le> m" "m = -1 \<longrightarrow> \<not> amb"
    and "find_long cur len False T i rest m amb = Inr (m', amb')"
  shows "(if amb' \<or> m' = -1 then None else Some (T ! nat m')) =
    (case named key rest of
       x # _ \<Rightarrow> Some x
     | [] \<Rightarrow> if m = -1 then (case abbreviated key rest of
                [] \<Rightarrow> None
              | x # xs \<Rightarrow> if list_all (identical_interpretation x) xs then Some x else None)
            else if amb \<or> \<not> list_all (identical_interpretation (T ! nat m)) (abbreviated key rest) then None
            else Some (T ! nat m))"
  using assms
proof (induction rest arbitrary: i m amb)
  case (Cons x rest)
  have len: "length key = len" using Cons.prems(3,4) by simp
  have "i < length T" using Cons.prems(2) by (cases "i < length T") simp_all
  then have x: "T ! i = x" "drop (Suc i) T = rest"
    using Cons.prems(2) by (auto simp: Cons_nth_drop_Suc [symmetric])
  show ?case
  proof (cases "o_name x")
    case None
    then show ?thesis using Cons.prems by (auto simp: named_def abbreviated_def entries_def)
  next
    case (Some name)
    then have ex: "\<exists>x \<in> set rest. o_name x = None" using Cons.prems(1) by auto
    note IH = Cons.IH [OF ex x(2) Cons.prems(3,4)]
    have ent: "entries (x # rest) = x # entries rest" using Some by (simp add: entries_def)
    have cmp: "strncmp_eq cur name len \<longleftrightarrow> take len name = key" using Cons.prems(3) by (auto simp: strncmp_eq_def)
    show ?thesis
    proof (cases "take len name = key")
      case False
      then have eqs: "named key (x # rest) = named key rest" "abbreviated key (x # rest) = abbreviated key rest"
        using Some len by (auto simp: named_def abbreviated_def ent)
      have "find_long cur len False T (Suc i) rest m amb = Inr (m', amb')"
        using Cons.prems(7) Some cmp False by simp
      then show ?thesis unfolding eqs by (rule IH [OF Cons.prems(5,6)])
    next
      case True
      then have ab: "abbreviated key (x # rest) = x # abbreviated key rest"
        using Some len by (simp add: abbreviated_def ent)
      show ?thesis
      proof (cases "length name = len")
        case exact: True
        then have "name = key" using True by simp
        then have "named key (x # rest) = x # named key rest" using Some by (simp add: named_def ent)
        then show ?thesis using Cons.prems(7) Some cmp True exact x(1) by auto
      next
        case longer: False
        then have "name \<noteq> key" using len by auto
        then have nm: "named key (x # rest) = named key rest" using Some by (simp add: named_def ent)
        show ?thesis
        proof (cases "m = -1")
          case m: True
          have found: "find_long cur len False T (Suc i) rest (int i) amb = Inr (m', amb')"
            using Cons.prems(7) Some cmp True longer m by simp
          have ni: "int i = -1 \<longleftrightarrow> False" "int i = -1 \<longrightarrow> \<not> amb" by simp_all
          from IH [OF disjI2 [OF of_nat_0_le_iff] ni(2) found] have
            "(if amb' \<or> m' = -1 then None else Some (T ! nat m')) = (case named key rest of x # _ \<Rightarrow> Some x
             | [] \<Rightarrow> if amb \<or> \<not> list_all (identical_interpretation x) (abbreviated key rest) then None else Some x)"
            unfolding ni(1) nat_int x(1) if_False .
          then show ?thesis using m Cons.prems(6) unfolding nm ab by (simp split: list.split)
        next
          case m: False
          have "find_long cur len False T (Suc i) rest m (amb \<or> \<not> identical_interpretation x (T ! nat m)) = Inr (m', amb')"
            using Cons.prems(7) Some cmp True longer m by simp
          from IH [OF Cons.prems(5) _ this] show ?thesis
            using m identical_sym [of x] unfolding nm ab by (simp split: list.split)
        qed
      qed
    qed
  qed
qed simp

lemma strchr_dropWhile: "c \<noteq> NUL \<Longrightarrow> strchr s c = (if c \<in> set s then Some (dropWhile (\<lambda>d. d \<noteq> c) s) else None)"
  by (induction s) auto

lemma key_len_takeWhile: "key_len cur = length (takeWhile (\<lambda>c. c \<noteq> CHR ''='') cur)"
proof -
  have "length cur = length (takeWhile (\<lambda>c. c \<noteq> CHR ''='') cur) + length (dropWhile (\<lambda>c. c \<noteq> CHR ''='') cur)"
    by (metis length_append takeWhile_dropWhile_id)
  moreover have "CHR ''='' \<notin> set cur \<Longrightarrow> takeWhile (\<lambda>c. c \<noteq> CHR ''='') cur = cur" by auto
  ultimately show ?thesis by (simp add: key_len_def strchr_dropWhile NUL_def)
qed

lemma long_takes_words:
  assumes "table_ok T"
  shows "long_takes T False cur (rest \<noteq> []) = Some (long_words T cur rest)"
proof -
  let ?key = "takeWhile (\<lambda>c. c \<noteq> CHR ''='') cur"
  have key: "?key = take (key_len cur) cur" "key_len cur \<le> length cur"
    by (simp_all add: key_len_takeWhile takeWhile_eq_take [symmetric] length_takeWhile_le)
  have stop: "\<exists>x \<in> set T. o_name x = None" using assms by (simp add: table_ok_def)
  obtain m amb where f: "find_long cur (key_len cur) False T 0 T (-1) False = Inr (m, amb)"
    using find_long_index [OF stop, of 0 T "-1"] by fastforce
  have "chosen_long T ?key = (if amb \<or> m = -1 then None else Some (T ! nat m))"
    using find_long_chosen [OF stop _ key _ _ f] by (simp add: chosen_long_def)
  then show ?thesis using f by (auto simp: long_takes_def long_words_def strchr_None NUL_def split: if_splits)
qed

lemma char_at_tl: "d \<noteq> NUL \<Longrightarrow> char_at s 1 = d \<longleftrightarrow> take 1 (tl s) = [d]"
  by (cases s; cases "tl s") (auto simp: char_at_def)

lemma char_at_tl_tl: "d \<noteq> NUL \<Longrightarrow> char_at s 1 = c \<Longrightarrow> c \<noteq> NUL \<Longrightarrow> char_at s 2 = d \<longleftrightarrow> take 2 (tl s) = [c, d]"
  by (cases s; cases "tl s"; cases "tl (tl s)") (auto simp: char_at_def numeral_2_eq_2)

lemma takes_words:
  assumes "FLAG_LONGONLY \<notin> F" "table_ok T" "NUL \<notin> set u"
  shows "takes F opts T u rest = option_words opts T u rest"
  using assms(3)
proof (induction u)
  case (Cons c u)
  then have c: "c \<noteq> NUL" by auto
  define oli where "oli = dropWhile (\<lambda>d. d \<noteq> c) opts"
  note oli = char_at_tl [of _ oli] char_at_tl_tl [of _ oli]
  show ?case
    using Cons assms(1) long_takes_words [OF assms(2)] c oli(1) [of "CHR '';''"] oli(1) [of "CHR '':''"] oli(2) [of "CHR '':''" "CHR '':''"]
    by (auto simp: strchr_dropWhile behind_def oli_def [symmetric] NUL_def split: list.split)
qed simp

lemma arrange_takes:
  assumes "FLAG_LONGONLY \<notin> F" "table_ok T" "words_ok ws"
  shows "arrange (takes F opts T) F ws = arrange (option_words opts T) F ws"
  using assms(3)
proof (induction ws rule: measure_induct_rule [where f = length])
  case (less ws)
  show ?case
  proof (cases ws)
    case (Cons w rest)
    then have "NUL \<notin> set (tl w)" using less.prems by (cases w) (auto simp: words_ok_def)
    note same = takes_words [OF assms(1,2) this]
    have "words_ok (drop k rest)" for k using less.prems Cons by (auto simp: words_ok_def dest: in_set_dropD)
    then have "arrange (takes F opts T) F (drop k rest) = arrange (option_words opts T) F (drop k rest)" for k
      using less.IH [of "drop k rest"] Cons by simp
    from this [of "option_words opts T (tl w) rest"] this [of 0] show ?thesis unfolding Cons by (simp add: same)
  qed simp
qed

text \<open>With permutation everything is looked at, up to a double hyphen.\<close>

lemma arrange_rest:
  "FLAG_PERMUTE \<in> F \<Longrightarrow> arrange C F ws = (P, N, R) \<Longrightarrow> R = [] \<or> P \<noteq> [] \<and> last P = ''--''"
  by (induction C F ws arbitrary: P N R rule: arrange.induct) (auto split: if_splits prod.splits)

section \<open>Properties\<close>

text \<open>
  C11: Called in a loop, \<open>getopt_long\<close> and \<open>getopt_long_only\<close> return -1 after
  at most as many calls as the command line has characters and words, without
  touching memory outside the vector or the table, whatever the command line
  is; the table has to be terminated and the letters must not be a hyphen or
  the character that is -1 as an integer.
\<close>

theorem getopt_loop_ends:
  assumes "words \<noteq> []" "words_ok words" "table_ok T" "letters_ok (letters options)"
  shows "(\<exists>rs st. option_loop (getopt_long posix_env (int (length words)) (Some options) (Some T) idx)
            (turns words) (getopt_start words) = Inr (Some (rs, st))) \<and>
    (\<exists>rs st. option_loop (getopt_long_only posix_env (int (length words)) (Some options) (Some T) idx)
            (turns words) (getopt_start words) = Inr (Some (rs, st)))"
  unfolding getopt_long_def getopt_long_only_def
  using option_loop_finishes [OF assms(2-4) getopt_start_under_way [OF assms(1)] start_work] by blast

theorem getopt_loop_ends_witness:
  "\<exists>rs st. option_loop (getopt_long True (int (length [''emu'', ''x'', ''-v''])) (Some ''v'')
     (Some [\<lparr>o_name = Some ''verbose'', o_has_arg = 0, o_flag = None, o_val = 118\<rparr>,
          \<lparr>o_name = None, o_has_arg = 0, o_flag = None, o_val = 0\<rparr>]) False)
     (turns [''emu'', ''x'', ''-v'']) (getopt_start [''emu'', ''x'', ''-v'']) = Inr (Some (rs, st))"
  by (rule getopt_loop_ends [THEN conjunct1])
    (simp_all add: words_ok_def table_ok_def letters_ok_def letters_def char_at_def char_int_def NUL_def)

text \<open>
  C6: When the loop has ended, the vector holds the program's name, the
  options with their arguments, the other words, and what was not looked at,
  as one reading of the command line from left to right sorts them; \<open>optind\<close>
  points behind the options.  An option has as many arguments as its letters
  or its entry in the table say.  Both groups keep their order, the words put
  aside are no options, and everything has been looked at unless the last
  word recognised is a double hyphen or words are not permuted.
\<close>

theorem getopt_loop_order:
  assumes "words \<noteq> []" "words_ok words" "table_ok T" "letters_ok (letters options)"
    and "option_loop (getopt_long posix_env (int (length words)) (Some options) (Some T) idx)
      (turns words) (getopt_start words) = Inr (Some (rs, st))"
    and "F = in_effect posix_env options {FLAG_PERMUTE}"
    and "arrange (option_words (letters options) T) F (tl words) = (P, N, R)"
  shows "nargv st = map Some (hd words # P @ N @ R) @ [None] \<and> optind st = int (Suc (length P)) \<and>
    (\<exists>k \<le> length (tl words). take k (tl words) \<in> shuffles P N \<and> R = drop k (tl words)) \<and>
    (\<forall>w \<in> set N. \<not> is_option w) \<and> (FLAG_PERMUTE \<in> F \<longrightarrow> R = [] \<or> P \<noteq> [] \<and> last P = ''--'')"
proof -
  have "FLAG_LONGONLY \<notin> F" by (simp add: assms(6) in_effect_def)
  moreover have "words_ok (tl words)" using assms(1,2) by (cases words) (simp_all add: words_ok_def)
  ultimately have eq: "arrange (takes F (letters options) T) F (tl words) = (P, N, R)"
    using arrange_takes [OF _ assms(3)] assms(7) by simp
  have "finished (takes F (letters options) T) words F st"
    using option_loop_finishes [OF assms(2-4) getopt_start_under_way [OF assms(1)] start_work, where flags = "{FLAG_PERMUTE}" and posix_env = posix_env and idx = idx] assms(5)
    by (auto simp: getopt_long_def assms(6))
  then have "nargv st = map Some (hd words # P @ N @ R) @ [None] \<and> optind st = int (Suc (length P))"
    by (simp add: finished_def eq)
  then show ?thesis using arrange_order [OF assms(7)] arrange_rest [OF _ assms(7)] by blast
qed

theorem getopt_loop_order_witness:
  "\<exists>rs st. option_loop (getopt_long False 5 (Some ''vp:'')
       (Some [\<lparr>o_name = Some ''port'', o_has_arg = 1, o_flag = None, o_val = 112\<rparr>,
          \<lparr>o_name = None, o_has_arg = 0, o_flag = None, o_val = 0\<rparr>]) False)
       (turns [''emu'', ''x'', ''-vp'', ''80'', ''--port'']) (getopt_start [''emu'', ''x'', ''-vp'', ''80'', ''--port'']) = Inr (Some (rs, st)) \<and>
     nargv st = map Some [''emu'', ''-vp'', ''80'', ''--port'', ''x''] @ [None] \<and> optind st = 4"
proof -
  let ?A = "[''emu'', ''x'', ''-vp'', ''80'', ''--port'']" and ?T = "[\<lparr>o_name = Some ''port'', o_has_arg = 1, o_flag = None, o_val = 112\<rparr>,
          \<lparr>o_name = None, o_has_arg = 0, o_flag = None, o_val = 0\<rparr>]"
  have ok: "?A \<noteq> []" "words_ok ?A" "table_ok ?T" "letters_ok (letters ''vp:'')" "int (length ?A) = 5"
    by (simp_all add: words_ok_def table_ok_def letters_ok_def letters_def char_at_def char_int_def NUL_def)
  obtain rs st where run: "option_loop (getopt_long False (int (length ?A)) (Some ''vp:'') (Some ?T) False) (turns ?A) (getopt_start ?A) =
      Inr (Some (rs, st))"
    unfolding getopt_long_def
    using option_loop_finishes [OF ok(2,3,4) getopt_start_under_way [OF ok(1)] start_work] by blast
  have "arrange (option_words (letters ''vp:'') ?T) (in_effect False ''vp:'' {FLAG_PERMUTE}) (tl ?A) =
      ([''-vp'', ''80'', ''--port''], [''x''], [])"
    by code_simp
  from getopt_loop_order [OF ok(1-4) run refl this] run show ?thesis unfolding ok(5) by auto
qed

end
