(* ===== verification/Command_Line.thy ===== *)
theory Command_Line
  imports Getopt_Loop Main_Prog
begin

text \<open>
  \<open>main\<close> with the \<open>getopt_long\<close> of deps/wingetopt, as it is built on Windows:
  from the words of the command line to the arguments of the server.  The
  table of long options has no terminating entry, as in the code.
\<close>

section \<open>The program\<close>

definition longOptions :: "long_option list" where
  "longOptions =
     [\<lparr>o_name = Some ''help'', o_has_arg = no_argument, o_flag = None, o_val = char_int CHR ''h''\<rparr>,
      \<lparr>o_name = Some ''list'', o_has_arg = no_argument, o_flag = None, o_val = char_int CHR ''l''\<rparr>,
      \<lparr>o_name = Some ''verbose'', o_has_arg = no_argument, o_flag = None, o_val = char_int CHR ''v''\<rparr>,
      \<lparr>o_name = Some ''port'', o_has_arg = required_argument, o_flag = None, o_val = char_int CHR ''p''\<rparr>]"

text \<open>The label of the switch that \<open>retOption\<close> equals, if any.\<close>

definition switch_label :: "int \<Rightarrow> char option" where
  "switch_label retOption = find (\<lambda>c. char_int c = retOption) ''hlvp''"

text \<open>The call, and what \<open>main\<close> goes on with: the label, \<open>optarg\<close> and \<open>argv\<close>.\<close>

definition win_getopt :: "bool \<Rightarrow> string list \<Rightarrow> (char option \<times> string option \<times> string list) result" where
  "win_getopt posix_env words =
     bindr (getopt_long posix_env (int (length words)) (Some ''hlvp:'') (Some longOptions) False (getopt_start words))
       (\<lambda>(retOption, st). Inr (switch_label retOption, optarg st, map the (butlast (nargv st))))"

definition main_program :: "bool \<Rightarrow> string list \<Rightarrow> (log_call list \<times> (int + string \<times> string list \<times> u16)) result" where
  "main_program posix_env words =
     bindr (win_getopt posix_env words) (\<lambda>(label, optarg, argv). Inr (main_args label optarg argv))"

section \<open>The first call\<close>

text \<open>The variables when the words before the \<open>k\<close>-th have been skipped.\<close>

definition skipped_to :: "string list \<Rightarrow> nat \<Rightarrow> getopt_vars" where
  "skipped_to A k = (getopt_start A)\<lparr>posixly_correct := 0, optind := int k, nonopt_start := (if k = 1 then -1 else 1)\<rparr>"

lemma skipped_to_simps [simp]:
  "optreset (skipped_to A k) = 0" "place (skipped_to A k) = EMSG" "optind (skipped_to A k) = int k"
  "nonopt_start (skipped_to A k) = (if k = 1 then -1 else 1)" "nonopt_end (skipped_to A k) = -1"
  "nargv (skipped_to A k) = map Some A @ [None]" "optarg (skipped_to A k) = None"
  by (simp_all add: skipped_to_def getopt_start_def)

lemma skipped_to_reset [simp]: "(skipped_to A k)\<lparr>optreset := 0\<rparr> = skipped_to A k"
  by (simp add: skipped_to_def getopt_start_def)

lemma skipped_to_fetch:
  "i < length A \<Longrightarrow> fetch (map Some A @ [None]) (int i) = Inr (Some (A ! i))"
  "i < length A \<Longrightarrow> nargv st = map Some A @ [None] \<Longrightarrow> arg_at st (int i) = Inr (A ! i)"
  by (simp_all add: fetch_def arg_at_def nth_append)

lemma skipped_to_turn:
  assumes "k < length A" "CHR ''-'' \<notin> set opts"
  shows "scan_turn (int (length A)) opts F (skipped_to A k) =
    (if is_option (A ! k) then scan_hyphen (A ! k) (skipped_to A k) else scan_other F (A ! k) (skipped_to A k))"
  using assms strchr_hyphen [OF assms(2)] by (auto simp: scan_turn_def is_option_def skipped_to_fetch)

lemma skip_words:
  assumes F: "FLAG_PERMUTE \<in> F" "FLAG_ALLARGS \<notin> F" and O: "CHR ''-'' \<notin> set opts"
  shows "1 \<le> k \<Longrightarrow> k \<le> length A \<Longrightarrow> \<forall>i. 1 \<le> i \<and> i < k \<longrightarrow> \<not> is_option (A ! i) \<Longrightarrow>
    getopt_from_start (int (length A)) opts T idx F (skipped_to A 1) =
    getopt_from_start (int (length A)) opts T idx F (skipped_to A k)"
proof (induction k rule: nat_induct_at_least)
  case (Suc k)
  have "scan_other F (A ! k) (skipped_to A k) = Inr (Start_again (skipped_to A (Suc k)))"
    using F Suc.hyps by (auto simp: scan_other_def skipped_to_def getopt_start_def)
  moreover have "\<not> is_option (A ! k)" using Suc.hyps Suc.prems(2) by simp
  ultimately have "scan_turn (int (length A)) opts F (skipped_to A k) = Inr (Start_again (skipped_to A (Suc k)))"
    using Suc.prems(1) by (simp add: skipped_to_turn [OF _ O])
  then have "getopt_from_start (int (length A)) opts T idx F (skipped_to A k) =
      getopt_from_start (int (length A)) opts T idx F (skipped_to A (Suc k))"
    by (subst getopt_from_start.simps) simp
  then show ?case using Suc by simp
qed simp

lemma skip_all:
  assumes "A \<noteq> []"
  shows "\<exists>st. getopt_from_start (int (length A)) opts T idx F (skipped_to A (length A)) = Inr (-1, st) \<and>
    nargv st = map Some A @ [None] \<and> optarg st = None"
  by (subst getopt_from_start.simps) (auto simp: scan_turn_def scan_end_def)

text \<open>The first option.\<close>

lemma skip_to_option:
  assumes "k < length A" "is_option (A ! k)" "A ! k \<noteq> ''--''" "NUL \<notin> set (A ! k)" "CHR ''-'' \<notin> set opts"
  obtains st where "getopt_from_start (int (length A)) opts T idx F (skipped_to A k) =
      parse_option (int (length A)) opts T idx F st"
    "place st = (A ! k, 1)" "optind st = int k" "nargv st = map Some A @ [None]" "optarg st = None"
proof -
  let ?w = "A ! k"
  have "1 < length ?w" using assms(2) by (auto simp: is_option_def char_at_def split: if_split_asm)
  have "\<not> (char_at ?w 1 = CHR ''-'' \<and> char_at ?w 2 = NUL)"
  proof
    assume a: "char_at ?w 1 = CHR ''-'' \<and> char_at ?w 2 = NUL"
    then have "length ?w = 2" using \<open>1 < length ?w\<close> char_at_NUL_iff [OF assms(4), of 2] by simp
    moreover have "?w ! 0 = CHR ''-''" "?w ! 1 = CHR ''-''"
      using a assms(2) \<open>1 < length ?w\<close> by (auto simp: is_option_def char_at_def split: if_split_asm)
    ultimately have "?w = ''--''" by (auto intro!: nth_equalityI simp: less_Suc_eq numeral_2_eq_2)
    then show False using assms(3) by simp
  qed
  then obtain st where "scan_hyphen ?w (skipped_to A k) = Inr (Option_at st)" "place st = (?w, 1)"
    "optind st = int k" "nargv st = map Some A @ [None]" "optarg st = None"
    using assms(2) by (auto simp: scan_hyphen_def Let_def is_option_def)
  moreover from this have "getopt_from_start (int (length A)) opts T idx F (skipped_to A k) =
      parse_option (int (length A)) opts T idx F st"
    using assms by (subst getopt_from_start.simps) (simp add: skipped_to_turn)
  ultimately show ?thesis using that by blast
qed

lemma main_program_start:
  assumes "A \<noteq> []"
  shows "getopt_long False (int (length A)) (Some ''hlvp:'') T idx (getopt_start A) =
    getopt_from_start (int (length A)) ''hlvp:'' T idx {FLAG_PERMUTE} (skipped_to A 1)"
proof -
  have "letters ''hlvp:'' = ''hlvp:''" "in_effect False ''hlvp:'' {FLAG_PERMUTE} = {FLAG_PERMUTE}"
    by (simp_all add: letters_def in_effect_def char_at_def)
  moreover have "(getopt_start A)\<lparr>posixly_correct := 0, optarg := None\<rparr> = skipped_to A 1"
    by (simp add: skipped_to_def getopt_start_def)
  moreover have "optind (getopt_start A) \<noteq> 0" "optreset (getopt_start A) = 0" "posix_known False (getopt_start A)"
    by (simp_all add: getopt_start_def posix_known_def)
  ultimately show ?thesis unfolding getopt_long_def by (simp add: getopt_internal_start)
qed

section \<open>The options of the program\<close>

lemma switch_labels:
  "switch_label (char_int CHR ''h'') = Some CHR ''h''" "switch_label (char_int CHR ''l'') = Some CHR ''l''"
  "switch_label (char_int CHR ''v'') = Some CHR ''v''" "switch_label (char_int CHR ''p'') = Some CHR ''p''"
  "switch_label (-1) = None"
  by (simp_all add: switch_label_def char_int_def Let_def)

text \<open>The words that turn the verbose mode on.\<close>

lemma parse_verbose:
  assumes "w = ''-v'' \<or> w = ''--verbose''" "place st = (w, 1)" "fetch (nargv st) (optind st) = Inr a"
  shows "\<exists>st'. parse_option n ''hlvp:'' (Some longOptions) idx {FLAG_PERMUTE} st = Inr (char_int CHR ''v'', st') \<and> nargv st' = nargv st"
  using assms
  by (elim disjE) (simp_all add: parse_option_def parse_short_def parse_long_options_def same_pointer_def deref_def
      advance_def pointed_def char_at_def longOptions_def strncmp_eq_def NUL_def no_argument_def required_argument_def
      optional_argument_def char_int_def Let_def)

text \<open>The port as a word of its own.\<close>

lemma parse_port:
  assumes "place st = (''-p'', 1)" "fetch (nargv st) (optind st) = Inr a" "optind st + 1 < n"
    "fetch (nargv st) (optind st + 1) = Inr (Some p)"
  shows "\<exists>st'. parse_option n ''hlvp:'' (Some longOptions) idx {FLAG_PERMUTE} st = Inr (char_int CHR ''p'', st') \<and>
    nargv st' = nargv st \<and> optarg st' = Some p"
  using assms
  by (simp add: parse_option_def parse_short_def same_pointer_def deref_def
      advance_def pointed_def char_at_def NUL_def char_int_def Let_def)

text \<open>A long option that is none of the four: the search runs past the table.\<close>

lemma find_long_beyond:
  "\<forall>x \<in> set rest. \<exists>name. o_name x = Some name \<and> take len cur \<noteq> name \<Longrightarrow>
   len \<le> length cur \<Longrightarrow> find_long cur len short_too T i rest m a = Inl OutOfBounds"
proof (induction rest arbitrary: i m a)
  case (Cons x rest)
  then obtain name where n: "o_name x = Some name" "take len cur \<noteq> name" by auto
  then have "\<not> (strncmp_eq cur name len \<and> length name = len)" by (auto simp: strncmp_eq_def)
  with n Cons show ?case by auto
qed simp

lemma strchr_length: "strchr s c = Some u \<Longrightarrow> length u \<le> length s"
  by (induction s) (auto split: if_split_asm)

lemma parse_unknown_long:
  assumes "place st = (''--'' @ t, 1)" "fetch (nargv st) (optind st) = Inr a" "t \<noteq> []"
    and "takeWhile (\<lambda>c. c \<noteq> CHR ''='') t \<notin> {''help'', ''list'', ''verbose'', ''port''}"
  shows "parse_option n ''hlvp:'' (Some longOptions) idx {FLAG_PERMUTE} st = Inl OutOfBounds"
proof -
  define len where "len = (case strchr t CHR ''='' of None \<Rightarrow> length t | Some u \<Rightarrow> length t - length u)"
  have "take len t = takeWhile (\<lambda>c. c \<noteq> CHR ''='') t \<and> len \<le> length t"
  proof -
    have "take (case strchr t CHR ''='' of None \<Rightarrow> length t | Some u \<Rightarrow> length t - length u) t =
        takeWhile (\<lambda>c. c \<noteq> CHR ''='') t"
      by (induction t) (auto simp: NUL_def Suc_diff_le dest: strchr_length split: option.splits)
    then show ?thesis by (auto simp: len_def split: option.splits)
  qed
  then have "find_long t len False longOptions 0 longOptions (-1) False = Inl OutOfBounds"
    using assms(4) by (intro find_long_beyond) (auto simp: longOptions_def)
  moreover define st' where "st' = st\<lparr>place := advance (place st)\<rparr>"
  have "pointed (place st') = t" using assms(1) by (simp add: st'_def pointed_def advance_def)
  ultimately have "parse_long_options ''hlvp:'' longOptions idx False st' = Inl OutOfBounds"
    by (simp add: parse_long_options_def Let_def len_def)
  then show ?thesis
    using assms(1-3) by (simp add: parse_option_def same_pointer_def deref_def char_at_def st'_def)
qed

section \<open>Properties\<close>

text \<open>The words \<open>main\<close> finds in \<open>argv\<close> after the call.\<close>

lemma argv_words: "map the (butlast (map Some A @ [None])) = A"
  by (simp add: comp_def)

lemma win_getopt_call:
  assumes "getopt_long posix_env (int (length A)) (Some ''hlvp:'') (Some longOptions) False (getopt_start A) = Inr (r, st)"
    and "nargv st = map Some A @ [None]"
  shows "win_getopt posix_env A = Inr (switch_label r, optarg st, A)"
  using assms by (simp add: win_getopt_def argv_words)

lemma main_program_call:
  assumes "getopt_long posix_env (int (length A)) (Some ''hlvp:'') (Some longOptions) False (getopt_start A) = Inr (r, st)"
    and "nargv st = map Some A @ [None]"
  shows "main_program posix_env A = Inr (main_args (switch_label r) (optarg st) A)"
  using win_getopt_call [OF assms] by (simp add: main_program_def)

text \<open>The call made by \<open>main\<close> when the first option is the word at \<open>k\<close>.\<close>

lemma first_option:
  assumes "1 \<le> k" "k < length A" "\<forall>i. 1 \<le> i \<and> i < k \<longrightarrow> \<not> is_option (A ! i)"
    and "is_option (A ! k)" "A ! k \<noteq> ''--''" "NUL \<notin> set (A ! k)"
  obtains st where "getopt_long False (int (length A)) (Some ''hlvp:'') (Some longOptions) False (getopt_start A) =
      parse_option (int (length A)) ''hlvp:'' (Some longOptions) False {FLAG_PERMUTE} st"
    "place st = (A ! k, 1)" "optind st = int k" "nargv st = map Some A @ [None]"
proof -
  have O: "CHR ''-'' \<notin> set ''hlvp:''" by simp
  have "A \<noteq> []" using assms(2) by auto
  from main_program_start [OF this] skip_words [of "{FLAG_PERMUTE}" "''hlvp:''" k A "Some longOptions" False] assms(1-3)
  have "getopt_long False (int (length A)) (Some ''hlvp:'') (Some longOptions) False (getopt_start A) =
      getopt_from_start (int (length A)) ''hlvp:'' (Some longOptions) False {FLAG_PERMUTE} (skipped_to A k)"
    by simp
  then show ?thesis
    using skip_to_option [OF assms(2,4-6) O, of "Some longOptions" False "{FLAG_PERMUTE}"] that by metis
qed

lemma first_call:
  assumes "\<forall>w \<in> set ws. \<not> is_option w" "is_option v" "v \<noteq> ''--''" "NUL \<notin> set v"
  shows "\<exists>st. getopt_long False (int (length (prog # ws @ v # rest))) (Some ''hlvp:'') (Some longOptions) False
        (getopt_start (prog # ws @ v # rest)) =
      parse_option (int (length (prog # ws @ v # rest))) ''hlvp:'' (Some longOptions) False {FLAG_PERMUTE} st \<and>
    place st = (v, 1) \<and> optind st = int (Suc (length ws)) \<and> nargv st = map Some (prog # ws @ v # rest) @ [None] \<and>
    fetch (nargv st) (optind st) = Inr (Some v)"
proof -
  let ?A = "prog # ws @ v # rest" and ?k = "Suc (length ws)"
  have A: "?A ! ?k = v" by (simp add: nth_append)
  have "\<forall>i. 1 \<le> i \<and> i < ?k \<longrightarrow> \<not> is_option (?A ! i)"
    using assms(1) by (auto simp: nth_append nth_Cons split: nat.split)
  from first_option [OF _ _ this] assms(2-4) obtain st where
    "getopt_long False (int (length ?A)) (Some ''hlvp:'') (Some longOptions) False (getopt_start ?A) =
      parse_option (int (length ?A)) ''hlvp:'' (Some longOptions) False {FLAG_PERMUTE} st"
    "place st = (v, 1)" "optind st = int ?k" "nargv st = map Some ?A @ [None]"
    unfolding A by auto
  moreover from this have "fetch (nargv st) (optind st) = Inr (Some v)"
    using skipped_to_fetch(1) [of ?k ?A] A by simp
  ultimately show ?thesis by blast
qed

lemma first_port:
  assumes "\<forall>w \<in> set ws. \<not> is_option w"
  shows "\<exists>st. getopt_long False (int (length (prog # ws @ ''-p'' # p # rest))) (Some ''hlvp:'') (Some longOptions) False
        (getopt_start (prog # ws @ ''-p'' # p # rest)) = Inr (char_int CHR ''p'', st) \<and>
    nargv st = map Some (prog # ws @ ''-p'' # p # rest) @ [None] \<and> optarg st = Some p"
proof -
  let ?A = "prog # ws @ ''-p'' # p # rest"
  have o: "is_option ''-p''" "''-p'' \<noteq> ''--''" "NUL \<notin> set ''-p''"
    by (simp_all add: is_option_def char_at_def NUL_def)
  obtain st where g: "getopt_long False (int (length ?A)) (Some ''hlvp:'') (Some longOptions) False (getopt_start ?A) =
      parse_option (int (length ?A)) ''hlvp:'' (Some longOptions) False {FLAG_PERMUTE} st"
    and st: "place st = (''-p'', 1)" "optind st = int (Suc (length ws))" "nargv st = map Some ?A @ [None]"
      "fetch (nargv st) (optind st) = Inr (Some ''-p'')"
    using first_call [OF assms o, of prog "p # rest"] by auto
  have "?A ! Suc (Suc (length ws)) = p" by (simp add: nth_append)
  then have "fetch (nargv st) (optind st + 1) = Inr (Some p)"
    using skipped_to_fetch(1) [of "Suc (Suc (length ws))" ?A] unfolding st(2,3) by (simp add: add.commute)
  moreover have "optind st + 1 < int (length ?A)" using st(2) by simp
  ultimately obtain st' where "parse_option (int (length ?A)) ''hlvp:'' (Some longOptions) False {FLAG_PERMUTE} st =
      Inr (char_int CHR ''p'', st')" "nargv st' = nargv st" "optarg st' = Some p"
    using parse_port [OF st(1,4)] by blast
  then show ?thesis using g st(3) by auto
qed

lemma main_port:
  assumes "\<forall>w \<in> set ws. \<not> is_option w"
  shows "main_program False (prog # ws @ ''-p'' # p # rest) =
    Inr (main_args (switch_label (char_int CHR ''p'')) (Some p) (prog # ws @ ''-p'' # p # rest))"
  using first_port [OF assms, of prog p rest] main_program_call by metis

lemma strToUint16T_nat:
  assumes "n < 65536"
  shows "strToUint16T (show_nat n) = ([(IIO_EMU_INFO, [''TCP Port: '', show_nat n])], Inr (of_nat n))"
proof -
  have "parse_int (show_nat n) = Some (int n, [])"
    using show_nat_digits [of n] parse_int_digits(1) [of "show_nat n"] by (simp add: digits_val_show_nat)
  moreover have "show_nat n \<noteq> []" using show_nat_digits [of n] by auto
  ultimately show ?thesis using assms by (auto simp: strToUint16T_def strtoimax_def UINT16_MAX_def)
qed

lemma no_option:
  assumes "A \<noteq> []" "\<forall>w \<in> set (tl A). \<not> is_option w"
  shows "\<exists>st. getopt_long False (int (length A)) (Some ''hlvp:'') T idx (getopt_start A) = Inr (-1, st) \<and>
    nargv st = map Some A @ [None] \<and> optarg st = None"
proof -
  have "\<forall>i. 1 \<le> i \<and> i < length A \<longrightarrow> \<not> is_option (A ! i)"
    using assms by (cases A) (auto simp: nth_Cons split: nat.split)
  with skip_words [of "{FLAG_PERMUTE}" "''hlvp:''" "length A" A T idx] assms(1)
  have "getopt_from_start (int (length A)) ''hlvp:'' T idx {FLAG_PERMUTE} (skipped_to A 1) =
      getopt_from_start (int (length A)) ''hlvp:'' T idx {FLAG_PERMUTE} (skipped_to A (length A))"
    by (cases A) simp_all
  then show ?thesis using skip_all [OF assms(1)] main_program_start [OF assms(1)] by simp
qed

lemma win_getopt_none:
  assumes "A \<noteq> []" "\<forall>w \<in> set (tl A). \<not> is_option w"
  shows "win_getopt False A = Inr (None, None, A)"
proof -
  obtain st where "getopt_long False (int (length A)) (Some ''hlvp:'') (Some longOptions) False (getopt_start A) = Inr (-1, st)"
    "nargv st = map Some A @ [None]" "optarg st = None"
    using no_option [OF assms, of "Some longOptions" False] by blast
  then show ?thesis using win_getopt_call switch_labels(5) by metis
qed

text \<open>
  C12: What the program makes of a command line without options, or with the
  verbose option at the end: the second word is the type of the device, all
  the others but the verbose option are its arguments, and the port is the
  default one, 30431, whatever the arguments are.  This agrees with
  GENERIC_EMULATOR.md and not with README.md, which documents a TCP port
  behind the path among the arguments of the generic emulator: such a word is
  handed on as an argument like the others, and the server listens on 30431.
\<close>

theorem command_line_server:
  assumes "\<forall>w \<in> set (type # args). \<not> is_option w" "v \<in> {''-v'', ''--verbose''}"
  shows "main_program False (prog # type # args) =
      Inr ([(IIO_EMU_INFO, [''Virtual device: '', type])], Inr (type, args, 30431)) \<and>
    main_program False (prog # type # args @ [v]) =
      Inr ([(IIO_EMU_INFO, [''Virtual device: '', type])], Inr (type, args, 30431))"
proof
  let ?A = "prog # type # args"
  obtain st where "getopt_long False (int (length ?A)) (Some ''hlvp:'') (Some longOptions) False (getopt_start ?A) = Inr (-1, st)"
    "nargv st = map Some ?A @ [None]" "optarg st = None"
    using no_option [of ?A "Some longOptions" False] assms(1) by auto
  from main_program_call [OF this(1,2)] this(3)
  show "main_program False ?A = Inr ([(IIO_EMU_INFO, [''Virtual device: '', type])], Inr (type, args, 30431))"
    by (simp add: switch_labels main_args_def handleOptions_def initial_globals_def Let_def)
  let ?B = "prog # type # args @ [v]"
  have "is_option v" "v \<noteq> ''--''" "NUL \<notin> set v" using assms(2) by (auto simp: is_option_def char_at_def NUL_def)
  from first_call [of "type # args" v prog "[]", OF assms(1) this] obtain st where
    g: "getopt_long False (int (length ?B)) (Some ''hlvp:'') (Some longOptions) False (getopt_start ?B) =
      parse_option (int (length ?B)) ''hlvp:'' (Some longOptions) False {FLAG_PERMUTE} st"
    and st: "place st = (v, 1)" "nargv st = map Some ?B @ [None]" "fetch (nargv st) (optind st) = Inr (Some v)"
    by auto
  obtain st' where p: "parse_option (int (length ?B)) ''hlvp:'' (Some longOptions) False {FLAG_PERMUTE} st =
      Inr (char_int CHR ''v'', st')" "nargv st' = nargv st"
    using parse_verbose [of v st _ "int (length ?B)" False] assms(2) st by blast
  have "v = ''--verbose'' \<or> v = ''-v''" using assms(2) by auto
  moreover have "main_program False ?B = Inr (main_args (switch_label (char_int CHR ''v'')) (optarg st') ?B)"
    using main_program_call [of False ?B _ st'] g p st(2) by simp
  ultimately show "main_program False ?B = Inr ([(IIO_EMU_INFO, [''Virtual device: '', type])], Inr (type, args, 30431))"
    by (auto simp: switch_labels main_args_def handleOptions_def initial_globals_def Let_def)
qed

theorem command_line_server_witness:
  "main_program False [''iio-emu'', ''adalm2000'', ''-v''] =
     Inr ([(IIO_EMU_INFO, [''Virtual device: '', ''adalm2000''])], Inr (''adalm2000'', [], 30431))"
  using command_line_server [of "''adalm2000''" "[]" "''-v''" "''iio-emu''"] by (simp add: is_option_def char_at_def)

text \<open>
  C21: A port is taken over, but the option and its value are handed on as
  arguments of the device; given before the type, the option itself is taken
  for the type.
\<close>

theorem command_line_port:
  assumes "\<forall>w \<in> set (type # args). \<not> is_option w" "n < 65536"
  shows "main_program False (prog # type # args @ [''-p'', show_nat n]) =
      Inr ([(IIO_EMU_INFO, [''TCP Port: '', show_nat n]), (IIO_EMU_INFO, [''Virtual device: '', type])],
           Inr (type, args @ [''-p'', show_nat n], of_nat n)) \<and>
    main_program False (prog # ''-p'' # show_nat n # type # args) =
      Inr ([(IIO_EMU_INFO, [''TCP Port: '', show_nat n]), (IIO_EMU_INFO, [''Virtual device: '', ''-p''])],
           Inr (''-p'', show_nat n # type # args, of_nat n))"
proof
  note main = switch_labels main_args_def handleOptions_def initial_globals_def Let_def strToUint16T_nat [OF assms(2)]
  show "main_program False (prog # type # args @ [''-p'', show_nat n]) =
      Inr ([(IIO_EMU_INFO, [''TCP Port: '', show_nat n]), (IIO_EMU_INFO, [''Virtual device: '', type])],
           Inr (type, args @ [''-p'', show_nat n], of_nat n))"
    using main_port [OF assms(1), of prog "show_nat n" "[]"] by (simp add: main)
  show "main_program False (prog # ''-p'' # show_nat n # type # args) =
      Inr ([(IIO_EMU_INFO, [''TCP Port: '', show_nat n]), (IIO_EMU_INFO, [''Virtual device: '', ''-p''])],
           Inr (''-p'', show_nat n # type # args, of_nat n))"
    using main_port [of "[]" prog "show_nat n" "type # args"] by (simp add: main)
qed

theorem command_line_port_witness:
  "main_program False [''iio-emu'', ''adalm2000'', ''-p'', show_nat 8080] =
     Inr ([(IIO_EMU_INFO, [''TCP Port: '', show_nat 8080]), (IIO_EMU_INFO, [''Virtual device: '', ''adalm2000''])],
          Inr (''adalm2000'', [''-p'', show_nat 8080], 8080))"
  using command_line_port [of "''adalm2000''" "[]" 8080 "''iio-emu''"] by (simp add: is_option_def char_at_def)

text \<open>
  C20: A long option that is not one of the four names, an abbreviation of one
  included, makes the search run past the table, which has no last entry.
\<close>

theorem command_line_unknown_option:
  assumes "\<forall>w \<in> set ws. \<not> is_option w" "NUL \<notin> set t" "t \<noteq> []"
    and "takeWhile (\<lambda>c. c \<noteq> CHR ''='') t \<notin> {''help'', ''list'', ''verbose'', ''port''}"
  shows "main_program False (prog # ws @ (''--'' @ t) # rest) = Inl OutOfBounds"
proof -
  have "is_option (''--'' @ t)" "''--'' @ t \<noteq> ''--''" "NUL \<notin> set (''--'' @ t)"
    using assms(2,3) by (simp_all add: is_option_def char_at_def NUL_def)
  from first_call [OF assms(1) this, of prog rest] parse_unknown_long [OF _ _ assms(3,4)] show ?thesis
    by (auto simp: main_program_def win_getopt_def)
qed

theorem command_line_unknown_option_witness:
  "main_program False [''iio-emu'', ''adalm2000'', ''--verb''] = Inl OutOfBounds"
  using command_line_unknown_option [of "[''adalm2000'']" "''verb''" "''iio-emu''" "[]"]
  by (simp add: is_option_def char_at_def NUL_def)

end
