(* ===== verification/Program.thy ===== *)
theory Program
  imports Tcp_Server Command_Line
begin

text \<open>
  The whole program, of either build: \<open>main\<close> of main.cpp from the words of the
  command line to the serving loop.  The call of \<open>getopt_long\<close> is a parameter:
  given the words it yields what it returned, \<open>optarg\<close> and the order it left
  the words in.  On Windows it is \<open>win_getopt\<close>, the call of deps/wingetopt; on
  Unix it is that of the C library.  The state before the loop is the one \<open>server_start\<close> yields,
  after it the one of the loop; \<open>exit\<close> does not destroy the server.
\<close>

section \<open>Runs of the program\<close>

type_synonym getopt_result = "(char option \<times> string option \<times> string list) result"

text \<open>What \<open>main\<close> does before it calls \<open>start\<close>: an exit status, or the server's world and port.\<close>

definition main_server ::
  "surroundings \<Rightarrow> (string list \<Rightarrow> getopt_result) \<Rightarrow> string list \<Rightarrow> io \<Rightarrow> (log_call list \<times> (int + world \<times> u16)) result" where
  "main_server S call words io0 =
     bindr (call words) (\<lambda>(retOption, optarg, argv).
       let (logs, r) = main_args retOption optarg argv in
       case r of
         Inl code \<Rightarrow> Inr (logs, Inl code)
       | Inr (type, args, p) \<Rightarrow>
           bindr (TcpServer S type args io0) (\<lambda>t.
             case t of
               Inl code \<Rightarrow> Inr (logs @ [(IIO_EMU_FATAL, [''No such device''])], Inl code)
             | Inr w \<Rightarrow> Inr (logs, Inr (w, p))))"

inductive program_run ::
  "build \<Rightarrow> surroundings \<Rightarrow> (string list \<Rightarrow> getopt_result) \<Rightarrow> string list \<Rightarrow> io \<Rightarrow> server \<Rightarrow> bool"
  for P :: build and S :: surroundings and call :: "string list \<Rightarrow> getopt_result" and words :: "string list" and io0 :: io where
  start: "main_server S call words io0 = Inr (logs, Inr (w, p)) \<Longrightarrow>
    program_run P S call words io0 (server_start P e p w)"
| step: "program_run P S call words io0 s \<Longrightarrow> server_step P (s_env S) s s' \<Longrightarrow>
    program_run P S call words io0 s'"

text \<open>The exit status once \<open>start\<close> has returned.\<close>

definition program_exit :: "server \<Rightarrow> int option" where
  "program_exit s = (case srv_phase s of Serving \<Rightarrow> None | Returned ret \<Rightarrow> Some (exit_status ret))"

section \<open>The port\<close>

lemma served_port: "serve_clients P E ccs (n, w, opened) = Inr (n', w', opened') \<Longrightarrow> n_port n' = n_port n"
proof (induction ccs arbitrary: n w opened)
  case Nil
  then show ?case by (simp add: serve_clients_def)
next
  case (Cons cc ccs)
  obtain n1 w1 o1 where 1: "serve_client P E cc (n, w, opened) = Inr (n1, w1, o1)"
    and 2: "serve_clients P E ccs (n1, w1, o1) = Inr (n', w', opened')"
    using Cons.prems by (auto simp: serve_clients_def bindr_eq_Inr_iff)
  obtain client calls where cc: "cc = (client, calls)" by (cases cc)
  from 1 have "n_port n1 = n_port n" unfolding cc
    by (rule serve_client_obtain) (auto simp: net_port split: if_split_asm)
  then show ?case using Cons.IH [OF 2] by simp
qed

lemma turned_port: "server_turn P E e calls s = Inr s' \<Longrightarrow> n_port (srv_net s') = n_port (srv_net s)"
  by (erule server_turn_cases) (auto dest!: net_port(1) served_port)

lemma stepped_port: "server_step P E s s' \<Longrightarrow> n_port (srv_net s') = n_port (srv_net s)"
  by (erule server_stepE) (auto simp: net_port(2) dest: turned_port)

lemma step_serving: "server_step P E s s' \<Longrightarrow> srv_phase s = Serving"
  by (erule server_stepE)

lemma start_port: "srv_phase (server_start P e p w) = Serving \<Longrightarrow> n_port (srv_net (server_start P e p w)) = p"
  by (cases P) (auto simp: server_start_def Let_def nu_open_def nu_bind_def nu_listen_def nw_open_def nw_bind_def nw_listen_def
      split: prod.splits if_split_asm)

text \<open>A run of the program is a run of the server \<open>main\<close> constructs, on its port.\<close>

lemma program_serves:
  "program_run P S call words io0 s \<Longrightarrow>
   \<exists>logs w p. main_server S call words io0 = Inr (logs, Inr (w, p)) \<and> server_run P (s_env S) w s \<and>
     (srv_phase s = Serving \<longrightarrow> n_port (srv_net s) = p)"
proof (induction rule: program_run.induct)
  case (start logs w p e)
  then show ?case using server_run.start start_port by metis
next
  case (step s s')
  then obtain logs w p where "main_server S call words io0 = Inr (logs, Inr (w, p))" "server_run P (s_env S) w s"
    "srv_phase s = Serving \<longrightarrow> n_port (srv_net s) = p" by blast
  moreover from this step.hyps(2) have "server_run P (s_env S) w s'" by (blast intro: server_run.step)
  ultimately show ?case using step_serving [OF step.hyps(2)] stepped_port [OF step.hyps(2)] by auto
qed

text \<open>The construction of the ADALM2000.\<close>

lemma TcpServer_adalm2000:
  "TcpServer S ''adalm2000'' args io0 =
     bindr (Adalm2000Context (s_env S) (s_adalm_xml S) (s_adalm_junk S)) (\<lambda>c.
       Inr (Inr (set_ops (Some c) \<lparr>g_ops = None, w_io = io0\<rparr>)))"
  by (simp add: TcpServer_def buildOps_def strncmp_eq_def bindr_def split: sum.split)

lemma main_server_adalm2000:
  assumes "call [prog, ''adalm2000''] = Inr (None, arg, [prog, ''adalm2000''])"
  shows "main_server S call [prog, ''adalm2000''] io0 =
    bindr (TcpServer S ''adalm2000'' [] io0) (\<lambda>t.
      case t of
        Inl code \<Rightarrow> Inr ([(IIO_EMU_INFO, [''Virtual device: '', ''adalm2000'']), (IIO_EMU_FATAL, [''No such device''])], Inl code)
      | Inr w \<Rightarrow> Inr ([(IIO_EMU_INFO, [''Virtual device: '', ''adalm2000''])], Inr (w, 30431)))"
  by (simp add: main_server_def assms main_args_def handleOptions_def initial_globals_def)

section \<open>Properties\<close>

text \<open>The call of deps/wingetopt on these words is such a call.\<close>

lemma win_getopt_adalm2000: "win_getopt False [prog, ''adalm2000''] = Inr (None, None, [prog, ''adalm2000''])"
  by (rule win_getopt_none) (simp_all add: is_option_def char_at_def)

text \<open>
  C2: Started as \<open>iio-emu adalm2000\<close>, the program, of either build and where
  \<open>getopt_long\<close> finds no option there or is that of deps/wingetopt, is at every
  moment of its run
  an ADALM2000: whatever clients connected and whatever they called, the five
  ids find the oscilloscope, the two signal generators, the logic analyser and
  the pattern generator; while it is serving it listens on port 30431 and its
  clients are the open connections; and it ends with status 1 after a signal
  and 0 after a failure.
\<close>

theorem adalm2000_program:
  assumes "program_run P S call [prog, ''adalm2000''] io0 s"
    and "call = win_getopt False \<or> call [prog, ''adalm2000''] = Inr (None, arg, [prog, ''adalm2000''])"
  shows "\<exists>c. g_ops (srv_world s) = Some c \<and>
    (\<forall>i < 5. getDevice c ([''iio:device0'', ''iio:device6'', ''iio:device7'', ''iio:device10'', ''iio:device9''] ! i)
        = Inr (Some i)) \<and>
    map is_device_in (m_devices c) = [True, False, False, True, False] \<and>
    map is_device_out (m_devices c) = [False, True, True, False, True] \<and>
    (case srv_phase s of
       Serving \<Rightarrow> n_port (srv_net s) = 30431 \<and> set (n_clients (srv_net s)) = srv_open s \<and> program_exit s = None
     | Returned ret \<Rightarrow> program_exit s = Some (if ret then 1 else 0))"
proof -
  obtain arg' where call: "call [prog, ''adalm2000''] = Inr (None, arg', [prog, ''adalm2000''])"
    using assms(2) win_getopt_adalm2000 by blast
  obtain logs w p where m: "main_server S call [prog, ''adalm2000''] io0 = Inr (logs, Inr (w, p))"
    and run: "server_run P (s_env S) w s" and port: "srv_phase s = Serving \<longrightarrow> n_port (srv_net s) = p"
    using program_serves [OF assms(1)] by blast
  obtain t where t: "TcpServer S ''adalm2000'' [] io0 = Inr t"
    using m by (auto simp: main_server_adalm2000 [of call prog arg', OF call] bindr_eq_Inr_iff)
  then have t': "TcpServer S ''adalm2000'' [] io0 = Inr (Inr w)" and p: "p = 30431"
    using m by (cases t; simp add: main_server_adalm2000 [of call prog arg', OF call])+
  obtain c where c: "Adalm2000Context (s_env S) (s_adalm_xml S) (s_adalm_junk S) = Inr c" "g_ops w = Some c"
    using t' by (auto simp: TcpServer_adalm2000 set_ops_def bindr_eq_Inr_iff)
  have "server_ok P s" by (rule server_run_ok [OF run])
  then have "case srv_phase s of
       Serving \<Rightarrow> n_port (srv_net s) = 30431 \<and> set (n_clients (srv_net s)) = srv_open s \<and> program_exit s = None
     | Returned ret \<Rightarrow> program_exit s = Some (if ret then 1 else 0)"
    using port p
    by (auto simp: server_ok_def clients_ok_def program_exit_def exit_status_def split: phase.split)
  then show ?thesis using server_keeps_devices [OF run c(2)] adalm2000_wired [OF c(1)] by metis
qed

text \<open>The program on the example context, with one client connected.\<close>

definition sample_surroundings :: surroundings where
  "sample_surroundings = \<lparr>s_env = m2k_env, s_generic_junk = [], s_adalm_xml = [], s_adalm_junk = no_junk\<rparr>"

definition no_options :: "string list \<Rightarrow> getopt_result" where
  "no_options words = Inr (None, None, words)"

theorem adalm2000_program_witness:
  "program_run Unix sample_surroundings no_options [''iio-emu'', ''adalm2000''] no_io sample_server \<and>
   n_port (srv_net sample_server) = 30431 \<and>
   (\<exists>c. g_ops (srv_world sample_server) = Some c \<and> getDevice c ''iio:device6'' = Inr (Some 1))"
proof -
  have "TcpServer sample_surroundings ''adalm2000'' [] no_io = Inr (Inr m2k_world)"
    by (simp add: TcpServer_adalm2000 sample_surroundings_def m2k_built(1) set_ops_def m2k_world_def)
  then have "main_server sample_surroundings no_options [''iio-emu'', ''adalm2000''] no_io =
      Inr ([(IIO_EMU_INFO, [''Virtual device: '', ''adalm2000''])], Inr (m2k_world, 30431))"
    by (simp add: main_server_adalm2000 no_options_def)
  from program_run.step [OF program_run.start [OF this, of Unix sample_start], of sample_server] sample_step
  have run: "program_run Unix sample_surroundings no_options [''iio-emu'', ''adalm2000''] no_io sample_server"
    by (simp add: sample_surroundings_def)
  obtain c where "g_ops (srv_world sample_server) = Some c"
    "\<forall>i < 5. getDevice c ([''iio:device0'', ''iio:device6'', ''iio:device7'', ''iio:device10'', ''iio:device9''] ! i)
        = Inr (Some i)"
    "n_port (srv_net sample_server) = 30431"
    using adalm2000_program [OF run, of None] by (auto simp: no_options_def sample_server_def)
  then show ?thesis using run by (auto dest: spec [of _ 1])
qed

end
