(* ===== verification/Spec2Isabelle.thy ===== *)
theory Spec2Isabelle
  imports Resample Xml_Utils Attr_Ops M2k_Logic M2k_Dac M2k_Adc Generic_Devices Devices
    Logger Input_Parser Main_Prog Sockets Network Generic_Context Adalm2000_Context Ops_Wrapper Tcp_Server Genxml_Text
    Analog_Loopback Attr_Store Getopt_Loop Command_Line Program
begin

text \<open>
  Verification of iio-emu, the emulator of IIO devices.  A client of libiio
  talks to the emulator over TCP as if it were a board: the server accepts
  connections, libtinyiiod parses the commands of each client and calls back
  into the operations of a context, and the context serves them from an XML
  description (attributes) and from a list of emulated devices (samples).

  \<^bold>\<open>The parts of the program and their theories\<close>

  \<^item> \<open>Prelude\<close>: results (\<open>cpp_error + 'a\<close>, one constructor per kind of undefined
    behaviour or exception), C memory and strings, 16-bit samples in bytes,
    reading a buffer around.
  \<^item> \<open>IEEE_Double\<close>, \<open>Conversions\<close>: the type \<open>double\<close> with correctly rounded
    operations and the casts of it; \<open>stoi\<close>, \<open>to_string\<close>, \<open>strtoimax\<close> and
    \<open>safe_stod\<close> (utils/utility.cpp).
  \<^item> \<open>Resample\<close>: the four templates of utils/utility.hpp.
  \<^item> \<open>Xml_Utils\<close>, \<open>Attr_Ops\<close>: utils/xml_utils.cpp and utils/attr_ops_xml.cpp, on a
    tree of nodes.  libxml2 is a record of functions; what the code relies on
    is named (\<open>getprop_ok\<close>, \<open>setprop_ok\<close>, \<open>removeprop_ok\<close>) and holds of the
    instance \<open>libxml_lists\<close>.
  \<^item> \<open>Cyclic_Source\<close>: the contract of an output device that plays its buffer
    around, a locale; \<open>M2k_Logic\<close>, \<open>M2k_Dac\<close>, \<open>M2k_Adc\<close>: the devices of
    iiod/context/adalm2000/devices, the first two of which fulfil it.
  \<^item> \<open>Generic_Devices\<close>: the file devices of iiod/context/generic_xml/devices on an
    explicit store of files.
  \<^item> \<open>Devices\<close>: the class hierarchy of iiod/devices as a datatype, with the
    virtual functions dispatching on it.  A pointer to a device is its index
    in the list of the context.
  \<^item> \<open>Generic_Context\<close>, \<open>Adalm2000_Context\<close>: the two contexts; the second is the
    first with the optional member \<open>m_adalm\<close>, and \<open>chWriteAttr\<close> and
    \<open>delete_context\<close> dispatch on it.
  \<^item> \<open>Ops_Wrapper\<close>: iiod/ops, the factory, the global pointer and the functions
    libtinyiiod calls; \<open>ops_call\<close> names a call with its arguments and
    \<open>perform\<close> makes it.
  \<^item> \<open>Attr_Store\<close>: the attributes of a context as registers, over the calls of
    \<open>Ops_Wrapper\<close>.
  \<^item> \<open>Sockets\<close>, \<open>Network\<close>, \<open>Tcp_Server\<close>: networking.  What system calls return
    comes from the environment.  \<open>build\<close> tells the two builds apart: the
    preprocessor picks the classes of one of them, \<open>new_socket\<close> and \<open>net_new\<close>
    and the dispatching operations \<open>net_check\<close>, \<open>socket_write\<close> and so on.  One
    turn of the server's loop is a step of the relation \<open>server_step\<close>,
    \<open>server_run\<close> its runs from a start, for either build.
  \<^item> \<open>Logger\<close>, \<open>Input_Parser\<close>, \<open>Main_Prog\<close>: utils/logger.cpp,
    utils/input_parser.cpp and main.cpp.
  \<^item> \<open>Program\<close>: the whole program of either build, from the words of the command line
    through the constructor of the server to the runs of its loop
    (\<open>program_run\<close>) and the exit status.
  \<^item> \<open>Analog_Loopback\<close>: writing, pushing and reading composed for the two signal
    generators and the oscilloscope.
  \<^item> \<open>Getopt\<close>: deps/wingetopt/src/getopt.c, which replaces \<open>getopt_long\<close> on
    Windows: its variables and the argument vector are the record
    \<open>getopt_vars\<close>.  \<open>Getopt_Order\<close> proves the exchange of two blocks of
    arguments, \<open>Getopt_Calls\<close> the invariant that holds between two calls,
    \<open>Getopt_Loop\<close> the loop a caller runs.  \<open>Command_Line\<close> composes it with
    main.cpp.
  \<^item> \<open>Genxml\<close>, \<open>Genxml_Text\<close>: tools/genxml.c, which prints a description.

  \<^bold>\<open>Interfaces\<close>

  Five locales state what several parts share: \<open>cyclic_source\<close>
  (interpreted for the pattern generator and the signal generator),
  \<open>window_walk\<close> of \<open>Resample\<close> (for the averaging and the voting
  decimation template), \<open>byte_queue\<close> of \<open>Generic_Devices\<close> (for two
  devices on one file), \<open>retrying_receiver\<close> (for the two kinds of socket)
  and \<open>network_interface\<close> (for the two kinds of network and for the one the
  build selects).

  \<^bold>\<open>What is shown\<close>

  For the devices: a draw delivers the next samples of the buffer read around
  and moves the read position by their number, in every state with the
  position inside the buffer, which all sequences of operations without a
  cancelled (digital) or closed (analog) buffer keep; resampling
  undoes itself where it can, oscilloscope reads deliver whole frames, files
  behave as queues; the loopbacks, the digital one at the end of this theory
  and the analog one, compose writing, pushing, resampling and reading.  For
  attributes: a write is read back and changes no other attribute of a device,
  a channel or the context, and over any sequence of calls an attribute holds
  what was written to it last.  For contexts: no sequence of calls changes which
  device an id finds, its class or its connections, and only attribute writes
  change the document; a supply's write is visible on its measuring channel.
  For the server: the client list is the set of open connections, each once,
  and the listening socket is closed exactly once, but twice after a failed
  accept on Windows; on Unix a pending connection is taken when \<open>select\<close> looks
  at the listening socket, which it does not with smaller clients only, and a
  failed accept ends the server.  For the generator of
  descriptions: the precomputed lengths are exact within the limits, and no
  block is overrun beyond them, whichever allocations fail, except at one
  label of the cleanup, which always reads out of bounds.  For the option
  parser: the loop over it ends, and leaves the words as a function orders
  them that reads the command line once (\<open>arrange\<close>, with \<open>option_words\<close> for the
  arguments of an option).  For the
  program: started as an ADALM2000 it stays one until it exits.  A number of theorems state where the code
  fails: overruns, stale read positions, double deletion, a division by zero.

  \<^bold>\<open>Bounds and representation\<close>

  Sizes of buffers are natural numbers; where the code computes with 32-bit or
  64-bit sizes the wrap-around is written out, and containers of two to the 32
  or more elements, on which the 32-bit loop counters wrap, are \<open>TooLarge\<close>.
  Masks, ports and samples are words.  No fuel is used: all loops are
  recursive functions with a termination proof, and a receive loop runs over
  the list of outcomes of its system call, at whose end it is \<open>Blocked\<close>.
  The loop over the options is given \<open>turns\<close> calls, one for each character and
  each word of the command line and one more, and shown to need no more.
  Uninitialised memory is a parameter of the operation that reads it, the
  array on the stack is \<open>stack_junk\<close> of \<open>env\<close>, whose length is
  \<open>IIOD_BUFFER_SIZE\<close>.

  \<^bold>\<open>Not modelled\<close>

  libtinyiiod itself (a sequence of calls), libxml2 and libiio (parameters),
  the \<open>getopt_long\<close> of the C library on Unix (a parameter), the
  description adalm2000.xml (a parameter), freeing of memory except for the
  devices of a context and the loops of genxml.c that walk back over arrays of
  pointers, the log output of the operations, and threads (the two
  reading threads of the oscilloscope run one after the other, in either
  order).
\<close>

section \<open>From one client to another\<close>

lemma draw_bits_buffer:
  assumes "out < length devs" "devs ! out = Dev_M2kLogicTX d" "in_buffer (ltx_samples d) (ltx_current_index d)"
  obtains d' where "draw_bits out n devs = Inr (cyc (ltx_samples d) (ltx_current_index d) n, devs[out := Dev_M2kLogicTX d'])"
proof -
  have "ltx_samples d \<noteq> []" using assms(3) by (auto simp: in_buffer_def)
  then show thesis using that assms
    by (simp add: draw_bits_def ltx_transfer_samples_def generator.drain_cyc)
qed

text \<open>
  C1: What one client writes to the pattern generator is what another reads
  from the logic analyser: with the generator empty or its last buffer
  pushed, and both devices set to the same rate, the samples written,
  pushed and then read come back as they were, in their order and starting
  over at their end, at every rate whose ratio to the hardware rate is a
  positive number and for all lengths whose stretched buffers have fewer
  than two to the 32 samples.
\<close>

theorem logic_loopback:
  assumes tx: "getDevice c tx = Inr (Some j)" "m_devices c ! j = Dev_M2kLogicTX t"
    and rx: "getDevice c rx = Inr (Some k)" "m_devices c ! k = Dev_M2kLogicRX r"
    and conn: "lrx_connections r = [(Some j, ch)]"
    and rate: "ltx_loadValues E (m_doc c) t = Inr (t\<lparr>ltx_samplerate := rate\<rparr>)"
    "lrx_loadValues E (m_doc c) r = Inr (r\<lparr>lrx_samplerate := rate\<rparr>)"
    "cast_u32 (div_d rate_1E8 rate) = Inr ratio" "0 < ratio"
    and fresh: "ltx_samples t = [] \<and> ltx_current_index t = 0 \<or> ltx_reset_buffer t"
    and len: "ws \<noteq> []" "length ws * ratio < 2 ^ 32" "n * ratio + ratio < 2 ^ 32" "length pbuf = 2 * n"
  shows "\<exists>c1 c2 c3. writeDev c io tx (encode16 ws) off (2 * length ws) = Inr (c1, io, 2 * int (length ws)) \<and>
    transferMemToDev E c1 tx m = Inr (c2, 0) \<and>
    readDev E c2 io rx pbuf off' (2 * n) = Inr (c3, io, encode16 (cyc ws 0 n), 2 * int n)"
proof -
  have range: "j < length (m_devices c)" "k < length (m_devices c)"
    using tx(1) rx(1) find_device_range by (auto simp: getDevice_def)
  have jk: "j \<noteq> k" using tx(2) rx(2) by auto
  define t1 where "t1 = t\<lparr>ltx_samples := ws, ltx_current_index := 0, ltx_reset_buffer := False\<rparr>"
  define t2 where "t2 = t1\<lparr>ltx_samplerate := rate, ltx_samples := concat (map (replicate ratio) ws), ltx_reset_buffer := True\<rparr>"
  define c1 where "c1 = set_device c j (Dev_M2kLogicTX t1)"
  define c2 where "c2 = set_device c1 j (Dev_M2kLogicTX t2)"
  have id: "m_device_id t1 = m_device_id t" "m_device_id t2 = m_device_id t" by (simp_all add: t1_def t2_def)
  have keep: "keeps c c1" "keeps c c2"
    using tx(2) range(1) by (simp_all add: c1_def c2_def keeps_def set_device_def id shapes_update socket_next_refl)
  have get: "getDevice c1 tx = Inr (Some j)" "getDevice c2 rx = Inr (Some k)"
    using keeps_getDevice [OF keep(1)] keeps_getDevice [OF keep(2)] tx(1) rx(1) by simp_all
  have dev: "m_devices c1 ! j = Dev_M2kLogicTX t1" "m_devices c2 ! j = Dev_M2kLogicTX t2"
    "m_devices c2 ! k = Dev_M2kLogicRX r" "m_doc c1 = m_doc c" "m_doc c2 = m_doc c" "j < length (m_devices c2)"
    using range jk rx(2) by (simp_all add: c1_def c2_def set_device_def)
  have "writeDev c io tx (encode16 ws) off (2 * length ws) = Inr (c1, io, 2 * int (length ws))"
    using tx ltx_write_fresh [OF fresh, of ws off] by (simp add: writeDev_def c1_def t1_def)
  moreover have "ltx_loadValues E (m_doc c) t1 = Inr (t1\<lparr>ltx_samplerate := rate\<rparr>)"
    by (rule ltx_loadValues_same_id [OF rate(1) id(1)])
  then have "ltx_transfer_mem_to_dev E (m_doc c) t1 m = Inr (t2, 0)"
    using ltx_push [of E "m_doc c" t1 rate ratio m] rate(3,4) len(2) by (simp add: t1_def t2_def)
  then have "transferMemToDev E c1 tx m = Inr (c2, 0)"
    using get dev by (simp add: transferMemToDev_def c2_def)
  moreover have "length (ltx_samples t2) = ratio * length ws"
    by (simp add: t2_def length_interpolated del: length_concat)
  then have "in_buffer (ltx_samples t2) (ltx_current_index t2)"
    using len(1,2) rate(4) by (simp add: in_buffer_def mult.commute) (simp add: t2_def t1_def)
  then obtain t3 where draw: "draw_bits j (n * ratio) (m_devices c2) =
      Inr (cyc (ltx_samples t2) (ltx_current_index t2) (n * ratio), (m_devices c2)[j := Dev_M2kLogicTX t3])"
    using draw_bits_buffer [OF dev(6,2)] by blast
  have "lrx_read_dev E (m_doc c) draw_bits r pbuf off' (2 * n) (m_devices c2) =
      Inr (r\<lparr>lrx_samplerate := rate\<rparr>, encode16 (cyc ws 0 n), 2 * int n, (m_devices c2)[j := Dev_M2kLogicTX t3])"
    by (rule lrx_read_stretched [OF rate(2-4) conn len(3,4,1)])
      (use draw in \<open>simp add: t2_def t1_def\<close>)
  then have "\<exists>c3. readDev E c2 io rx pbuf off' (2 * n) = Inr (c3, io, encode16 (cyc ws 0 n), 2 * int n)"
    using get dev by (simp add: readDev_def read_dev_def)
  ultimately show ?thesis by blast
qed

theorem logic_loopback_witness:
  "\<exists>c1 c2 c3. writeDev m2k no_io ''iio:device9'' [1, 0, 2, 0, 3, 0] 0 6 = Inr (c1, no_io, 6) \<and>
     transferMemToDev m2k_env c1 ''iio:device9'' 6 = Inr (c2, 0) \<and>
     readDev m2k_env c2 no_io ''iio:device10'' (replicate 10 7) 0 10
       = Inr (c3, no_io, [1, 0, 2, 0, 3, 0, 1, 0, 2, 0], 10)"
proof -
  define t where "t = M2kLogicTX ''iio:device9'' 0 (Zero False)"
  define r where "r = (M2kLogicRX ''iio:device10'' 0 (Zero False))\<lparr>lrx_connections := [(Some 4, 0)]\<rparr>"
  note devs = Adalm2000Context_devices(1) [OF m2k_built(1)]
  have d: "m_devices m2k ! 4 = Dev_M2kLogicTX t" "m_devices m2k ! 3 = Dev_M2kLogicRX r"
    by (simp_all add: devs t_def r_def no_junk_def)
  have get: "getDevice m2k ''iio:device9'' = Inr (Some 4)" "getDevice m2k ''iio:device10'' = Inr (Some 3)"
    by (simp_all add: getDevice_def devs M2kADC_def M2kDAC_def M2kLogicRX_def M2kLogicTX_def NUL_def)
  have rates: "ltx_loadValues m2k_env m2k_doc t = Inr (t\<lparr>ltx_samplerate := Fin 10000000\<rparr>)"
    "lrx_loadValues m2k_env m2k_doc r = Inr (r\<lparr>lrx_samplerate := Fin 10000000\<rparr>)"
    "div_d rate_1E8 (Fin 10000000) = Fin 10"
    unfolding t_def r_def by code_simp+
  have bytes: "encode16 [1, 2, 3] = [1, 0, 2, 0, 3, 0]" "encode16 (cyc [1, 2, 3] 0 5) = [1, 0, 2, 0, 3, 0, 1, 0, 2, 0]"
    by code_simp+
  have "cast_u32 (div_d rate_1E8 (Fin 10000000)) = Inr 10"
    unfolding rates(3) by (simp add: cast_u32_numeral)
  from logic_loopback [OF get(1) d(1) get(2) d(2) _ _ _ this, of 0 m2k_env "[1, 2, 3]" 5 "replicate 10 7" no_io 0 6 0]
  show ?thesis using rates(1,2) by (simp add: bytes m2k_built(2) r_def t_def M2kLogicTX_def)
qed

end
